(* ===== verification/Prelude.thy ===== *)
theory Prelude
  imports Main "HOL-Library.Word"
begin

text \<open>
  Shared vocabulary of the development: bytes and fixed-width integers, the faults a C++ operation
  can run into, a small result type for operations that may fault, bounds-checked memory access,
  little-endian integers, the C runtime's string routines as the server uses them, and the
  reachability scheme of the step relations.
\<close>

section \<open>Types\<close>

type_synonym byte = "8 word"
type_synonym UINT8 = "8 word"
type_synonym UINT16 = "16 word"
type_synonym UINT32 = "32 word"
type_synonym UINT64 = "64 word"

text \<open>
  What a C++ operation does besides returning: an access outside an array or vector, a null
  dereference, \<open>front()\<close>/\<open>pop()\<close> on an empty container, an access to freed memory, and the CRT's invalid-parameter
  handler (\<open>strcpy_s\<close> into a too small destination ends the process).
\<close>

datatype fault = OutOfBounds | NullPointer | EmptyContainer | InvalidParameter | UseAfterFree

type_synonym 'a result = "fault + 'a"

named_theorems result_simps \<open>equations of the result type\<close>
named_theorems memory_simps \<open>memory access in bounds\<close>

definition bindr :: "'a result \<Rightarrow> ('a \<Rightarrow> 'b result) \<Rightarrow> 'b result" where
  "bindr m f = (case m of Inl e \<Rightarrow> Inl e | Inr x \<Rightarrow> f x)"

lemma bindr_simps [simp]:
  "bindr (Inl e) f = Inl e"
  "bindr (Inr x) f = f x"
  by (simp_all add: bindr_def)

lemma bindr_eq_Inr [result_simps]:
  "bindr m f = Inr y \<longleftrightarrow> (\<exists>x. m = Inr x \<and> f x = Inr y)"
  by (cases m) auto

lemma bindr_eq_Inl [result_simps]:
  "bindr m f = Inl e \<longleftrightarrow> m = Inl e \<or> (\<exists>x. m = Inr x \<and> f x = Inl e)"
  by (cases m) auto

lemma bindr_InrE:
  assumes "bindr m f = Inr y"
  obtains x where "m = Inr x" and "f x = Inr y"
  using assms by (auto simp: result_simps)

lemma case_result_eq_Inr [result_simps]:
  "(case m of Inl e \<Rightarrow> Inl e | Inr x \<Rightarrow> f x) = Inr y \<longleftrightarrow> (\<exists>x. m = Inr x \<and> f x = Inr y)"
  by (cases m) auto

text \<open>\<open>std::vector\<close> indexing and array stores, with the out-of-range case written out.\<close>

definition vec_at :: "'a list \<Rightarrow> nat \<Rightarrow> 'a result" where
  "vec_at xs i = (if i < length xs then Inr (xs ! i) else Inl OutOfBounds)"

lemma vec_at_in [simp]: "i < length xs \<Longrightarrow> vec_at xs i = Inr (xs ! i)"
  by (simp add: vec_at_def)

lemma vec_at_eq_Inr [result_simps]: "vec_at xs i = Inr x \<longleftrightarrow> i < length xs \<and> x = xs ! i"
  by (auto simp: vec_at_def)

text \<open>\<open>CopyMemory\<close> out of a memory object: \<open>n\<close> bytes from offset \<open>off\<close>.\<close>

definition mem_read :: "byte list \<Rightarrow> nat \<Rightarrow> nat \<Rightarrow> byte list result" where
  "mem_read mem off n =
     (if off + n \<le> length mem then Inr (take n (drop off mem)) else Inl OutOfBounds)"

lemma mem_read_in [simp]:
  "off + n \<le> length mem \<Longrightarrow> mem_read mem off n = Inr (take n (drop off mem))"
  by (simp add: mem_read_def)

lemma mem_read_eq_Inr [result_simps]:
  "mem_read mem off n = Inr bs \<longleftrightarrow> off + n \<le> length mem \<and> bs = take n (drop off mem)"
  by (auto simp: mem_read_def)

text \<open>\<open>CopyMemory\<close> into a memory object.\<close>

definition mem_write :: "byte list \<Rightarrow> nat \<Rightarrow> byte list \<Rightarrow> byte list result" where
  "mem_write mem off bs =
     (if off + length bs \<le> length mem
      then Inr (take off mem @ bs @ drop (off + length bs) mem) else Inl OutOfBounds)"

lemma mem_write_length: "mem_write mem off bs = Inr mem' \<Longrightarrow> length mem' = length mem"
  by (auto simp: mem_write_def split: if_splits)

section \<open>Postconditions\<close>

text \<open>
  \<open>ensures m P\<close>: if the operation does not fault, its result satisfies \<open>P\<close> (used for invariants);
  \<open>runs m P\<close>: it does not fault and its result satisfies \<open>P\<close>. The rules in \<open>ensures_rules\<close> and
  \<open>runs_rules\<close> follow the control structures the handlers are written with.
\<close>

definition ensures :: "'a result \<Rightarrow> ('a \<Rightarrow> bool) \<Rightarrow> bool" where
  "ensures m P \<longleftrightarrow> (\<forall>x. m = Inr x \<longrightarrow> P x)"

definition runs :: "'a result \<Rightarrow> ('a \<Rightarrow> bool) \<Rightarrow> bool" where
  "runs m P \<longleftrightarrow> (\<exists>x. m = Inr x \<and> P x)"

named_theorems ensures_rules \<open>rules for postconditions\<close>
named_theorems runs_rules \<open>rules for postconditions of operations that do not fault\<close>

lemma ensuresD: "ensures m P \<Longrightarrow> m = Inr x \<Longrightarrow> P x"
  by (simp add: ensures_def)

lemma ensuresI: "(\<And>x. m = Inr x \<Longrightarrow> P x) \<Longrightarrow> ensures m P"
  by (simp add: ensures_def)

lemma ensures_mono: "ensures m Q \<Longrightarrow> (\<And>x. m = Inr x \<Longrightarrow> Q x \<Longrightarrow> P x) \<Longrightarrow> ensures m P"
  by (simp add: ensures_def)

lemma ensures_basic [ensures_rules]:
  "ensures (Inl e) P" "P x \<Longrightarrow> ensures (Inr x) P"
  by (simp_all add: ensures_def)

lemma ensures_bindr [ensures_rules]: "ensures m (\<lambda>x. ensures (f x) P) \<Longrightarrow> ensures (bindr m f) P"
  by (auto simp: ensures_def result_simps)

lemma ensures_if [ensures_rules]: "(c \<Longrightarrow> ensures a P) \<Longrightarrow> (\<not> c \<Longrightarrow> ensures b P) \<Longrightarrow> ensures (if c then a else b) P"
  by simp

lemma ensures_option [ensures_rules]:
  "(x = None \<Longrightarrow> ensures a P) \<Longrightarrow> (\<And>y. x = Some y \<Longrightarrow> ensures (f y) P) \<Longrightarrow>
     ensures (case x of None \<Rightarrow> a | Some y \<Rightarrow> f y) P"
  by (cases x) simp_all

lemma ensures_prod [ensures_rules]:
  "(\<And>a b. x = (a, b) \<Longrightarrow> ensures (f a b) P) \<Longrightarrow> ensures (case x of (a, b) \<Rightarrow> f a b) P"
  by (cases x) simp

lemma ensures_vec_at [ensures_rules]: "(i < length xs \<Longrightarrow> P (xs ! i)) \<Longrightarrow> ensures (vec_at xs i) P"
  by (simp add: ensures_def vec_at_def)

lemma ensures_any: "(\<And>x. P x) \<Longrightarrow> ensures m P"
  by (simp add: ensures_def)

lemma runs_iff: "runs m P \<longleftrightarrow> (\<exists>x. m = Inr x) \<and> ensures m P"
  by (auto simp: runs_def ensures_def)

lemma runs_basic [runs_rules]: "P x \<Longrightarrow> runs (Inr x) P"
  by (simp add: runs_def)

lemma runs_bindr [runs_rules]: "runs m (\<lambda>x. runs (f x) P) \<Longrightarrow> runs (bindr m f) P"
  by (auto simp: runs_def)

lemma runs_if [runs_rules]: "(c \<Longrightarrow> runs a P) \<Longrightarrow> (\<not> c \<Longrightarrow> runs b P) \<Longrightarrow> runs (if c then a else b) P"
  by simp

lemma runs_option [runs_rules]:
  "(x = None \<Longrightarrow> runs a P) \<Longrightarrow> (\<And>y. x = Some y \<Longrightarrow> runs (f y) P) \<Longrightarrow>
     runs (case x of None \<Rightarrow> a | Some y \<Rightarrow> f y) P"
  by (cases x) simp_all

lemma runs_prod [runs_rules]:
  "(\<And>a b. x = (a, b) \<Longrightarrow> runs (f a b) P) \<Longrightarrow> runs (case x of (a, b) \<Rightarrow> f a b) P"
  by (cases x) simp

lemma runs_vec_at [runs_rules]: "i < length xs \<Longrightarrow> P (xs ! i) \<Longrightarrow> runs (vec_at xs i) P"
  by (simp add: runs_def)

lemma runs_mono: "runs m Q \<Longrightarrow> (\<And>x. m = Inr x \<Longrightarrow> Q x \<Longrightarrow> P x) \<Longrightarrow> runs m P"
  by (auto simp: runs_def)

section \<open>Little-endian integers\<close>

text \<open>The layout of integers in packets: the server runs on x64, least significant byte first.\<close>

fun le_bytes :: "nat \<Rightarrow> nat \<Rightarrow> byte list" where
  "le_bytes 0 x = []"
| "le_bytes (Suc n) x = of_nat x # le_bytes n (x div 256)"

fun of_le :: "byte list \<Rightarrow> nat" where
  "of_le [] = 0"
| "of_le (b # bs) = unat b + 256 * of_le bs"

lemma length_le_bytes [simp]: "length (le_bytes n x) = n"
  by (induction n arbitrary: x) auto

lemma of_le_le_bytes: "of_le (le_bytes n x) = x mod 256 ^ n"
proof (induction n arbitrary: x)
  case 0
  then show ?case by simp
next
  case (Suc n)
  have "of_le (le_bytes (Suc n) x) = x mod 256 + 256 * (x div 256 mod 256 ^ n)"
    by (simp add: Suc.IH unat_of_nat)
  also have "\<dots> = x mod (256 * 256 ^ n)"
    by (simp add: mod_mult2_eq)
  finally show ?case by simp
qed

lemma of_le_bound: "of_le bs < 256 ^ length bs"
proof (induction bs)
  case Nil
  then show ?case by simp
next
  case (Cons b bs)
  have "unat b < 256" using unsigned_less [of b, where ?'a = nat] by simp
  with Cons.IH show ?case by simp
qed

definition get_UINT16 :: "byte list \<Rightarrow> nat \<Rightarrow> UINT16 result" where
  "get_UINT16 mem off = bindr (mem_read mem off 2) (\<lambda>bs. Inr (of_nat (of_le bs)))"

definition get_UINT32 :: "byte list \<Rightarrow> nat \<Rightarrow> UINT32 result" where
  "get_UINT32 mem off = bindr (mem_read mem off 4) (\<lambda>bs. Inr (of_nat (of_le bs)))"

text \<open>An \<open>INT32\<close> field: two's complement.\<close>

definition get_INT32 :: "byte list \<Rightarrow> nat \<Rightarrow> int result" where
  "get_INT32 mem off = bindr (get_UINT32 mem off) (\<lambda>w. Inr (sint w))"

definition put_UINT16 :: "UINT16 \<Rightarrow> byte list" where
  "put_UINT16 w = le_bytes 2 (unat w)"

definition put_UINT32 :: "UINT32 \<Rightarrow> byte list" where
  "put_UINT32 w = le_bytes 4 (unat w)"

definition put_UINT64 :: "UINT64 \<Rightarrow> byte list" where
  "put_UINT64 w = le_bytes 8 (unat w)"

definition put_INT32 :: "int \<Rightarrow> byte list" where
  "put_INT32 i = put_UINT32 (of_int i)"

definition get_UINT64 :: "byte list \<Rightarrow> nat \<Rightarrow> UINT64 result" where
  "get_UINT64 mem off = bindr (mem_read mem off 8) (\<lambda>bs. Inr (of_nat (of_le bs)))"

lemma length_put [simp]:
  "length (put_UINT16 w) = 2" "length (put_UINT32 v) = 4" "length (put_UINT64 u) = 8"
  "length (put_INT32 i) = 4"
  by (simp_all add: put_UINT16_def put_UINT32_def put_UINT64_def put_INT32_def)

lemma mem_read_append [memory_simps]:
  "length pre = off \<Longrightarrow> length bs = n \<Longrightarrow> mem_read (pre @ bs @ post) off n = Inr bs"
  by (simp add: mem_read_def)

lemma of_nat_le_bytes_mod:
  fixes w :: "'a::len word"
  assumes "LENGTH('a) = 8 * n"
  shows "of_nat (of_le (le_bytes n (unat w))) = w"
proof -
  have "unat w < 256 ^ n"
    using unsigned_less [of w, where ?'a = nat] assms by (simp add: power_mult)
  then have "of_le (le_bytes n (unat w)) = unat w"
    by (simp add: of_le_le_bytes)
  then show ?thesis by simp
qed

lemma get_put_UINT16 [memory_simps]:
  "length pre = off \<Longrightarrow> get_UINT16 (pre @ put_UINT16 w @ post) off = Inr w"
  by (simp add: get_UINT16_def memory_simps put_UINT16_def of_nat_le_bytes_mod)

lemma get_put_UINT32 [memory_simps]:
  "length pre = off \<Longrightarrow> get_UINT32 (pre @ put_UINT32 w @ post) off = Inr w"
  by (simp add: get_UINT32_def memory_simps put_UINT32_def of_nat_le_bytes_mod)

lemma get_put_UINT64 [memory_simps]:
  "length pre = off \<Longrightarrow> get_UINT64 (pre @ put_UINT64 w @ post) off = Inr w"
  by (simp add: get_UINT64_def memory_simps put_UINT64_def of_nat_le_bytes_mod)

lemma get_put_INT32 [memory_simps]:
  assumes "length pre = off" and "- (2 ^ 31) \<le> i" and "i < 2 ^ 31"
  shows "get_INT32 (pre @ put_INT32 i @ post) off = Inr i"
proof -
  have "sint (of_int i :: UINT32) = i"
    using assms(2,3) by (simp add: signed_of_int signed_take_bit_int_eq_self)
  then show ?thesis
    using assms(1) by (simp add: get_INT32_def put_INT32_def get_put_UINT32)
qed

section \<open>C strings\<close>

text \<open>
  A \<open>char*\<close> is the memory from the pointed-to byte to the end of its object. Reading a string
  scans for the NUL; where the object ends first the read leaves the object.
\<close>

fun c_str :: "byte list \<Rightarrow> byte list result" where
  "c_str [] = Inl OutOfBounds"
| "c_str (b # bs) = (if b = 0 then Inr [] else bindr (c_str bs) (\<lambda>s. Inr (b # s)))"

text \<open>
  \<open>strcpy_s(dst, n, src)\<close>: the characters copied before the NUL; with no NUL in the first \<open>n\<close>
  bytes of the source the invalid-parameter handler runs.
\<close>

fun strcpy_s :: "nat \<Rightarrow> byte list \<Rightarrow> byte list result" where
  "strcpy_s 0 src = Inl InvalidParameter"
| "strcpy_s (Suc n) [] = Inl OutOfBounds"
| "strcpy_s (Suc n) (b # bs) = (if b = 0 then Inr [] else bindr (strcpy_s n bs) (\<lambda>s. Inr (b # s)))"

text \<open>\<open>strnlen\<close>/\<open>strncmp\<close> as used: the string in a fixed-size field, and a prefix test.\<close>

definition strn_field :: "nat \<Rightarrow> byte list \<Rightarrow> byte list" where
  "strn_field n mem = takeWhile (\<lambda>b. b \<noteq> 0) (take n mem)"

definition bytes_of_string :: "string \<Rightarrow> byte list" where
  "bytes_of_string s = map of_char s"

text \<open>A string value as the memory behind \<open>c_str()\<close>.\<close>

definition nul_terminated :: "byte list \<Rightarrow> byte list" where
  "nul_terminated s = s @ [0]"

lemma c_str_append_nul [memory_simps]: "0 \<notin> set s \<Longrightarrow> c_str (s @ 0 # post) = Inr s"
  by (induction s) auto

lemma c_str_nul_terminated [simp]: "0 \<notin> set s \<Longrightarrow> c_str (nul_terminated s) = Inr s"
  by (simp add: nul_terminated_def c_str_append_nul)

lemma c_str_eq_Inr: "c_str mem = Inr s \<longleftrightarrow> 0 \<notin> set s \<and> (\<exists>post. mem = s @ 0 # post)"
proof (induction mem arbitrary: s)
  case Nil
  then show ?case by simp
next
  case (Cons b bs)
  then show ?case by (cases s) (auto simp: result_simps)
qed

lemma c_str_defined: "0 \<in> set mem \<Longrightarrow> \<exists>s. c_str mem = Inr s"
  by (induction mem) auto

lemma strcpy_s_eq_Inr: "strcpy_s n mem = Inr s \<longleftrightarrow> c_str mem = Inr s \<and> length s < n"
proof (induction n mem arbitrary: s rule: strcpy_s.induct)
  case (3 n b bs)
  then show ?case by (cases s) (auto simp: result_simps)
qed simp_all

lemma strcpy_s_overflow:
  "c_str mem = Inr s \<Longrightarrow> n \<le> length s \<Longrightarrow> strcpy_s n mem = Inl InvalidParameter"
proof (induction n mem arbitrary: s rule: strcpy_s.induct)
  case (3 n b bs)
  then show ?case by (auto simp: result_simps split: if_splits)
qed simp_all

lemma strn_field_nul: "0 \<notin> set s \<Longrightarrow> length s < n \<Longrightarrow> strn_field n (s @ 0 # post) = s"
  by (cases "n - length s") (auto simp: strn_field_def takeWhile_append)

section \<open>Reachable states\<close>

text \<open>
  The states a step relation reaches from its initial states; the locale states when a predicate is
  an inductive invariant, and its lemma is the induction done once for every component.
\<close>

inductive reach :: "('s \<Rightarrow> bool) \<Rightarrow> ('s \<Rightarrow> 's \<Rightarrow> bool) \<Rightarrow> 's \<Rightarrow> bool"
  for init :: "'s \<Rightarrow> bool" and step :: "'s \<Rightarrow> 's \<Rightarrow> bool" where
  reach_init: "init s \<Longrightarrow> reach init step s"
| reach_step: "reach init step s \<Longrightarrow> step s t \<Longrightarrow> reach init step t"

lemma reach_mono:
  "reach init step s \<Longrightarrow> (\<And>s t. step s t \<Longrightarrow> step' s t) \<Longrightarrow> reach init step' s"
  by (induction rule: reach.induct) (auto intro: reach.intros)

locale invariant_system =
  fixes init :: "'s \<Rightarrow> bool" and step :: "'s \<Rightarrow> 's \<Rightarrow> bool" and inv :: "'s \<Rightarrow> bool"
  assumes inv_init: "init s \<Longrightarrow> inv s"
    and inv_step: "inv s \<Longrightarrow> step s t \<Longrightarrow> inv t"
begin

lemma inv_reach: "reach init step s \<Longrightarrow> inv s"
  by (induction rule: reach.induct) (auto intro: inv_init inv_step)

lemma inv_steps: "inv s \<Longrightarrow> step\<^sup>*\<^sup>* s t \<Longrightarrow> inv t"
  by (rotate_tac, induction rule: rtranclp.induct) (auto intro: inv_step)

end

section \<open>Lists\<close>

lemma nth_ext_map_upt:
  "length xs = n \<Longrightarrow> (\<And>i. i < n \<Longrightarrow> xs ! i = f i) \<Longrightarrow> map f [0..<n] = xs"
  by (rule nth_equalityI) auto

lemma nth_update [simp]: "j < length xs \<Longrightarrow> xs[i := x] ! j = (if i = j then x else xs ! j)"
  by (cases "i = j") simp_all

lemma take_min_length [simp]: "take (min n (length xs)) xs = take n xs"
  by (simp add: min_def)

end
