(* ===== verification/ObjectPool.thy ===== *)
theory ObjectPool
  imports Prelude
begin

text \<open>
  \<open>ObjectPool.h\<close> and \<open>ObjectMemoryPool.h\<close>: the two fixed-size pools. An object of the first is named
  by its position in \<open>mAllBlocks\<close>; the free list is a stack. The interface \<open>object_pool\<close> states what
  the network layer relies on: an object is handed out to one user at a time and comes back. The
  second pool (not used by the server) threads its free list through the chunks themselves.
\<close>

section \<open>The interface\<close>

locale object_pool =
  fixes pool_inv :: "'p \<Rightarrow> bool" and objects :: "'p \<Rightarrow> nat set" and available :: "'p \<Rightarrow> nat set"
    and alloc :: "'p \<Rightarrow> nat option \<times> 'p" and release :: "'p \<Rightarrow> nat option \<Rightarrow> 'p"
  assumes available_objects: "pool_inv p \<Longrightarrow> available p \<subseteq> objects p \<and> finite (objects p)"
    and alloc_some: "pool_inv p \<Longrightarrow> available p \<noteq> {} \<Longrightarrow> \<exists>a p'. alloc p = (Some a, p') \<and> pool_inv p' \<and>
      a \<in> available p \<and> available p' = available p - {a} \<and> objects p' = objects p"
    and alloc_none: "pool_inv p \<Longrightarrow> available p = {} \<Longrightarrow> alloc p = (None, p)"
    and release_law: "pool_inv p \<Longrightarrow> a \<in> objects p - available p \<Longrightarrow>
      pool_inv (release p (Some a)) \<and> available (release p (Some a)) = insert a (available p) \<and>
      objects (release p (Some a)) = objects p"
    and release_null: "release p None = p"
begin

definition in_use :: "'p \<Rightarrow> nat set" where "in_use p = objects p - available p"

lemma alloc_fresh:
  assumes "pool_inv p" and "alloc p = (Some a, p')"
  shows "pool_inv p'" and "a \<in> objects p" and "a \<notin> in_use p" and "in_use p' = insert a (in_use p)"
    and "objects p' = objects p"
proof -
  have "available p \<noteq> {}" using alloc_none [OF assms(1)] assms(2) by auto
  then have "pool_inv p' \<and> a \<in> available p \<and> available p' = available p - {a} \<and> objects p' = objects p"
    using alloc_some [OF assms(1)] assms(2) by auto
  then show "pool_inv p'" "a \<in> objects p" "a \<notin> in_use p" "in_use p' = insert a (in_use p)"
    "objects p' = objects p"
    using available_objects [OF assms(1)] by (auto simp: in_use_def)
qed

lemma release_in_use:
  assumes "pool_inv p" and "a \<in> in_use p"
  shows "pool_inv (release p (Some a))" and "in_use (release p (Some a)) = in_use p - {a}"
    and "objects (release p (Some a)) = objects p"
  using release_law [OF assms(1), of a] assms(2) by (auto simp: in_use_def)

lemma alloc_fails_iff:
  assumes "pool_inv p"
  shows "fst (alloc p) = None \<longleftrightarrow> in_use p = objects p"
proof (cases "available p = {}")
  case True
  then show ?thesis using alloc_none [OF assms] by (simp add: in_use_def)
next
  case False
  then have "fst (alloc p) \<noteq> None" using alloc_some [OF assms] by auto
  moreover have "in_use p \<noteq> objects p"
    using False available_objects [OF assms] by (auto simp: in_use_def)
  ultimately show ?thesis by simp
qed

lemma release_alloc:
  assumes "pool_inv p" and "a \<in> in_use p"
  shows "fst (alloc (release p (Some a))) \<noteq> None"
proof -
  have "in_use (release p (Some a)) \<noteq> objects (release p (Some a))"
    using release_in_use [OF assms] assms(2) by (auto simp: in_use_def)
  then show ?thesis using alloc_fails_iff [OF release_in_use(1) [OF assms]] by simp
qed

end

section \<open>ObjectPool\<close>

record object_pool_state =
  mAllBlocks :: "nat list"
  mFreeList :: "nat list"
  mPoolSize :: nat

definition ObjectPool_new :: object_pool_state where
  "ObjectPool_new = \<lparr>mAllBlocks = [], mFreeList = [], mPoolSize = 0\<rparr>"

text \<open>\<open>Init\<close>: each \<open>new T()\<close> is pushed on both vectors; its name is its position.\<close>

fun ObjectPool_Init_loop :: "nat \<Rightarrow> object_pool_state \<Rightarrow> object_pool_state" where
  "ObjectPool_Init_loop 0 p = p"
| "ObjectPool_Init_loop (Suc k) p =
     (let obj = length (mAllBlocks p) in
      ObjectPool_Init_loop k (p\<lparr>mAllBlocks := mAllBlocks p @ [obj], mFreeList := mFreeList p @ [obj]\<rparr>))"

definition ObjectPool_Init :: "object_pool_state \<Rightarrow> nat \<Rightarrow> object_pool_state" where
  "ObjectPool_Init p poolSize = (ObjectPool_Init_loop poolSize p)\<lparr>mPoolSize := poolSize\<rparr>"

text \<open>\<open>back()\<close> and \<open>pop_back()\<close>: the top of the stack is the end of the vector.\<close>

definition ObjectPool_Alloc :: "object_pool_state \<Rightarrow> nat option \<times> object_pool_state" where
  "ObjectPool_Alloc p =
     (if mFreeList p = [] then (None, p)
      else (Some (last (mFreeList p)), p\<lparr>mFreeList := butlast (mFreeList p)\<rparr>))"

definition ObjectPool_Free :: "object_pool_state \<Rightarrow> nat option \<Rightarrow> object_pool_state" where
  "ObjectPool_Free p obj =
     (case obj of None \<Rightarrow> p | Some a \<Rightarrow> p\<lparr>mFreeList := mFreeList p @ [a]\<rparr>)"

definition ObjectPool_GetAvailableCount :: "object_pool_state \<Rightarrow> nat" where
  "ObjectPool_GetAvailableCount p = length (mFreeList p)"

definition ObjectPool_GetPoolSize :: "object_pool_state \<Rightarrow> nat" where
  "ObjectPool_GetPoolSize p = mPoolSize p"

definition ObjectPool_destroy :: "object_pool_state \<Rightarrow> object_pool_state" where
  "ObjectPool_destroy p = p\<lparr>mAllBlocks := [], mFreeList := []\<rparr>"

definition pool_ok :: "object_pool_state \<Rightarrow> bool" where
  "pool_ok p \<longleftrightarrow> distinct (mFreeList p) \<and> set (mFreeList p) \<subseteq> set (mAllBlocks p)"

lemma Init_loop_eq:
  "ObjectPool_Init_loop k p = p\<lparr>mAllBlocks := mAllBlocks p @ [length (mAllBlocks p)..<length (mAllBlocks p) + k],
     mFreeList := mFreeList p @ [length (mAllBlocks p)..<length (mAllBlocks p) + k]\<rparr>"
proof (induction k arbitrary: p)
  case (Suc k)
  have "[length (mAllBlocks p)..<length (mAllBlocks p) + Suc k] =
      length (mAllBlocks p) # [Suc (length (mAllBlocks p))..<Suc (length (mAllBlocks p)) + k]"
    by (simp add: upt_conv_Cons)
  then show ?case by (simp only: ObjectPool_Init_loop.simps Let_def Suc.IH) simp
qed simp

lemma ObjectPool_Init_eq:
  "ObjectPool_Init ObjectPool_new n = \<lparr>mAllBlocks = [0..<n], mFreeList = [0..<n], mPoolSize = n\<rparr>"
  by (simp add: ObjectPool_Init_def ObjectPool_new_def Init_loop_eq)

lemma pool_ok_Init: "pool_ok (ObjectPool_Init ObjectPool_new n)"
  by (simp add: ObjectPool_Init_eq pool_ok_def)

lemma distinct_butlast_last:
  "distinct xs \<Longrightarrow> xs \<noteq> [] \<Longrightarrow> set (butlast xs) = set xs - {last xs} \<and> distinct (butlast xs)"
  by (induction xs rule: rev_induct) auto

interpretation op: object_pool pool_ok "\<lambda>p. set (mAllBlocks p)" "\<lambda>p. set (mFreeList p)"
  ObjectPool_Alloc ObjectPool_Free
proof unfold_locales
  fix p assume h: "pool_ok p" "set (mFreeList p) \<noteq> {}"
  then show "\<exists>a p'. ObjectPool_Alloc p = (Some a, p') \<and> pool_ok p' \<and> a \<in> set (mFreeList p) \<and>
      set (mFreeList p') = set (mFreeList p) - {a} \<and> set (mAllBlocks p') = set (mAllBlocks p)"
    using distinct_butlast_last [of "mFreeList p"] by (auto simp: ObjectPool_Alloc_def pool_ok_def)
qed (auto simp: ObjectPool_Alloc_def ObjectPool_Free_def pool_ok_def)

text \<open>What is free and what is in use add up to the pool.\<close>

lemma pool_conservation:
  assumes "pool_ok p" and "distinct (mAllBlocks p)"
  shows "ObjectPool_GetAvailableCount p + card (op.in_use p) = length (mAllBlocks p)"
proof -
  have "length (mFreeList p) = card (set (mFreeList p))"
    using assms(1) by (simp add: pool_ok_def distinct_card)
  moreover have "card (set (mAllBlocks p) - set (mFreeList p)) + card (set (mFreeList p)) =
      card (set (mAllBlocks p))"
    using assms(1) card_mono [of "set (mAllBlocks p)" "set (mFreeList p)"]
    by (simp add: pool_ok_def card_Diff_subset)
  ultimately show ?thesis
    using assms(2) by (simp add: ObjectPool_GetAvailableCount_def op.in_use_def distinct_card)
qed

section \<open>ObjectMemoryPool\<close>

text \<open>
  A chunk is named by its number; \<open>next_of\<close> is the pointer in its first bytes, which whoever owns the
  chunk may overwrite. The constructor initialises \<open>poolSize\<close> with itself: its value is the
  argument \<open>indeterminate\<close>.
\<close>

record memory_pool =
  freeListHead :: "nat option"
  next_of :: "nat \<Rightarrow> nat option"
  MP_chunkSize :: nat
  MP_poolSize :: nat

fun link_chunks :: "(nat \<Rightarrow> nat option) \<Rightarrow> nat \<Rightarrow> nat \<Rightarrow> nat \<Rightarrow> nat \<times> (nat \<Rightarrow> nat option)" where
  "link_chunks m current i 0 = (current, m)"
| "link_chunks m current i (Suc k) = link_chunks (m(current := Some i)) i (i + 1) k"

definition MemoryPool_new :: "(nat \<Rightarrow> nat option) \<Rightarrow> nat \<Rightarrow> nat \<Rightarrow> memory_pool" where
  "MemoryPool_new memory indeterminate chunkSz =
     (let size = (if chunkSz < 8 then 8 else chunkSz);
          (current, m) = link_chunks memory 0 1 (indeterminate - 1)
      in \<lparr>freeListHead = Some 0, next_of = m(current := None), MP_chunkSize = size,
          MP_poolSize = indeterminate\<rparr>)"

definition MemoryPool_allocate :: "memory_pool \<Rightarrow> nat option \<times> memory_pool" where
  "MemoryPool_allocate p =
     (case freeListHead p of
        None \<Rightarrow> (None, p)
      | Some chunk \<Rightarrow> (Some chunk, p\<lparr>freeListHead := next_of p chunk\<rparr>))"

definition MemoryPool_deallocate :: "memory_pool \<Rightarrow> nat option \<Rightarrow> memory_pool" where
  "MemoryPool_deallocate p ptr =
     (case ptr of None \<Rightarrow> p | Some chunk \<Rightarrow> p\<lparr>freeListHead := Some chunk\<rparr>)"

text \<open>
  \<open>deallocate\<close> does not store the old head into the chunk: after it the free list continues wherever
  the chunk's first bytes point, and what was free before is lost.
\<close>

lemma deallocate_loses_list:
  assumes "MemoryPool_allocate p = (Some c, p1)"
  shows "MemoryPool_allocate (MemoryPool_deallocate (p1\<lparr>next_of := (next_of p1)(c := v)\<rparr>) (Some c)) =
    (Some c, p1\<lparr>next_of := (next_of p1)(c := v), freeListHead := v\<rparr>)"
  by (simp add: MemoryPool_allocate_def MemoryPool_deallocate_def)

end
