(* ===== verification/Packet.thy ===== *)
theory Packet
  imports Prelude
begin

text \<open>
  \<open>ErrorCode.h\<close> and \<open>Packet.h\<close>: the error codes and packet identifiers with their numbers, the packed
  packet structures as byte layouts, and the descriptor \<open>PacketInfo\<close> that travels from the packet
  assembly to the handlers. The structures the server sends are the constructors of \<open>packet\<close>;
  \<open>packet_bytes\<close> is their memory image. Requests are read field by field at their offsets.
\<close>

section \<open>Error codes\<close>

datatype ERROR_CODE =
    EC_NONE
  | USER_MGR_INVALID_USER_INDEX | USER_MGR_INVALID_USER_UNIQUEID
  | LOGIN_USER_ALREADY | LOGIN_USER_USED_ALL_OBJ | LOGIN_USER_INVALID_PW | LOGIN_USER_NOT_FOUND
  | NEW_ROOM_USED_ALL_OBJ | NEW_ROOM_FAIL_ENTER
  | ENTER_ROOM_NOT_FINDE_USER | ENTER_ROOM_INVALID_USER_STATUS | ENTER_ROOM_NOT_USED_STATUS
  | ENTER_ROOM_FULL_USER
  | ROOM_INVALID_INDEX | ROOM_NOT_USED | ROOM_TOO_MANY_PACKET
  | LEAVE_ROOM_INVALID_ROOM_INDEX
  | CHAT_ROOM_INVALID_ROOM_NUMBER

fun error_val :: "ERROR_CODE \<Rightarrow> UINT16" where
  "error_val EC_NONE = 0"
| "error_val USER_MGR_INVALID_USER_INDEX = 11"
| "error_val USER_MGR_INVALID_USER_UNIQUEID = 12"
| "error_val LOGIN_USER_ALREADY = 31"
| "error_val LOGIN_USER_USED_ALL_OBJ = 32"
| "error_val LOGIN_USER_INVALID_PW = 33"
| "error_val LOGIN_USER_NOT_FOUND = 34"
| "error_val NEW_ROOM_USED_ALL_OBJ = 41"
| "error_val NEW_ROOM_FAIL_ENTER = 42"
| "error_val ENTER_ROOM_NOT_FINDE_USER = 51"
| "error_val ENTER_ROOM_INVALID_USER_STATUS = 52"
| "error_val ENTER_ROOM_NOT_USED_STATUS = 53"
| "error_val ENTER_ROOM_FULL_USER = 54"
| "error_val ROOM_INVALID_INDEX = 61"
| "error_val ROOM_NOT_USED = 62"
| "error_val ROOM_TOO_MANY_PACKET = 63"
| "error_val LEAVE_ROOM_INVALID_ROOM_INDEX = 71"
| "error_val CHAT_ROOM_INVALID_ROOM_NUMBER = 81"

section \<open>Packet identifiers\<close>

datatype PACKET_ID =
    SYS_USER_CONNECT | SYS_USER_DISCONNECT | SYS_PING | SYS_PONG | SYS_END | DB_END
  | LOGIN_REQUEST | LOGIN_RESPONSE | ROOM_ENTER_REQUEST | ROOM_ENTER_RESPONSE
  | ROOM_LEAVE_REQUEST | ROOM_LEAVE_RESPONSE
  | ROOM_CHAT_REQUEST | ROOM_CHAT_RESPONSE | ROOM_CHAT_NOTIFY

fun packet_id_val :: "PACKET_ID \<Rightarrow> UINT16" where
  "packet_id_val SYS_USER_CONNECT = 11"
| "packet_id_val SYS_USER_DISCONNECT = 12"
| "packet_id_val SYS_PING = 21"
| "packet_id_val SYS_PONG = 22"
| "packet_id_val SYS_END = 30"
| "packet_id_val DB_END = 199"
| "packet_id_val LOGIN_REQUEST = 201"
| "packet_id_val LOGIN_RESPONSE = 202"
| "packet_id_val ROOM_ENTER_REQUEST = 206"
| "packet_id_val ROOM_ENTER_RESPONSE = 207"
| "packet_id_val ROOM_LEAVE_REQUEST = 215"
| "packet_id_val ROOM_LEAVE_RESPONSE = 216"
| "packet_id_val ROOM_CHAT_REQUEST = 221"
| "packet_id_val ROOM_CHAT_RESPONSE = 222"
| "packet_id_val ROOM_CHAT_NOTIFY = 223"

lemma packet_id_val_nonzero [simp]: "packet_id_val p \<noteq> 0"
  by (cases p) simp_all

section \<open>Where a packet's bytes live\<close>

text \<open>
  A handler receives a \<open>char*\<close>: null for the system packets, the temporary packet buffer of the user
  in a slot of the user pool for a received packet, or a heap block owned by a Redis task.
\<close>

datatype pkt_ptr = NullPtr | TempBuf nat | HeapBuf "byte list"

record PacketInfo =
  ClientIndex :: nat
  PacketId :: UINT32
  DataSize :: UINT32
  pDataPtr :: pkt_ptr

definition PacketInfo_default :: PacketInfo where
  "PacketInfo_default = \<lparr>ClientIndex = 0, PacketId = 0, DataSize = 0, pDataPtr = NullPtr\<rparr>"

section \<open>Packed structures\<close>

record PACKET_HEADER =
  PacketLength :: UINT16
  HeaderPacketId :: UINT16
  PacketType :: UINT8

definition PACKET_HEADER_LENGTH :: nat where
  "PACKET_HEADER_LENGTH = 5"

text \<open>The cast \<open>(PACKET_HEADER*)headerBuffer\<close>.\<close>

definition PACKET_HEADER_of :: "byte list \<Rightarrow> PACKET_HEADER result" where
  "PACKET_HEADER_of mem =
     bindr (get_UINT16 mem 0) (\<lambda>len. bindr (get_UINT16 mem 2) (\<lambda>pid. bindr (vec_at mem 4) (\<lambda>ty.
       Inr \<lparr>PacketLength = len, HeaderPacketId = pid, PacketType = ty\<rparr>)))"

definition header_bytes :: "nat \<Rightarrow> UINT16 \<Rightarrow> byte \<Rightarrow> byte list" where
  "header_bytes len pid ty = put_UINT16 (of_nat len) @ put_UINT16 pid @ [ty]"

definition MAX_USER_ID_LENGTH :: nat where "MAX_USER_ID_LENGTH = 32"
definition MAX_USER_PW_LENGTH :: nat where "MAX_USER_PW_LENGTH = 32"
definition MAX_CHAT_MSG :: nat where "MAX_CHAT_MSG = 256"

text \<open>The sizes of the request structures, and the offsets of their fields.\<close>

definition LOGIN_REQUEST_PACKET_SIZE :: nat where
  "LOGIN_REQUEST_PACKET_SIZE =
     PACKET_HEADER_LENGTH + (MAX_USER_ID_LENGTH + 1) + (MAX_USER_PW_LENGTH + 1)"

definition off_UserID :: nat where "off_UserID = PACKET_HEADER_LENGTH"
definition off_UserPW :: nat where "off_UserPW = PACKET_HEADER_LENGTH + (MAX_USER_ID_LENGTH + 1)"
definition off_RoomNumber :: nat where "off_RoomNumber = PACKET_HEADER_LENGTH"
definition off_Message :: nat where "off_Message = PACKET_HEADER_LENGTH"

definition ROOM_ENTER_REQUEST_RoomNumber :: "byte list \<Rightarrow> int result" where
  "ROOM_ENTER_REQUEST_RoomNumber mem = get_INT32 mem off_RoomNumber"

lemmas packet_consts = PACKET_HEADER_LENGTH_def MAX_USER_ID_LENGTH_def MAX_USER_PW_LENGTH_def
  MAX_CHAT_MSG_def LOGIN_REQUEST_PACKET_SIZE_def off_UserID_def off_UserPW_def
  off_RoomNumber_def off_Message_def

text \<open>A zero-filled character array of a structure with a string copied into it.\<close>

definition char_field :: "nat \<Rightarrow> byte list \<Rightarrow> byte list" where
  "char_field n s = s @ replicate (n - length s) 0"

lemma length_char_field [simp]: "length s \<le> n \<Longrightarrow> length (char_field n s) = n"
  by (simp add: char_field_def)

lemma char_field_nul:
  assumes "length s < n"
  shows "char_field n s = s @ 0 # replicate (n - length s - 1) 0"
proof -
  have "n - length s = Suc (n - length s - 1)" using assms by simp
  then show ?thesis unfolding char_field_def by (metis replicate_Suc)
qed

lemma c_str_char_field [memory_simps]:
  "0 \<notin> set s \<Longrightarrow> length s < n \<Longrightarrow> c_str (char_field n s @ post) = Inr s"
  by (simp add: char_field_nul c_str_append_nul)

lemma strn_char_field [memory_simps]:
  "0 \<notin> set s \<Longrightarrow> length s < n \<Longrightarrow> strn_field n (char_field n s @ post) = s"
  by (simp add: char_field_nul strn_field_nul)

text \<open>
  The packets the server sends. Responses carry a \<open>Result\<close>; the notification carries the two
  strings (at most 32 and 256 characters, without their NUL).
\<close>

datatype packet =
    LOGIN_RESPONSE_PACKET UINT16
  | ROOM_ENTER_RESPONSE_PACKET UINT16
  | ROOM_LEAVE_RESPONSE_PACKET UINT16
  | ROOM_CHAT_RESPONSE_PACKET UINT16
  | ROOM_CHAT_NOTIFY_PACKET "byte list" "byte list"
  | PING_PACKET

fun packet_id_of :: "packet \<Rightarrow> PACKET_ID" where
  "packet_id_of (LOGIN_RESPONSE_PACKET _) = LOGIN_RESPONSE"
| "packet_id_of (ROOM_ENTER_RESPONSE_PACKET _) = ROOM_ENTER_RESPONSE"
| "packet_id_of (ROOM_LEAVE_RESPONSE_PACKET _) = ROOM_LEAVE_RESPONSE"
| "packet_id_of (ROOM_CHAT_RESPONSE_PACKET _) = ROOM_CHAT_RESPONSE"
| "packet_id_of (ROOM_CHAT_NOTIFY_PACKET _ _) = ROOM_CHAT_NOTIFY"
| "packet_id_of PING_PACKET = SYS_PING"

fun packet_sizeof :: "packet \<Rightarrow> nat" where
  "packet_sizeof (ROOM_CHAT_NOTIFY_PACKET _ _) =
     PACKET_HEADER_LENGTH + (MAX_USER_ID_LENGTH + 1) + (MAX_CHAT_MSG + 1)"
| "packet_sizeof PING_PACKET = PACKET_HEADER_LENGTH"
| "packet_sizeof _ = PACKET_HEADER_LENGTH + 2"

fun packet_body :: "packet \<Rightarrow> byte list" where
  "packet_body (LOGIN_RESPONSE_PACKET res) = put_UINT16 res"
| "packet_body (ROOM_ENTER_RESPONSE_PACKET res) = put_UINT16 res"
| "packet_body (ROOM_LEAVE_RESPONSE_PACKET res) = put_UINT16 res"
| "packet_body (ROOM_CHAT_RESPONSE_PACKET res) = put_UINT16 res"
| "packet_body (ROOM_CHAT_NOTIFY_PACKET uid msg) =
     char_field (MAX_USER_ID_LENGTH + 1) uid @ char_field (MAX_CHAT_MSG + 1) msg"
| "packet_body PING_PACKET = []"

text \<open>The memory image; \<open>ty\<close> is the \<open>PacketType\<close> byte, which the handlers leave unset.\<close>

definition packet_bytes :: "byte \<Rightarrow> packet \<Rightarrow> byte list" where
  "packet_bytes ty p =
     header_bytes (packet_sizeof p) (packet_id_val (packet_id_of p)) ty @ packet_body p"

text \<open>The strings of a notification fit their fields.\<close>

fun packet_ok :: "packet \<Rightarrow> bool" where
  "packet_ok (ROOM_CHAT_NOTIFY_PACKET uid msg) \<longleftrightarrow>
     0 \<notin> set uid \<and> length uid \<le> MAX_USER_ID_LENGTH \<and> 0 \<notin> set msg \<and> length msg \<le> MAX_CHAT_MSG"
| "packet_ok _ \<longleftrightarrow> True"

lemma length_header_bytes [simp]: "length (header_bytes len pid ty) = 5"
  by (simp add: header_bytes_def)

lemma PACKET_HEADER_of_bytes:
  "len < 2 ^ 16 \<Longrightarrow> PACKET_HEADER_of (header_bytes len pid ty @ post) =
     Inr \<lparr>PacketLength = of_nat len, HeaderPacketId = pid, PacketType = ty\<rparr>"
proof -
  assume "len < 2 ^ 16"
  have "get_UINT16 ([] @ put_UINT16 (of_nat len) @ (put_UINT16 pid @ [ty] @ post)) 0 = Inr (of_nat len)"
    by (rule get_put_UINT16) simp
  moreover have "get_UINT16 (put_UINT16 (of_nat len) @ put_UINT16 pid @ ([ty] @ post)) 2 = Inr pid"
    by (rule get_put_UINT16) simp
  moreover have "vec_at ((put_UINT16 (of_nat len) @ put_UINT16 pid) @ (ty # post)) 4 = Inr ty"
    by (simp add: vec_at_def nth_append)
  ultimately show ?thesis by (simp add: PACKET_HEADER_of_def header_bytes_def)
qed

lemma packet_sizeof_small: "packet_sizeof p \<le> 295"
  by (cases p) (simp_all add: packet_consts)

lemma length_packet_bytes:
  "packet_ok p \<Longrightarrow> length (packet_bytes ty p) = packet_sizeof p"
  by (cases p) (simp_all add: packet_bytes_def packet_consts)

text \<open>
  The client's view: the header announces the size of the structure and its identifier, and the two
  strings of a notification are read back from their fields.
\<close>

lemma packet_bytes_header:
  "PACKET_HEADER_of (packet_bytes ty p) =
     Inr \<lparr>PacketLength = of_nat (packet_sizeof p),
          HeaderPacketId = packet_id_val (packet_id_of p), PacketType = ty\<rparr>"
  using packet_sizeof_small [of p] by (simp add: packet_bytes_def PACKET_HEADER_of_bytes)

lemma notify_bytes_strings:
  assumes "packet_ok (ROOM_CHAT_NOTIFY_PACKET uid msg)"
  shows "strn_field 33 (drop 5 (packet_bytes ty (ROOM_CHAT_NOTIFY_PACKET uid msg))) = uid"
    and "strn_field 257 (drop 38 (packet_bytes ty (ROOM_CHAT_NOTIFY_PACKET uid msg))) = msg"
proof -
  have u: "0 \<notin> set uid" "length uid < 33" and m: "0 \<notin> set msg" "length msg < 257"
    using assms by (simp_all add: packet_consts)
  have b: "packet_bytes ty (ROOM_CHAT_NOTIFY_PACKET uid msg) =
      header_bytes 295 223 ty @ char_field 33 uid @ char_field 257 msg @ []"
    by (simp add: packet_bytes_def packet_consts)
  show "strn_field 33 (drop 5 (packet_bytes ty (ROOM_CHAT_NOTIFY_PACKET uid msg))) = uid"
    unfolding b using u by (simp add: strn_char_field)
  show "strn_field 257 (drop 38 (packet_bytes ty (ROOM_CHAT_NOTIFY_PACKET uid msg))) = msg"
    unfolding b using u m strn_char_field [of msg 257 "[]"] by simp
qed

text \<open>The request structures the server reads, as a client lays them out.\<close>

definition login_request_bytes :: "byte \<Rightarrow> byte list \<Rightarrow> byte list \<Rightarrow> byte list" where
  "login_request_bytes ty uid pw =
     header_bytes 71 (packet_id_val LOGIN_REQUEST) ty @ char_field 33 uid @ char_field 33 pw"

definition room_enter_request_bytes :: "byte \<Rightarrow> int \<Rightarrow> byte list" where
  "room_enter_request_bytes ty room =
     header_bytes 9 (packet_id_val ROOM_ENTER_REQUEST) ty @ put_INT32 room"

definition ROOM_CHAT_REQUEST_PACKET :: "byte \<Rightarrow> byte list \<Rightarrow> byte list" where
  "ROOM_CHAT_REQUEST_PACKET ty msg =
     header_bytes 262 (packet_id_val ROOM_CHAT_REQUEST) ty @ char_field (MAX_CHAT_MSG + 1) msg"

lemma room_enter_request_RoomNumber:
  "- (2 ^ 31) \<le> room \<Longrightarrow> room < 2 ^ 31 \<Longrightarrow>
     ROOM_ENTER_REQUEST_RoomNumber (room_enter_request_bytes ty room @ post) = Inr room"
  by (simp add: ROOM_ENTER_REQUEST_RoomNumber_def room_enter_request_bytes_def packet_consts
      get_put_INT32)

lemma chat_request_Message:
  "0 \<notin> set msg \<Longrightarrow> length msg \<le> MAX_CHAT_MSG \<Longrightarrow>
     c_str (drop off_Message (ROOM_CHAT_REQUEST_PACKET ty msg @ post)) = Inr msg"
  by (simp add: ROOM_CHAT_REQUEST_PACKET_def packet_consts c_str_char_field)

section \<open>RawPacketData\<close>

text \<open>A packet copied to a heap block of its own; \<open>None\<close> is a null data pointer.\<close>

record RawPacketData =
  ClientSessionIndex :: nat
  RawDataSize :: nat
  pPacketData :: "byte list option"

definition RawPacketData_default :: RawPacketData where
  "RawPacketData_default = \<lparr>ClientSessionIndex = 0, RawDataSize = 0, pPacketData = None\<rparr>"

definition RawPacketData_Set :: "RawPacketData \<Rightarrow> nat \<Rightarrow> nat \<Rightarrow> byte list \<Rightarrow> RawPacketData result" where
  "RawPacketData_Set raw idx n data =
     bindr (mem_read data 0 n) (\<lambda>bs.
       Inr (raw\<lparr>ClientSessionIndex := idx, RawDataSize := n, pPacketData := Some bs\<rparr>))"

definition RawPacketData_Release :: "RawPacketData \<Rightarrow> RawPacketData" where
  "RawPacketData_Release raw = raw\<lparr>pPacketData := None\<rparr>"

end
