(* ===== verification/ClientSession.thy ===== *)
theory ClientSession
  imports ObjectPool Packet
begin

text \<open>
  \<open>ClientSession.h\<close> with the structures of \<open>Define.h\<close>: one connection slot of the network layer.
  Winsock and the kernel are the parameter \<open>winsock\<close>, the answers of the calls one operation makes;
  the calls themselves are logged in \<open>calls\<close>. A session's send queue holds blocks of the shared
  \<open>SendOverlappedEx\<close> pool, whose contents are in \<open>blocks\<close>. The last part shows that messages go out in
  order and one at a time, and what happens when a send fails.
\<close>

section \<open>The operating system\<close>

type_synonym SOCKET = "nat option"

datatype handle = NULL_HANDLE | INVALID_HANDLE_VALUE | Handle nat

text \<open>
  \<open>ws_recv\<close>, \<open>ws_send\<close>, \<open>ws_acceptex\<close>: the call succeeded or is pending; \<open>ws_context\<close>, \<open>ws_nodelay\<close>,
  \<open>ws_rcvbuf\<close>: \<open>setsockopt\<close> succeeded; \<open>ws_bind\<close>: what \<open>CreateIoCompletionPort\<close> returns (documented:
  \<open>NULL\<close> on failure); \<open>ws_socket\<close>: what \<open>WSASocket\<close> returns; the two clocks.
\<close>

record winsock =
  ws_recv :: bool
  ws_send :: bool
  ws_bind :: handle
  ws_context :: bool
  ws_socket :: SOCKET
  ws_acceptex :: bool
  ws_nodelay :: bool
  ws_rcvbuf :: bool
  ws_tick :: UINT64
  ws_seconds :: UINT64

datatype os_call =
    OS_shutdown nat SOCKET
  | OS_linger nat bool
  | OS_closesocket nat SOCKET
  | OS_CancelIoEx nat SOCKET
  | OS_WSARecv nat UINT32
  | OS_WSASend nat UINT32 "byte list"
  | OS_AcceptEx nat

datatype IOOperation = IO_RECV | IO_SEND | IO_ACCEPT

section \<open>State\<close>

definition SESSION_SOCKBUF :: nat where "SESSION_SOCKBUF = 1024"

record overlapped =
  m_wsaBuf_len :: nat
  m_eOperation :: IOOperation
  clientSessionIndex :: nat
  ovl_generation :: UINT32

record SendOverlappedEx =
  wsaBuf_len :: nat
  snd_operation :: IOOperation
  snd_generation :: UINT32
  snd_buffer :: "byte list"

record session =
  S_mIndex :: nat
  m_socketClient :: SOCKET
  m_stRecvOverlappedEx :: overlapped
  mAcceptContext :: overlapped
  mIsSending :: bool
  mSendPos :: UINT64
  S_mIOCPHandle :: handle
  mRecvBuf :: "byte list"
  mSendBuf :: "byte list"
  mSendDataqueue :: "nat list"
  mIsConnected :: bool
  mLatestClosedTimeSec :: UINT64
  S_mGeneration :: UINT32
  mLastActivityTime :: UINT64
  mLastPingTime :: UINT64

record net =
  send_pool :: object_pool_state
  blocks :: "nat \<Rightarrow> SendOverlappedEx"
  calls :: "os_call list"

definition overlapped_zero :: overlapped where
  "overlapped_zero = \<lparr>m_wsaBuf_len = 0, m_eOperation = IO_RECV, clientSessionIndex = 0, ovl_generation = 0\<rparr>"

text \<open>The constructor; \<open>memory\<close> is the uninitialised receive and send buffer, \<open>ctx\<close> the accept context.\<close>

definition ClientSession_new :: "(nat \<Rightarrow> byte) \<times> (nat \<Rightarrow> byte) \<Rightarrow> overlapped \<Rightarrow> session" where
  "ClientSession_new memory ctx =
     \<lparr>S_mIndex = 0, m_socketClient = None, m_stRecvOverlappedEx = overlapped_zero, mAcceptContext = ctx,
      mIsSending = False, mSendPos = 0, S_mIOCPHandle = INVALID_HANDLE_VALUE,
      mRecvBuf = map (fst memory) [0..<SESSION_SOCKBUF], mSendBuf = map (snd memory) [0..<SESSION_SOCKBUF],
      mSendDataqueue = [], mIsConnected = False, mLatestClosedTimeSec = 0, S_mGeneration = 0,
      mLastActivityTime = 0, mLastPingTime = 0\<rparr>"

definition ClientSession_Init :: "session \<Rightarrow> nat \<Rightarrow> handle \<Rightarrow> session" where
  "ClientSession_Init s index iocpHandle = s\<lparr>S_mIndex := index, S_mIOCPHandle := iocpHandle\<rparr>"

definition ClientSession_IsConnected :: "session \<Rightarrow> bool" where
  "ClientSession_IsConnected s = mIsConnected s"

definition ClientSession_GetGeneration :: "session \<Rightarrow> UINT32" where
  "ClientSession_GetGeneration s = S_mGeneration s"

definition log_call :: "net \<Rightarrow> os_call \<Rightarrow> net" where
  "log_call net c = net\<lparr>calls := calls net @ [c]\<rparr>"

section \<open>Connecting and closing\<close>

definition ClientSession_UpdateActivity :: "winsock \<Rightarrow> session \<Rightarrow> session" where
  "ClientSession_UpdateActivity ws s = s\<lparr>mLastActivityTime := ws_tick ws, mLastPingTime := 0\<rparr>"

definition ClientSession_Closed :: "winsock \<Rightarrow> net \<Rightarrow> session \<Rightarrow> bool \<Rightarrow> net \<times> session" where
  "ClientSession_Closed ws net s forced =
     (log_call (log_call (log_call net (OS_shutdown (S_mIndex s) (m_socketClient s)))
        (OS_linger (S_mIndex s) forced)) (OS_closesocket (S_mIndex s) (m_socketClient s)),
      s\<lparr>mIsConnected := False, mLatestClosedTimeSec := ws_seconds ws, m_socketClient := None\<rparr>)"

definition ClientSession_BindRecv :: "winsock \<Rightarrow> net \<Rightarrow> session \<Rightarrow> bool \<times> net \<times> session" where
  "ClientSession_BindRecv ws net s =
     (let s1 = s\<lparr>m_stRecvOverlappedEx := (m_stRecvOverlappedEx s)\<lparr>m_wsaBuf_len := SESSION_SOCKBUF,
            m_eOperation := IO_RECV, ovl_generation := S_mGeneration s\<rparr>\<rparr>;
          net1 = log_call net (OS_WSARecv (S_mIndex s1) (S_mGeneration s1))
      in if \<not> ws_recv ws
         then (let (net2, s2) = ClientSession_Closed ws net1 s1 True in (False, net2, s2))
         else (True, net1, s1))"

definition ClientSession_BindIOCompletionPort :: "winsock \<Rightarrow> bool" where
  "ClientSession_BindIOCompletionPort ws \<longleftrightarrow> ws_bind ws \<noteq> INVALID_HANDLE_VALUE"

definition ClientSession_OnConnect ::
  "winsock \<Rightarrow> net \<Rightarrow> session \<Rightarrow> SOCKET \<Rightarrow> bool \<times> net \<times> session" where
  "ClientSession_OnConnect ws net s socket =
     (let s1 = s\<lparr>m_socketClient := socket, mIsConnected := True, S_mGeneration := S_mGeneration s + 1\<rparr>;
          s2 = ClientSession_UpdateActivity ws s1
      in if \<not> ClientSession_BindIOCompletionPort ws then (False, net, s2)
         else ClientSession_BindRecv ws net s2)"

definition ClientSession_AcceptCompletion :: "winsock \<Rightarrow> net \<Rightarrow> session \<Rightarrow> bool \<times> net \<times> session" where
  "ClientSession_AcceptCompletion ws net s =
     (if \<not> ws_context ws then (False, net, s)
      else (let (ok, net', s') = ClientSession_OnConnect ws net s (m_socketClient s)
            in if \<not> ok then (False, net', s') else (True, net', s')))"

text \<open>\<open>UINT32_MAX\<close> marks a slot that waits for a connection.\<close>

definition ClientSession_PostImmediateAccept :: "winsock \<Rightarrow> net \<Rightarrow> session \<Rightarrow> bool \<times> net \<times> session" where
  "ClientSession_PostImmediateAccept ws net s =
     (let s1 = s\<lparr>mLatestClosedTimeSec := 2 ^ 32 - 1, m_socketClient := ws_socket ws\<rparr> in
      if ws_socket ws = None then (False, net, s1)
      else
        (let s2 = s1\<lparr>mAcceptContext := \<lparr>m_wsaBuf_len = 0, m_eOperation = IO_ACCEPT,
               clientSessionIndex = S_mIndex s1, ovl_generation = 0\<rparr>\<rparr>
         in if \<not> ws_acceptex ws then (False, net, s2)
            else (True, log_call net (OS_AcceptEx (S_mIndex s2)), s2)))"

definition ClientSession_PostAccept :: "winsock \<Rightarrow> net \<Rightarrow> session \<Rightarrow> UINT64 \<Rightarrow> bool \<times> net \<times> session" where
  "ClientSession_PostAccept ws net s curTimeSec = ClientSession_PostImmediateAccept ws net s"

definition ClientSession_SetSockOption :: "winsock \<Rightarrow> bool" where
  "ClientSession_SetSockOption ws = (if \<not> ws_nodelay ws then False else if \<not> ws_rcvbuf ws then False else True)"

definition ClientSession_DisconnectAsync :: "net \<Rightarrow> session \<Rightarrow> net" where
  "ClientSession_DisconnectAsync net s =
     (if m_socketClient s \<noteq> None then log_call net (OS_shutdown (S_mIndex s) (m_socketClient s)) else net)"

section \<open>Sending\<close>

definition payload :: "net \<Rightarrow> nat \<Rightarrow> byte list" where
  "payload net a = take (wsaBuf_len (blocks net a)) (snd_buffer (blocks net a))"

definition ClientSession_SendIO :: "winsock \<Rightarrow> net \<Rightarrow> session \<Rightarrow> (bool \<times> net) result" where
  "ClientSession_SendIO ws net s =
     (case mSendDataqueue s of
        [] \<Rightarrow> Inl EmptyContainer
      | a # _ \<Rightarrow>
          if \<not> ws_send ws then Inr (False, net)
          else Inr (True, log_call net (OS_WSASend (S_mIndex s) (snd_generation (blocks net a)) (payload net a))))"

definition ClientSession_SendMsg ::
  "winsock \<Rightarrow> net \<Rightarrow> session \<Rightarrow> nat \<Rightarrow> byte list \<Rightarrow> (bool \<times> net \<times> session) result" where
  "ClientSession_SendMsg ws net s dataSize pMsg =
     (case ObjectPool_Alloc (send_pool net) of
        (None, _) \<Rightarrow> Inr (False, net, s)
      | (Some a, pool') \<Rightarrow>
          bindr (mem_read pMsg 0 dataSize) (\<lambda>bs.
          bindr (mem_write (snd_buffer (blocks net a)) 0 bs) (\<lambda>buf.
            let net1 = net\<lparr>send_pool := pool', blocks := (blocks net)(a :=
                  \<lparr>wsaBuf_len = dataSize, snd_operation = IO_SEND, snd_generation = S_mGeneration s,
                   snd_buffer = buf\<rparr>)\<rparr>;
                s1 = s\<lparr>mSendDataqueue := mSendDataqueue s @ [a]\<rparr>
            in if length (mSendDataqueue s1) = 1
               then bindr (ClientSession_SendIO ws net1 s1) (\<lambda>(_, net2). Inr (True, net2, s1))
               else Inr (True, net1, s1))))"

definition ClientSession_SendComplete :: "winsock \<Rightarrow> net \<Rightarrow> session \<Rightarrow> nat \<Rightarrow> (net \<times> session) result" where
  "ClientSession_SendComplete ws net s dataSize =
     (case mSendDataqueue s of
        [] \<Rightarrow> Inl EmptyContainer
      | a # q \<Rightarrow>
          (let net1 = net\<lparr>send_pool := ObjectPool_Free (send_pool net) (Some a)\<rparr>;
               s1 = s\<lparr>mSendDataqueue := q\<rparr>
           in if q \<noteq> [] then bindr (ClientSession_SendIO ws net1 s1) (\<lambda>(_, net2). Inr (net2, s1))
              else Inr (net1, s1)))"

text \<open>The loop of \<open>Clear\<close> returns every queued block to the pool.\<close>

fun free_queue :: "object_pool_state \<Rightarrow> nat list \<Rightarrow> object_pool_state" where
  "free_queue p [] = p"
| "free_queue p (a # q) = free_queue (ObjectPool_Free p (Some a)) q"

definition ClientSession_Clear :: "net \<Rightarrow> session \<Rightarrow> net \<times> session" where
  "ClientSession_Clear net s =
     (net\<lparr>send_pool := free_queue (send_pool net) (mSendDataqueue s)\<rparr>,
      s\<lparr>mSendDataqueue := [], mSendPos := 0, mIsSending := False,
        mRecvBuf := replicate SESSION_SOCKBUF 0, mSendBuf := replicate SESSION_SOCKBUF 0\<rparr>)"

section \<open>The send queue\<close>

text \<open>
  The queued blocks are distinct and in use, and every block of the pool has room for a full message.
\<close>

definition net_ok :: "net \<Rightarrow> bool" where
  "net_ok net \<longleftrightarrow> pool_ok (send_pool net) \<and>
     (\<forall>a \<in> set (mAllBlocks (send_pool net)). length (snd_buffer (blocks net a)) = SESSION_SOCKBUF)"

definition queue_ok :: "net \<Rightarrow> session \<Rightarrow> bool" where
  "queue_ok net s \<longleftrightarrow> distinct (mSendDataqueue s) \<and> set (mSendDataqueue s) \<subseteq> op.in_use (send_pool net)"

lemma log_call_fields [simp]:
  "send_pool (log_call net c) = send_pool net" "blocks (log_call net c) = blocks net"
  "calls (log_call net c) = calls net @ [c]"
  by (simp_all add: log_call_def)

lemma net_ok_log [simp]: "net_ok (log_call net c) = net_ok net"
  by (simp add: net_ok_def)

lemma queue_ok_log [simp]: "queue_ok (log_call net c) s = queue_ok net s"
  by (simp add: queue_ok_def)

lemma payload_log [simp]: "payload (log_call net c) a = payload net a"
  by (simp add: payload_def)

definition wsasends :: "net \<Rightarrow> byte list list" where
  "wsasends net = map (\<lambda>c. case c of OS_WSASend _ _ bs \<Rightarrow> bs | _ \<Rightarrow> [])
     (filter (\<lambda>c. case c of OS_WSASend _ _ _ \<Rightarrow> True | _ \<Rightarrow> False) (calls net))"

lemma wsasends_log [simp]:
  "wsasends (log_call net (OS_WSASend i g bs)) = wsasends net @ [bs]"
  by (simp add: wsasends_def)

text \<open>
  \<open>SendMsg\<close> on a message that fits: it is refused only when the pool is empty; otherwise the message
  is queued in a block of its own, and handed to the kernel at once exactly when the queue was empty.
\<close>

lemma SendMsg_no_block:
  "mFreeList (send_pool net) = [] \<Longrightarrow> ClientSession_SendMsg ws net s n msg = Inr (False, net, s)"
  by (simp add: ClientSession_SendMsg_def ObjectPool_Alloc_def)

lemma SendMsg_queued:
  assumes "net_ok net" and "queue_ok net s" and "mFreeList (send_pool net) \<noteq> []"
    and "length msg = n" and "n \<le> SESSION_SOCKBUF"
  shows "\<exists>a net' s'. ClientSession_SendMsg ws net s n msg = Inr (True, net', s') \<and>
    net_ok net' \<and> queue_ok net' s' \<and> s' = s\<lparr>mSendDataqueue := mSendDataqueue s @ [a]\<rparr> \<and>
    op.in_use (send_pool net') = insert a (op.in_use (send_pool net)) \<and>
    a \<notin> op.in_use (send_pool net) \<and>
    mAllBlocks (send_pool net') = mAllBlocks (send_pool net) \<and>
    map (payload net') (mSendDataqueue s') = map (payload net) (mSendDataqueue s) @ [msg] \<and>
    wsasends net' = (if mSendDataqueue s = [] \<and> ws_send ws then wsasends net @ [msg] else wsasends net)"
proof -
  let ?p = "send_pool net"
  have ok: "pool_ok ?p" using assms(1) by (simp add: net_ok_def)
  obtain a p' where al: "ObjectPool_Alloc ?p = (Some a, p')"
    using assms(3) by (simp add: ObjectPool_Alloc_def)
  note fresh = op.alloc_fresh [OF ok al]
  have all: "mAllBlocks p' = mAllBlocks ?p" using al by (auto simp: ObjectPool_Alloc_def split: if_splits)
  have buf: "length (snd_buffer (blocks net a)) = SESSION_SOCKBUF"
    using assms(1) fresh(2) by (simp add: net_ok_def)
  let ?b = "msg @ drop n (snd_buffer (blocks net a))"
  let ?blk = "\<lparr>wsaBuf_len = n, snd_operation = IO_SEND, snd_generation = S_mGeneration s, snd_buffer = ?b\<rparr>"
  let ?net1 = "net\<lparr>send_pool := p', blocks := (blocks net)(a := ?blk)\<rparr>"
  let ?s1 = "s\<lparr>mSendDataqueue := mSendDataqueue s @ [a]\<rparr>"
  have w: "mem_write (snd_buffer (blocks net a)) 0 msg = Inr ?b"
    using assms(4,5) buf by (simp add: mem_write_def)
  have r: "mem_read msg 0 n = Inr msg" using assms(4) by simp
  have n1: "net_ok ?net1"
    using assms(1,4,5) fresh(1) all buf by (auto simp: net_ok_def)
  have notin: "a \<notin> set (mSendDataqueue s)" using assms(2) fresh(3) by (auto simp: queue_ok_def)
  have q1: "queue_ok ?net1 ?s1"
    using assms(2) notin fresh(4) by (auto simp: queue_ok_def)
  have pl: "map (payload ?net1) (mSendDataqueue ?s1) = map (payload net) (mSendDataqueue s) @ [msg]"
    using notin assms(4) by (auto simp: payload_def)
  have pa: "payload ?net1 a = msg" using assms(4) by (simp add: payload_def)
  show ?thesis
  proof (cases "mSendDataqueue s = []")
    case False
    then have "ClientSession_SendMsg ws net s n msg = Inr (True, ?net1, ?s1)"
      using al r w by (simp add: ClientSession_SendMsg_def)
    then show ?thesis
      using False n1 q1 fresh(3,4) all pl by (intro exI [of _ a]) (simp add: wsasends_def)
  next
    case True
    let ?net2 = "if ws_send ws then log_call ?net1 (OS_WSASend (S_mIndex s) (S_mGeneration s) msg) else ?net1"
    have "ClientSession_SendMsg ws net s n msg = Inr (True, ?net2, ?s1)"
      using True al r w pa by (simp add: ClientSession_SendMsg_def ClientSession_SendIO_def)
    moreover have "wsasends ?net2 = (if ws_send ws then wsasends net @ [msg] else wsasends net)"
      by (simp add: wsasends_def log_call_def)
    ultimately show ?thesis
      using True n1 q1 fresh(3,4) all pl by (intro exI [of _ a]) auto
  qed
qed

lemma SendComplete_next:
  assumes "net_ok net" and "queue_ok net s" and "mSendDataqueue s = a # q"
  shows "\<exists>net'. ClientSession_SendComplete ws net s n = Inr (net', s\<lparr>mSendDataqueue := q\<rparr>) \<and>
    net_ok net' \<and> queue_ok net' (s\<lparr>mSendDataqueue := q\<rparr>) \<and>
    op.in_use (send_pool net') = op.in_use (send_pool net) - {a} \<and>
    mAllBlocks (send_pool net') = mAllBlocks (send_pool net) \<and> payload net' = payload net \<and>
    wsasends net' = (if q \<noteq> [] \<and> ws_send ws then wsasends net @ [payload net (hd q)] else wsasends net)"
proof -
  let ?p' = "ObjectPool_Free (send_pool net) (Some a)"
  let ?net1 = "net\<lparr>send_pool := ?p'\<rparr>"
  have ok: "pool_ok (send_pool net)" using assms(1) by (simp add: net_ok_def)
  have a: "a \<in> op.in_use (send_pool net)" using assms(2,3) by (simp add: queue_ok_def)
  note rel = op.release_in_use [OF ok a]
  have n1: "net_ok ?net1" using assms(1) rel(1) by (simp add: net_ok_def ObjectPool_Free_def)
  have q1: "queue_ok ?net1 (s\<lparr>mSendDataqueue := q\<rparr>)"
    using assms(2,3) rel(2) by (auto simp: queue_ok_def)
  have pl: "payload ?net1 = payload net" by (simp add: payload_def fun_eq_iff)
  have all: "mAllBlocks ?p' = mAllBlocks (send_pool net)" by (simp add: ObjectPool_Free_def)
  have ws: "wsasends ?net1 = wsasends net" by (simp add: wsasends_def)
  show ?thesis
  proof (cases q)
    case Nil
    then have "ClientSession_SendComplete ws net s n = Inr (?net1, s\<lparr>mSendDataqueue := q\<rparr>)"
      using assms(3) by (simp add: ClientSession_SendComplete_def Let_def)
    then show ?thesis using n1 q1 rel(2) pl all ws Nil by auto
  next
    case (Cons b r)
    let ?net2 = "if ws_send ws then log_call ?net1 (OS_WSASend (S_mIndex s) (snd_generation (blocks net b)) (payload net b))
      else ?net1"
    have "ClientSession_SendComplete ws net s n = Inr (?net2, s\<lparr>mSendDataqueue := q\<rparr>)"
      using assms(3) Cons pl by (simp add: ClientSession_SendComplete_def ClientSession_SendIO_def Let_def)
    then show ?thesis using n1 q1 rel(2) pl all ws Cons by (auto simp: fun_eq_iff)
  qed
qed

text \<open>
  A connection whose sends succeed, with two ghost components: the messages accepted so far and the
  number of completions. The kernel completes only what it was given.
\<close>

inductive session_run :: "(nat \<Rightarrow> winsock) \<Rightarrow> net \<Rightarrow> session \<Rightarrow> byte list list \<Rightarrow> nat \<Rightarrow> bool"
  for ws where
  run_init: "net_ok net \<Longrightarrow> mSendDataqueue s = [] \<Longrightarrow> wsasends net = [] \<Longrightarrow> session_run ws net s [] 0"
| run_send: "session_run ws net s msgs c \<Longrightarrow> length msg = n \<Longrightarrow> n \<le> SESSION_SOCKBUF \<Longrightarrow>
    ClientSession_SendMsg (ws k) net s n msg = Inr (True, net', s') \<Longrightarrow> ws_send (ws k) \<Longrightarrow>
    session_run ws net' s' (msgs @ [msg]) c"
| run_refused: "session_run ws net s msgs c \<Longrightarrow>
    ClientSession_SendMsg (ws k) net s n msg = Inr (False, net', s') \<Longrightarrow> session_run ws net' s' msgs c"
| run_complete: "session_run ws net s msgs c \<Longrightarrow> mSendDataqueue s \<noteq> [] \<Longrightarrow>
    ClientSession_SendComplete (ws k) net s n = Inr (net', s') \<Longrightarrow> ws_send (ws k) \<Longrightarrow>
    session_run ws net' s' msgs (c + 1)"

inductive_cases session_runE: "session_run ws net s msgs c"

lemma SendMsg_refused:
  "ClientSession_SendMsg ws net s n msg = Inr (False, net', s') \<Longrightarrow>
     mFreeList (send_pool net) = [] \<and> net' = net \<and> s' = s"
  by (auto simp: ClientSession_SendMsg_def ObjectPool_Alloc_def result_simps Let_def split: if_splits option.splits)

lemma session_run_inv:
  "session_run ws net s msgs c \<Longrightarrow> net_ok net \<and> queue_ok net s \<and> c \<le> length msgs \<and>
     map (payload net) (mSendDataqueue s) = drop c msgs \<and>
     wsasends net = take (c + (if mSendDataqueue s = [] then 0 else 1)) msgs"
proof (induction rule: session_run.induct)
  case (run_init net s)
  then show ?case by (simp add: queue_ok_def)
next
  case (run_send net s msgs c msg n k net' s')
  then have ok: "net_ok net" "queue_ok net s" "c \<le> length msgs"
    "map (payload net) (mSendDataqueue s) = drop c msgs"
    "wsasends net = take (c + (if mSendDataqueue s = [] then 0 else 1)) msgs" by simp_all
  have free: "mFreeList (send_pool net) \<noteq> []"
    using run_send.hyps(4) SendMsg_no_block by fastforce
  from SendMsg_queued [OF ok(1,2) free run_send.hyps(2,3), of "ws k"] run_send.hyps(4)
  have s': "net_ok net'" "queue_ok net' s'" "mSendDataqueue s' \<noteq> []"
    "map (payload net') (mSendDataqueue s') = map (payload net) (mSendDataqueue s) @ [msg]"
    "wsasends net' = (if mSendDataqueue s = [] then wsasends net @ [msg] else wsasends net)"
    using run_send.hyps(5) by auto
  show ?case
  proof (cases "mSendDataqueue s = []")
    case True
    then have "c = length msgs" using ok(3,4) by simp
    then show ?thesis using s' ok True by simp
  next
    case False
    then have "c < length msgs" using ok(3,4) by (cases "c = length msgs") auto
    then show ?thesis using s' ok False by simp
  qed
next
  case (run_refused net s msgs c k n msg net' s')
  then show ?case using SendMsg_refused by blast
next
  case (run_complete net s msgs c k n net' s')
  then have ok: "net_ok net" "queue_ok net s" "c \<le> length msgs"
    "map (payload net) (mSendDataqueue s) = drop c msgs" "wsasends net = take (c + 1) msgs" by simp_all
  obtain a q where q: "mSendDataqueue s = a # q" using run_complete.hyps(2) by (cases "mSendDataqueue s") auto
  from SendComplete_next [OF ok(1,2) q, of "ws k" n] run_complete.hyps(3,4)
  have s': "s' = s\<lparr>mSendDataqueue := q\<rparr>" "net_ok net'" "queue_ok net' s'" "payload net' = payload net"
    "wsasends net' = (if q \<noteq> [] then wsasends net @ [payload net (hd q)] else wsasends net)"
    by auto
  have c: "c < length msgs" using ok(4) q by (cases "c < length msgs") auto
  have dr: "map (payload net) q = drop (c + 1) msgs"
    using ok(4) q c by (simp add: Cons_nth_drop_Suc [symmetric])
  show ?case
  proof (cases q)
    case Nil
    then show ?thesis using s' c dr ok(5) by simp
  next
    case (Cons b r)
    then have c1: "c + 1 < length msgs" using dr by (cases "c + 1 < length msgs") auto
    have "payload net b = msgs ! (c + 1)"
      using dr Cons c1 by (simp add: Cons_nth_drop_Suc [symmetric])
    then show ?thesis using s' c1 dr ok(5) Cons by (simp add: take_Suc_conv_app_nth)
  qed
qed

text \<open>A failed \<open>WSASend\<close> leaves the message at the head of the queue; nothing is sent after it.\<close>

lemma SendMsg_stuck:
  assumes "net_ok net" and "queue_ok net s" and "mSendDataqueue s \<noteq> []"
    and "mFreeList (send_pool net) \<noteq> []" and "length msg = n" and "n \<le> SESSION_SOCKBUF"
  shows "\<exists>net' s'. ClientSession_SendMsg ws net s n msg = Inr (True, net', s') \<and>
    net_ok net' \<and> queue_ok net' s' \<and> mSendDataqueue s' \<noteq> [] \<and> wsasends net' = wsasends net"
  using SendMsg_queued [OF assms(1,2,4-6), of ws] assms(3) by auto

text \<open>Messages handed to \<open>SendMsg\<close> one after the other.\<close>

fun sends :: "(nat \<Rightarrow> winsock) \<Rightarrow> net \<Rightarrow> session \<Rightarrow> byte list list \<Rightarrow> (net \<times> session) result" where
  "sends ws net s [] = Inr (net, s)"
| "sends ws net s (m # ms) = bindr (ClientSession_SendMsg (ws (length ms)) net s (length m) m)
     (\<lambda>(_, net', s'). sends ws net' s' ms)"

lemma sends_stuck:
  assumes "net_ok net" and "queue_ok net s" and "mSendDataqueue s \<noteq> []"
    and "list_all (\<lambda>m. length m \<le> SESSION_SOCKBUF) ms"
  shows "\<exists>net' s'. sends ws net s ms = Inr (net', s') \<and> wsasends net' = wsasends net"
  using assms
proof (induction ms arbitrary: net s)
  case (Cons m ms)
  show ?case
  proof (cases "mFreeList (send_pool net) = []")
    case True
    then show ?thesis using SendMsg_no_block [OF True, of "ws (length ms)" s] Cons by simp
  next
    case False
    then obtain net1 s1 where m: "ClientSession_SendMsg (ws (length ms)) net s (length m) m = Inr (True, net1, s1)"
      "net_ok net1" "queue_ok net1 s1" "mSendDataqueue s1 \<noteq> []" "wsasends net1 = wsasends net"
      using SendMsg_stuck [OF Cons.prems(1-3) False refl, of m "ws (length ms)"] Cons.prems(4) by auto
    then show ?thesis using Cons.IH [OF m(2-4)] Cons.prems(4) by simp
  qed
qed simp

lemma failed_send_stuck:
  assumes "net_ok net" and "queue_ok net s" and "mSendDataqueue s = []" and "mFreeList (send_pool net) \<noteq> []"
    and "length msg \<le> SESSION_SOCKBUF" and "\<not> ws_send ws"
    and "list_all (\<lambda>m. length m \<le> SESSION_SOCKBUF) ms"
  shows "\<exists>net1 s1 net2 s2. ClientSession_SendMsg ws net s (length msg) msg = Inr (True, net1, s1) \<and>
    sends ws' net1 s1 ms = Inr (net2, s2) \<and> wsasends net2 = wsasends net"
proof -
  obtain net1 s1 where f: "ClientSession_SendMsg ws net s (length msg) msg = Inr (True, net1, s1)"
    "net_ok net1" "queue_ok net1 s1" "mSendDataqueue s1 \<noteq> []" "wsasends net1 = wsasends net"
    using SendMsg_queued [OF assms(1,2,4) refl assms(5), of ws] assms(3,6) by auto
  then show ?thesis using sends_stuck [OF f(2-4) assms(7), of ws'] by auto
qed

text \<open>
  \<open>Closed\<close> and \<open>OnConnect\<close> leave the send queue alone: a block that was waiting when the connection ended
  waits in front of everything the next connection of the slot wants to send.
\<close>

lemma reconnect_keeps_queue:
  assumes "ClientSession_Closed ws0 net s f = (net1, s1)"
    and "ClientSession_PostImmediateAccept ws1 net1 s1 = (True, net2, s2)"
    and "ClientSession_AcceptCompletion ws2 net2 s2 = (True, net3, s3)"
  shows "mSendDataqueue s3 = mSendDataqueue s" and "S_mGeneration s3 = S_mGeneration s + 1"
    and "send_pool net3 = send_pool net" and "blocks net3 = blocks net" and "wsasends net3 = wsasends net"
  using assms
  by (auto simp: ClientSession_Closed_def ClientSession_PostImmediateAccept_def ClientSession_AcceptCompletion_def
      ClientSession_OnConnect_def ClientSession_UpdateActivity_def ClientSession_BindRecv_def Let_def
      wsasends_def log_call_def split: if_splits)

lemma stale_queue_blocks:
  assumes "net_ok net" and "queue_ok net s" and "mSendDataqueue s \<noteq> []"
    and "ClientSession_Closed ws0 net s f = (net1, s1)"
    and "ClientSession_PostImmediateAccept ws1 net1 s1 = (True, net2, s2)"
    and "ClientSession_AcceptCompletion ws2 net2 s2 = (True, net3, s3)"
    and "list_all (\<lambda>m. length m \<le> SESSION_SOCKBUF) ms"
  shows "\<exists>net4 s4. sends ws' net3 s3 ms = Inr (net4, s4) \<and> wsasends net4 = wsasends net"
proof -
  note r = reconnect_keeps_queue [OF assms(4-6)]
  have "net_ok net3" "queue_ok net3 s3" "mSendDataqueue s3 \<noteq> []"
    using assms(1-3) r by (simp_all add: net_ok_def queue_ok_def)
  then show ?thesis using sends_stuck [OF _ _ _ assms(7), of net3 s3 ws'] r(5) by simp
qed

end
