(* ===== verification/IOCompletionPort.thy ===== *)
theory IOCompletionPort
  imports ClientSession
begin

text \<open>
  \<open>IOCP.h\<close>: the network layer. A \<open>ClientSession*\<close> is the index in \<open>mClientInfos\<close>. \<open>posted\<close> is the
  kernel's side: the slots whose \<open>AcceptEx\<close> is pending, in the order they were posted. The virtual
  methods \<open>OnConnect\<close>, \<open>OnClose\<close> and \<open>OnReceive\<close> are logged in \<open>app_events\<close>; the theory \<open>ChatServer\<close>
  gives them their meaning. Each definition takes the answers of the calls it makes as a \<open>winsock\<close>.
\<close>

section \<open>State\<close>

datatype app_event = Ev_Connect nat | Ev_Close nat | Ev_Receive nat "byte list"

record iocp =
  mListenSocket :: SOCKET
  mClientCnt :: int
  mIOWorkerThreads :: nat
  mIOCPHandle :: handle
  mIsWorkerRun :: bool
  MaxIOWorkerThreadCount :: nat
  mClientInfos :: "session list"
  mNet :: net
  mFreeSessionList :: "nat list"
  mIsTimeoutRun :: bool
  app_events :: "app_event list"
  posted :: "nat list"

definition MAX_WORKERTHREAD :: nat where "MAX_WORKERTHREAD = 4"
definition MAX_PENDING_ACCEPT :: nat where "MAX_PENDING_ACCEPT = 100"
definition UINT32_MAX :: nat where "UINT32_MAX = 2 ^ 32 - 1"

definition IOCompletionPort_new :: "(nat \<Rightarrow> SendOverlappedEx) \<Rightarrow> iocp" where
  "IOCompletionPort_new mem =
     \<lparr>mListenSocket = None, mClientCnt = 0, mIOWorkerThreads = 0, mIOCPHandle = INVALID_HANDLE_VALUE,
      mIsWorkerRun = True, MaxIOWorkerThreadCount = 0, mClientInfos = [],
      mNet = \<lparr>send_pool = ObjectPool_new, blocks = mem, calls = []\<rparr>, mFreeSessionList = [],
      mIsTimeoutRun = False, app_events = [], posted = []\<rparr>"

definition IOCP_GetClientInfo :: "iocp \<Rightarrow> nat \<Rightarrow> session result" where
  "IOCP_GetClientInfo io i = vec_at (mClientInfos io) i"

definition put_session :: "iocp \<Rightarrow> nat \<Rightarrow> net \<Rightarrow> session \<Rightarrow> iocp" where
  "put_session io i net s = io\<lparr>mClientInfos := (mClientInfos io)[i := s], mNet := net\<rparr>"

section \<open>Start-up\<close>

definition IOCP_Init :: "iocp \<Rightarrow> bool \<Rightarrow> SOCKET \<Rightarrow> nat \<Rightarrow> bool \<times> iocp" where
  "IOCP_Init io startup_ok listen_socket maxThreads =
     (if \<not> startup_ok then (False, io)
      else let io1 = io\<lparr>mListenSocket := listen_socket\<rparr> in
        if listen_socket = None then (False, io1)
        else (True, io1\<lparr>MaxIOWorkerThreadCount := maxThreads\<rparr>))"

definition IOCP_BindandListen :: "iocp \<Rightarrow> bool \<Rightarrow> bool \<Rightarrow> handle \<Rightarrow> handle \<Rightarrow> bool \<times> iocp" where
  "IOCP_BindandListen io bind_ok listen_ok port_handle listen_handle =
     (if \<not> bind_ok then (False, io)
      else if \<not> listen_ok then (False, io)
      else let io1 = io\<lparr>mIOCPHandle := port_handle\<rparr> in
        if port_handle = NULL_HANDLE then (False, io1)
        else if listen_handle = NULL_HANDLE then (False, io1)
        else (True, io1))"

text \<open>The two loops of \<open>CreateClient\<close>: the sessions, and the free list from the last index down.\<close>

definition IOCP_CreateClient ::
  "(nat \<Rightarrow> ((nat \<Rightarrow> byte) \<times> (nat \<Rightarrow> byte)) \<times> overlapped) \<Rightarrow> iocp \<Rightarrow> nat \<Rightarrow> iocp" where
  "IOCP_CreateClient mem io maxClientCount =
     io\<lparr>mNet := (mNet io)\<lparr>send_pool := ObjectPool_Init (send_pool (mNet io)) (maxClientCount * 4)\<rparr>,
        mClientInfos := mClientInfos io @
          map (\<lambda>i. ClientSession_Init (ClientSession_new (fst (mem i)) (snd (mem i))) i (mIOCPHandle io))
            [0..<maxClientCount],
        mFreeSessionList := mFreeSessionList io @ rev [0..<maxClientCount]\<rparr>"

definition IOCP_CreateWorkerThread :: "iocp \<Rightarrow> bool \<times> iocp" where
  "IOCP_CreateWorkerThread io =
     (True, io\<lparr>mIsWorkerRun := True, mIOWorkerThreads := mIOWorkerThreads io + MAX_WORKERTHREAD\<rparr>)"

definition IOCP_PopFreeSessionIndex :: "iocp \<Rightarrow> nat \<times> iocp" where
  "IOCP_PopFreeSessionIndex io =
     (if mFreeSessionList io = [] then (UINT32_MAX, io)
      else (last (mFreeSessionList io), io\<lparr>mFreeSessionList := butlast (mFreeSessionList io)\<rparr>))"

definition IOCP_PushFreeSessionIndex :: "iocp \<Rightarrow> nat \<Rightarrow> iocp" where
  "IOCP_PushFreeSessionIndex io index = io\<lparr>mFreeSessionList := mFreeSessionList io @ [index]\<rparr>"

text \<open>
  Pop an index and post an \<open>AcceptEx\<close> on its session: the body of the loop of \<open>StartServer\<close> and the
  end of the accept branch of \<open>WorkerThread\<close>. The result of the post is not used.
\<close>

definition IOCP_post_next :: "winsock \<Rightarrow> iocp \<Rightarrow> iocp result" where
  "IOCP_post_next ws io =
     (case IOCP_PopFreeSessionIndex io of (emptyIndex, io1) \<Rightarrow>
        if emptyIndex \<noteq> UINT32_MAX then
          bindr (IOCP_GetClientInfo io1 emptyIndex) (\<lambda>s.
            case ClientSession_PostImmediateAccept ws (mNet io1) s of (ok, net', s') \<Rightarrow>
              Inr ((put_session io1 emptyIndex net' s')
                \<lparr>posted := posted io1 @ (if ok then [emptyIndex] else [])\<rparr>))
        else Inr io1)"

fun IOCP_post_loop :: "(nat \<Rightarrow> winsock) \<Rightarrow> nat \<Rightarrow> nat \<Rightarrow> iocp \<Rightarrow> iocp result" where
  "IOCP_post_loop ws i 0 io = Inr io"
| "IOCP_post_loop ws i (Suc k) io = bindr (IOCP_post_next (ws i) io) (\<lambda>io'. IOCP_post_loop ws (i + 1) k io')"

definition IOCP_StartServer ::
  "(nat \<Rightarrow> ((nat \<Rightarrow> byte) \<times> (nat \<Rightarrow> byte)) \<times> overlapped) \<Rightarrow> (nat \<Rightarrow> winsock) \<Rightarrow> iocp \<Rightarrow> nat \<Rightarrow>
     (bool \<times> iocp) result" where
  "IOCP_StartServer mem ws io maxClientCount =
     (case IOCP_CreateWorkerThread (IOCP_CreateClient mem io maxClientCount) of (bRet, io1) \<Rightarrow>
        if \<not> bRet then Inr (False, io1)
        else bindr (IOCP_post_loop ws 0 MAX_PENDING_ACCEPT io1) (\<lambda>io2.
          Inr (True, io2\<lparr>mIsTimeoutRun := True\<rparr>)))"

section \<open>Connections\<close>

definition IOCP_CloseSocket :: "winsock \<Rightarrow> iocp \<Rightarrow> nat \<Rightarrow> bool \<Rightarrow> iocp result" where
  "IOCP_CloseSocket ws io i bIsForce =
     bindr (IOCP_GetClientInfo io i) (\<lambda>s.
       if \<not> ClientSession_IsConnected s then Inr io
       else
         (let clientIndex = S_mIndex s;
              (net', s') = ClientSession_Closed ws (mNet io) s bIsForce;
              io1 = put_session io i net' s';
              io2 = io1\<lparr>app_events := app_events io1 @ [Ev_Close clientIndex]\<rparr>;
              io3 = IOCP_PushFreeSessionIndex io2 clientIndex
          in Inr (io3\<lparr>mClientCnt := mClientCnt io3 - 1\<rparr>)))"

definition IOCP_SendMsg :: "winsock \<Rightarrow> iocp \<Rightarrow> nat \<Rightarrow> nat \<Rightarrow> byte list \<Rightarrow> (bool \<times> iocp) result" where
  "IOCP_SendMsg ws io i dataSize pMsg =
     bindr (IOCP_GetClientInfo io i) (\<lambda>s.
     bindr (ClientSession_SendMsg ws (mNet io) s dataSize pMsg) (\<lambda>(ok, net', s').
       Inr (ok, put_session io i net' s')))"

section \<open>Completions\<close>

text \<open>
  An \<open>OVERLAPPED_ENTRY\<close>. The overlapped pointer leads to the receive structure of a session, to an
  accept context, or to a block of the send pool. \<open>received\<close> is what the kernel has put into the
  receive buffer.
\<close>

datatype overlapped_ptr = OvlRecv nat | OvlAccept nat | OvlSend nat

record completion =
  lpCompletionKey :: nat
  dwNumberOfBytesTransferred :: nat
  lpOverlapped :: "overlapped_ptr option"
  received :: "byte list"

text \<open>\<open>m_eOperation\<close> read through the pointer.\<close>

definition ovl_operation :: "iocp \<Rightarrow> overlapped_ptr \<Rightarrow> IOOperation result" where
  "ovl_operation io p =
     (case p of
        OvlRecv i \<Rightarrow> bindr (IOCP_GetClientInfo io i) (\<lambda>s. Inr (m_eOperation (m_stRecvOverlappedEx s)))
      | OvlAccept i \<Rightarrow> bindr (IOCP_GetClientInfo io i) (\<lambda>s. Inr (m_eOperation (mAcceptContext s)))
      | OvlSend a \<Rightarrow> Inr (snd_operation (blocks (mNet io) a)))"

text \<open>The generation read through the pointer, in the layout of the operation's structure.\<close>

definition ovl_gen :: "iocp \<Rightarrow> overlapped_ptr \<Rightarrow> UINT32 result" where
  "ovl_gen io p =
     (case p of
        OvlRecv i \<Rightarrow> bindr (IOCP_GetClientInfo io i) (\<lambda>s. Inr (ovl_generation (m_stRecvOverlappedEx s)))
      | OvlAccept i \<Rightarrow> bindr (IOCP_GetClientInfo io i) (\<lambda>s. Inr (ovl_generation (mAcceptContext s)))
      | OvlSend a \<Rightarrow> Inr (snd_generation (blocks (mNet io) a)))"

definition ovl_session :: "iocp \<Rightarrow> overlapped_ptr \<Rightarrow> nat result" where
  "ovl_session io p =
     (case p of
        OvlRecv i \<Rightarrow> bindr (IOCP_GetClientInfo io i) (\<lambda>s. Inr (clientSessionIndex (m_stRecvOverlappedEx s)))
      | OvlAccept i \<Rightarrow> bindr (IOCP_GetClientInfo io i) (\<lambda>s. Inr (clientSessionIndex (mAcceptContext s)))
      | OvlSend a \<Rightarrow> Inl OutOfBounds)"

definition IOCP_accept :: "winsock \<Rightarrow> winsock \<Rightarrow> iocp \<Rightarrow> nat \<Rightarrow> iocp result" where
  "IOCP_accept ws ws' io i =
     bindr (IOCP_GetClientInfo io i) (\<lambda>s.
     case ClientSession_AcceptCompletion ws (mNet io) s of (ok, net', s') \<Rightarrow>
       bindr (if ok
              then (let io1 = put_session io i net' s' in
                    Inr (io1\<lparr>mClientCnt := mClientCnt io1 + 1,
                         app_events := app_events io1 @ [Ev_Connect (S_mIndex s')]\<rparr>))
              else IOCP_CloseSocket ws (put_session io i net' s') i True)
         (IOCP_post_next ws'))"

definition IOCP_recv :: "winsock \<Rightarrow> iocp \<Rightarrow> nat \<Rightarrow> overlapped_ptr \<Rightarrow> nat \<Rightarrow> byte list \<Rightarrow> iocp result" where
  "IOCP_recv ws io i p dwIoSize data =
     bindr (ovl_gen io p) (\<lambda>g.
     bindr (IOCP_GetClientInfo io i) (\<lambda>s.
       if g \<noteq> ClientSession_GetGeneration s then Inr io
       else
         bindr (mem_write (mRecvBuf s) 0 data) (\<lambda>buf.
         let s1 = ClientSession_UpdateActivity ws (s\<lparr>mRecvBuf := buf\<rparr>) in
         bindr (mem_read (mRecvBuf s1) 0 dwIoSize) (\<lambda>bs.
           case ClientSession_BindRecv ws (mNet io) s1 of (_, net', s2) \<Rightarrow>
             Inr ((put_session io i net' s2)\<lparr>app_events := app_events io @ [Ev_Receive (S_mIndex s1) bs]\<rparr>)))))"

definition IOCP_send_done :: "winsock \<Rightarrow> iocp \<Rightarrow> nat \<Rightarrow> overlapped_ptr \<Rightarrow> nat \<Rightarrow> iocp result" where
  "IOCP_send_done ws io i p dwIoSize =
     bindr (ovl_gen io p) (\<lambda>g.
     bindr (IOCP_GetClientInfo io i) (\<lambda>s.
       if g \<noteq> ClientSession_GetGeneration s
       then Inr (io\<lparr>mNet := (mNet io)\<lparr>send_pool := ObjectPool_Free (send_pool (mNet io))
              (case p of OvlSend a \<Rightarrow> Some a | _ \<Rightarrow> None)\<rparr>\<rparr>)
       else bindr (ClientSession_SendComplete ws (mNet io) s dwIoSize) (\<lambda>(net', s').
              Inr (put_session io i net' s'))))"

text \<open>One entry of the array: the body of the \<open>for\<close> loop of \<open>WorkerThread\<close>.\<close>

definition IOCP_entry :: "winsock \<Rightarrow> winsock \<Rightarrow> iocp \<Rightarrow> completion \<Rightarrow> iocp result" where
  "IOCP_entry ws ws' io e =
     (case lpOverlapped e of
        None \<Rightarrow> if dwNumberOfBytesTransferred e = 0 then Inr (io\<lparr>mIsWorkerRun := False\<rparr>) else Inr io
      | Some p \<Rightarrow>
          bindr (ovl_operation io p) (\<lambda>operation.
          if dwNumberOfBytesTransferred e = 0 \<and> operation \<noteq> IO_ACCEPT
          then IOCP_CloseSocket ws io (lpCompletionKey e) False
          else (case operation of
              IO_ACCEPT \<Rightarrow> bindr (ovl_session io p) (\<lambda>i. IOCP_accept ws ws' io i)
            | IO_RECV \<Rightarrow> IOCP_recv ws io (lpCompletionKey e) p (dwNumberOfBytesTransferred e) (received e)
            | IO_SEND \<Rightarrow> IOCP_send_done ws io (lpCompletionKey e) p (dwNumberOfBytesTransferred e))))"

fun IOCP_entries :: "(nat \<Rightarrow> winsock \<times> winsock) \<Rightarrow> nat \<Rightarrow> iocp \<Rightarrow> completion list \<Rightarrow> iocp result" where
  "IOCP_entries ws k io [] = Inr io"
| "IOCP_entries ws k io (e # es) =
     bindr (IOCP_entry (fst (ws k)) (snd (ws k)) io e) (\<lambda>io'. IOCP_entries ws (k + 1) io' es)"

text \<open>
  What \<open>GetQueuedCompletionStatusEx\<close> returns, and the \<open>while\<close> loop of \<open>WorkerThread\<close> over the batches
  it delivers.
\<close>

datatype gqcs = Gqcs_entries "completion list" | Gqcs_timeout | Gqcs_abandoned | Gqcs_error

fun IOCP_WorkerThread :: "(nat \<Rightarrow> winsock \<times> winsock) \<Rightarrow> nat \<Rightarrow> iocp \<Rightarrow> gqcs list \<Rightarrow> iocp result" where
  "IOCP_WorkerThread ws k io [] = Inr io"
| "IOCP_WorkerThread ws k io (g # gs) =
     (if \<not> mIsWorkerRun io then Inr io
      else (case g of
          Gqcs_entries es \<Rightarrow>
            bindr (IOCP_entries ws k io es) (\<lambda>io'. IOCP_WorkerThread ws (k + length es) io' gs)
        | Gqcs_timeout \<Rightarrow> IOCP_WorkerThread ws k io gs
        | Gqcs_abandoned \<Rightarrow> Inr (io\<lparr>mIsWorkerRun := False\<rparr>)
        | Gqcs_error \<Rightarrow> IOCP_WorkerThread ws k io gs))"

section \<open>Timeouts\<close>

definition TIMEOUT_MS :: UINT64 where "TIMEOUT_MS = 60000"
definition PING_INTERVAL_MS :: UINT64 where "PING_INTERVAL_MS = 30000"

text \<open>One session, in the loop of \<open>TimeoutCheckThread\<close>.\<close>

definition IOCP_TimeoutCheck_session :: "winsock \<Rightarrow> UINT64 \<Rightarrow> iocp \<Rightarrow> nat \<Rightarrow> iocp result" where
  "IOCP_TimeoutCheck_session ws now io i =
     bindr (IOCP_GetClientInfo io i) (\<lambda>s.
       if \<not> ClientSession_IsConnected s then Inr io
       else
         (let elapsed = now - mLastActivityTime s in
          if elapsed \<ge> TIMEOUT_MS then Inr (io\<lparr>mNet := ClientSession_DisconnectAsync (mNet io) s\<rparr>)
          else if elapsed \<ge> PING_INTERVAL_MS then
            (if now - mLastPingTime s \<ge> PING_INTERVAL_MS then
               bindr (ClientSession_SendMsg ws (mNet io) (s\<lparr>mLastPingTime := now\<rparr>) PACKET_HEADER_LENGTH
                   (packet_bytes 0 PING_PACKET)) (\<lambda>(_, net', s').
                 Inr (put_session io i net' s'))
             else Inr io)
          else Inr io))"

fun IOCP_TimeoutCheck :: "winsock \<Rightarrow> UINT64 \<Rightarrow> iocp \<Rightarrow> nat list \<Rightarrow> iocp result" where
  "IOCP_TimeoutCheck ws now io [] = Inr io"
| "IOCP_TimeoutCheck ws now io (i # is) =
     bindr (IOCP_TimeoutCheck_session ws now io i) (\<lambda>io'. IOCP_TimeoutCheck ws now io' is)"

section \<open>Shutdown\<close>

fun IOCP_close_all :: "winsock \<Rightarrow> iocp \<Rightarrow> nat list \<Rightarrow> iocp" where
  "IOCP_close_all ws io [] = io"
| "IOCP_close_all ws io (i # is) =
     (let s = mClientInfos io ! i in
      if ClientSession_IsConnected s
      then (let net1 = log_call (mNet io) (OS_CancelIoEx (S_mIndex s) (m_socketClient s));
                (net2, s') = ClientSession_Closed ws net1 s True
            in IOCP_close_all ws (put_session io i net2 s') is)
      else IOCP_close_all ws io is)"

text \<open>
  The workers drain their remaining completions \<open>rest\<close> and see the null entries; joined threads are gone
  but stay in the vector.
\<close>

definition IOCP_DestroyThread ::
  "winsock \<Rightarrow> (nat \<Rightarrow> winsock \<times> winsock) \<Rightarrow> gqcs list \<Rightarrow> iocp \<Rightarrow> iocp result" where
  "IOCP_DestroyThread ws wws rest io =
     (let io1 = io\<lparr>mIsTimeoutRun := False, mListenSocket := None\<rparr>;
          io2 = IOCP_close_all ws io1 [0..<length (mClientInfos io1)]
      in bindr (IOCP_WorkerThread wws 0 io2 rest) (\<lambda>io3.
           Inr (io3\<lparr>mIsWorkerRun := False, mIOCPHandle := INVALID_HANDLE_VALUE\<rparr>)))"

end
