(* ===== verification/SlotAccounting.thy ===== *)
theory SlotAccounting
  imports IOCompletionPort
begin

text \<open>
  Where the connection slots are. At any time a slot is free, waiting for a connection (its \<open>AcceptEx\<close>
  is posted), connected, or lost, and never two of these; the client counter counts the connected ones and
  some of the lost ones. All operations of the network layer keep this. While no Winsock call fails, no slot
  is lost and the counter is exact; a failing call leaks one. The last part is the timeout rule.
\<close>

section \<open>The invariant\<close>

definition connected_slots :: "iocp \<Rightarrow> nat set" where
  "connected_slots io = {i. i < length (mClientInfos io) \<and> mIsConnected (mClientInfos io ! i)}"

definition slots_ok :: "iocp \<Rightarrow> bool" where
  "slots_ok io \<longleftrightarrow> length (mClientInfos io) < UINT32_MAX \<and>
     (\<forall>i < length (mClientInfos io). S_mIndex (mClientInfos io ! i) = i) \<and>
     distinct (mFreeSessionList io @ posted io) \<and>
     set (mFreeSessionList io @ posted io) \<subseteq> {0..<length (mClientInfos io)} \<and>
     set (mFreeSessionList io @ posted io) \<inter> connected_slots io = {} \<and>
     int (card (connected_slots io)) \<le> mClientCnt io \<and>
     mClientCnt io + int (length (mFreeSessionList io) + length (posted io)) \<le> int (length (mClientInfos io))"

text \<open>No slot is lost.\<close>

definition slots_complete :: "iocp \<Rightarrow> bool" where
  "slots_complete io \<longleftrightarrow>
     set (mFreeSessionList io) \<union> set (posted io) \<union> connected_slots io = {0..<length (mClientInfos io)}"

lemma finite_connected [simp]: "finite (connected_slots io)"
  by (simp add: connected_slots_def)

lemma put_session_fields [simp]:
  "mClientInfos (put_session io i net s) = (mClientInfos io)[i := s]"
  "mNet (put_session io i net s) = net" "mFreeSessionList (put_session io i net s) = mFreeSessionList io"
  "posted (put_session io i net s) = posted io" "mClientCnt (put_session io i net s) = mClientCnt io"
  "app_events (put_session io i net s) = app_events io"
  "mIsWorkerRun (put_session io i net s) = mIsWorkerRun io"
  by (simp_all add: put_session_def)

text \<open>When no slot is lost, the bounds on the counter meet.\<close>

lemma slots_partition:
  assumes "slots_ok io" and "slots_complete io"
  shows "length (mFreeSessionList io) + length (posted io) + card (connected_slots io) = length (mClientInfos io)"
proof -
  let ?w = "mFreeSessionList io @ posted io"
  have "distinct ?w" and "set ?w \<inter> connected_slots io = {}" using assms(1) unfolding slots_ok_def by blast+
  then have "card (set ?w \<union> connected_slots io) = length ?w + card (connected_slots io)"
    using card_Un_disjoint [of "set ?w" "connected_slots io"] distinct_card [of ?w] by simp
  moreover have "set ?w \<union> connected_slots io = {0..<length (mClientInfos io)}"
    using assms(2) by (simp add: slots_complete_def)
  ultimately show ?thesis by simp
qed

lemma counter_exact:
  assumes "slots_ok io" and "slots_complete io"
  shows "mClientCnt io = int (card (connected_slots io))"
  using assms slots_partition [OF assms] by (simp add: slots_ok_def)

text \<open>
  Operations that keep the index and the connection flag of a session, and the lists, keep everything.
\<close>

definition same_slots :: "iocp \<Rightarrow> iocp \<Rightarrow> bool" where
  "same_slots io io' \<longleftrightarrow> map S_mIndex (mClientInfos io') = map S_mIndex (mClientInfos io) \<and>
     map mIsConnected (mClientInfos io') = map mIsConnected (mClientInfos io) \<and>
     mFreeSessionList io' = mFreeSessionList io \<and> posted io' = posted io \<and> mClientCnt io' = mClientCnt io"

lemma same_slots_connected: "same_slots io io' \<Longrightarrow> connected_slots io' = connected_slots io"
proof -
  assume s: "same_slots io io'"
  then have l: "length (mClientInfos io') = length (mClientInfos io)"
    unfolding same_slots_def by (metis length_map)
  have "mIsConnected (mClientInfos io' ! i) = mIsConnected (mClientInfos io ! i)"
    if "i < length (mClientInfos io)" for i
    using s that l unfolding same_slots_def by (metis nth_map)
  then show ?thesis using l by (auto simp: connected_slots_def)
qed

lemma same_slots_ok:
  assumes "same_slots io io'"
  shows "slots_ok io' = slots_ok io" and "slots_complete io' = slots_complete io"
proof -
  have l: "length (mClientInfos io') = length (mClientInfos io)"
    using assms unfolding same_slots_def by (metis length_map)
  have ix: "S_mIndex (mClientInfos io' ! i) = S_mIndex (mClientInfos io ! i)"
    if "i < length (mClientInfos io)" for i
    using assms that l unfolding same_slots_def by (metis nth_map)
  show "slots_ok io' = slots_ok io" "slots_complete io' = slots_complete io"
    using assms l ix same_slots_connected [OF assms]
    by (auto simp: slots_ok_def slots_complete_def same_slots_def)
qed

lemma same_slots_put:
  assumes "i < length (mClientInfos io)" and "S_mIndex s = S_mIndex (mClientInfos io ! i)"
    and "mIsConnected s = mIsConnected (mClientInfos io ! i)"
  shows "same_slots io (put_session io i net s)"
  using assms by (simp add: same_slots_def map_update list_update_same_conv)

lemma same_slots_refl [simp]: "same_slots io io"
  by (simp add: same_slots_def)

section \<open>Operations\<close>

lemma SendMsg_session:
  "ClientSession_SendMsg ws net s n msg = Inr (ok, net', s') \<Longrightarrow> \<exists>q. s' = s\<lparr>mSendDataqueue := q\<rparr>"
proof -
  assume "ClientSession_SendMsg ws net s n msg = Inr (ok, net', s')"
  then have "s' = s\<lparr>mSendDataqueue := mSendDataqueue s\<rparr> \<or> (\<exists>q. s' = s\<lparr>mSendDataqueue := q\<rparr>)"
    by (auto simp: ClientSession_SendMsg_def result_simps Let_def split: prod.splits option.splits if_splits)
  then show ?thesis by blast
qed

lemma SendComplete_session:
  "ClientSession_SendComplete ws net s n = Inr (net', s') \<Longrightarrow> \<exists>q. s' = s\<lparr>mSendDataqueue := q\<rparr>"
  by (auto simp: ClientSession_SendComplete_def result_simps Let_def split: list.splits if_splits)

lemma IOCP_SendMsg_slots: "IOCP_SendMsg ws io i n msg = Inr (ok, io') \<Longrightarrow> same_slots io io'"
  by (auto simp: IOCP_SendMsg_def IOCP_GetClientInfo_def result_simps dest!: SendMsg_session
      intro: same_slots_put)

lemma connected_close:
  assumes "i < length (mClientInfos io)" and "\<not> mIsConnected s"
  shows "connected_slots (put_session io i net s) = connected_slots io - {i}"
  using assms by (auto simp: connected_slots_def split: if_splits)

lemma connected_open:
  assumes "i < length (mClientInfos io)" and "mIsConnected s"
  shows "connected_slots (put_session io i net s) = insert i (connected_slots io)"
  using assms by (auto simp: connected_slots_def split: if_splits)

lemma connected_slots_cong:
  "mClientInfos io' = mClientInfos io \<Longrightarrow> connected_slots io' = connected_slots io"
  by (simp add: connected_slots_def)

lemma CloseSocket_eq:
  assumes "i < length (mClientInfos io)"
  shows "IOCP_CloseSocket ws io i f = Inr
    (if \<not> mIsConnected (mClientInfos io ! i) then io
     else (put_session io i (fst (ClientSession_Closed ws (mNet io) (mClientInfos io ! i) f))
        (snd (ClientSession_Closed ws (mNet io) (mClientInfos io ! i) f)))
        \<lparr>app_events := app_events io @ [Ev_Close (S_mIndex (mClientInfos io ! i))],
         mFreeSessionList := mFreeSessionList io @ [S_mIndex (mClientInfos io ! i)],
         mClientCnt := mClientCnt io - 1\<rparr>)"
  using assms
  by (simp add: IOCP_CloseSocket_def IOCP_GetClientInfo_def ClientSession_IsConnected_def Let_def
      IOCP_PushFreeSessionIndex_def put_session_def split: prod.splits)

lemma Closed_session [simp]:
  "snd (ClientSession_Closed ws net s f) =
     s\<lparr>mIsConnected := False, mLatestClosedTimeSec := ws_seconds ws, m_socketClient := None\<rparr>"
  by (simp add: ClientSession_Closed_def)

lemma CloseSocket_slots:
  assumes "slots_ok io" and "IOCP_CloseSocket ws io i f = Inr io'"
  shows "slots_ok io'" and "slots_complete io \<Longrightarrow> slots_complete io'"
    and "length (mClientInfos io') = length (mClientInfos io)"
proof -
  have i: "i < length (mClientInfos io)"
    using assms(2) by (auto simp: IOCP_CloseSocket_def IOCP_GetClientInfo_def result_simps)
  let ?s = "mClientInfos io ! i"
  let ?io1 = "put_session io i (fst (ClientSession_Closed ws (mNet io) ?s f)) (snd (ClientSession_Closed ws (mNet io) ?s f))"
  have all: "slots_ok io' \<and> (slots_complete io \<longrightarrow> slots_complete io') \<and>
    length (mClientInfos io') = length (mClientInfos io)"
  proof (cases "mIsConnected ?s")
    case False
    then show ?thesis using assms CloseSocket_eq [OF i, of ws f] by simp
  next
    case True
    have ix: "S_mIndex ?s = i" using assms(1) i by (simp add: slots_ok_def)
    have io': "io' = ?io1\<lparr>app_events := app_events io @ [Ev_Close i],
        mFreeSessionList := mFreeSessionList io @ [i], mClientCnt := mClientCnt io - 1\<rparr>"
      using assms(2) CloseSocket_eq [OF i, of ws f] True ix by simp
    have c: "connected_slots io' = connected_slots io - {i}"
      unfolding io' using connected_close [OF i] by (simp add: connected_slots_def)
    have ic: "i \<in> connected_slots io" using True i by (simp add: connected_slots_def)
    have card: "int (card (connected_slots io - {i})) = int (card (connected_slots io)) - 1"
      using ic card_gt_0_iff [of "connected_slots io"] by (auto simp: of_nat_diff)
    have "i \<notin> set (mFreeSessionList io @ posted io)" using assms(1) ic by (auto simp: slots_ok_def)
    then show ?thesis
      using assms(1) i ix c card ic by (auto simp: io' slots_ok_def slots_complete_def)
  qed
  then show "slots_ok io'" "slots_complete io \<Longrightarrow> slots_complete io'"
    "length (mClientInfos io') = length (mClientInfos io)" by simp_all
qed

lemma PostImmediateAccept_session:
  "ClientSession_PostImmediateAccept ws net s = (ok, net', s') \<Longrightarrow>
     S_mIndex s' = S_mIndex s \<and> mIsConnected s' = mIsConnected s \<and>
     (ok \<longleftrightarrow> ws_socket ws \<noteq> None \<and> ws_acceptex ws)"
  by (auto simp: ClientSession_PostImmediateAccept_def Let_def split: if_splits)

lemma post_next_slots:
  assumes "slots_ok io" and "IOCP_post_next ws io = Inr io'"
  shows "slots_ok io'" and "slots_complete io \<Longrightarrow> ws_socket ws \<noteq> None \<Longrightarrow> ws_acceptex ws \<Longrightarrow> slots_complete io'"
    and "length (mClientInfos io') = length (mClientInfos io)"
proof -
  have all: "slots_ok io' \<and> (slots_complete io \<longrightarrow> ws_socket ws \<noteq> None \<longrightarrow> ws_acceptex ws \<longrightarrow> slots_complete io') \<and>
    length (mClientInfos io') = length (mClientInfos io)"
  proof (cases "mFreeSessionList io" rule: rev_cases)
    case Nil
    then show ?thesis using assms by (simp add: IOCP_post_next_def IOCP_PopFreeSessionIndex_def)
  next
    case (snoc fs i)
    have i: "i < length (mClientInfos io)" "i \<noteq> UINT32_MAX"
      using assms(1) snoc by (auto simp: slots_ok_def)
    obtain ok net' s' where p: "ClientSession_PostImmediateAccept ws (mNet io) (mClientInfos io ! i) = (ok, net', s')"
      by (metis prod.exhaust)
    note ps = PostImmediateAccept_session [OF p]
    let ?io1 = "io\<lparr>mFreeSessionList := fs\<rparr>"
    have io': "io' = (put_session ?io1 i net' s')\<lparr>posted := posted io @ (if ok then [i] else [])\<rparr>"
      using assms(2) snoc i p
      by (simp add: IOCP_post_next_def IOCP_PopFreeSessionIndex_def IOCP_GetClientInfo_def)
    have "same_slots ?io1 (put_session ?io1 i net' s')"
      using i ps by (intro same_slots_put) simp_all
    then have c: "connected_slots io' = connected_slots io"
      using same_slots_connected [of ?io1 "put_session ?io1 i net' s'"]
      by (simp add: io' connected_slots_def)
    have ix: "\<forall>j < length (mClientInfos io). S_mIndex ((mClientInfos io)[i := s'] ! j) = j"
      using assms(1) ps i by (simp add: slots_ok_def)
    show ?thesis
      using assms(1) snoc c ps ix by (auto simp: io' slots_ok_def slots_complete_def)
  qed
  then show "slots_ok io'" "slots_complete io \<Longrightarrow> ws_socket ws \<noteq> None \<Longrightarrow> ws_acceptex ws \<Longrightarrow> slots_complete io'"
    "length (mClientInfos io') = length (mClientInfos io)" by simp_all
qed

text \<open>
  The kernel takes a posted accept out of its queue and completes it. \<open>CreateIoCompletionPort\<close> is
  documented to return \<open>NULL\<close> on failure, never \<open>INVALID_HANDLE_VALUE\<close>.
\<close>

definition accepted :: "iocp \<Rightarrow> nat \<Rightarrow> iocp" where
  "accepted io i = io\<lparr>posted := remove1 i (posted io)\<rparr>"

definition calls_succeed :: "winsock \<Rightarrow> bool" where
  "calls_succeed ws \<longleftrightarrow> ws_context ws \<and> ws_recv ws \<and> ws_socket ws \<noteq> None \<and> ws_acceptex ws"

lemma AcceptCompletion_session:
  assumes "ClientSession_AcceptCompletion ws net s = (ok, net', s')" and "ws_bind ws \<noteq> INVALID_HANDLE_VALUE"
    and "\<not> mIsConnected s"
  shows "S_mIndex s' = S_mIndex s \<and> mIsConnected s' = ok \<and> (ok \<longleftrightarrow> ws_context ws \<and> ws_recv ws)"
  using assms
  by (auto simp: ClientSession_AcceptCompletion_def ClientSession_OnConnect_def Let_def
      ClientSession_BindIOCompletionPort_def ClientSession_BindRecv_def ClientSession_UpdateActivity_def
      ClientSession_Closed_def split: if_splits)

lemma waiting_slot:
  assumes "slots_ok io" and "i \<in> set (mFreeSessionList io @ posted io)"
  shows "i < length (mClientInfos io)" and "i \<notin> connected_slots io"
    and "S_mIndex (mClientInfos io ! i) = i" and "\<not> mIsConnected (mClientInfos io ! i)"
proof -
  have r: "i \<in> {0..<length (mClientInfos io)}" and c: "i \<notin> connected_slots io"
    using assms unfolding slots_ok_def by blast+
  then show "i < length (mClientInfos io)" "i \<notin> connected_slots io"
    "\<not> mIsConnected (mClientInfos io ! i)" by (simp_all add: connected_slots_def)
  then show "S_mIndex (mClientInfos io ! i) = i" using assms(1) by (simp add: slots_ok_def)
qed

lemma accept_slots:
  assumes "slots_ok io" and "i \<in> set (posted io)" and "ws_bind ws \<noteq> INVALID_HANDLE_VALUE"
    and "IOCP_accept ws ws' (accepted io i) i = Inr io'"
  shows "slots_ok io'"
    and "slots_complete io \<Longrightarrow> calls_succeed ws \<Longrightarrow> calls_succeed ws' \<Longrightarrow> slots_complete io'"
    and "length (mClientInfos io') = length (mClientInfos io)"
proof -
  let ?io0 = "accepted io i" and ?s = "mClientInfos io ! i"
  have i: "i < length (mClientInfos io)" "S_mIndex ?s = i" "\<not> mIsConnected ?s" "i \<notin> set (mFreeSessionList io)"
    using waiting_slot [OF assms(1), of i] assms(1,2) by (auto simp: slots_ok_def)
  have d: "distinct (posted io)" using assms(1) by (simp add: slots_ok_def)
  have len: "length (posted io) = Suc (length (remove1 i (posted io)))"
    using assms(2) length_pos_if_in_set [of i "posted io"] by (simp add: length_remove1)
  have ok0: "slots_ok ?io0" using assms(1) d len by (auto simp: slots_ok_def accepted_def connected_slots_def)
  obtain ok net' s' where a: "ClientSession_AcceptCompletion ws (mNet io) ?s = (ok, net', s')"
    by (metis prod.exhaust)
  note as = AcceptCompletion_session [OF a assms(3) i(3)]
  let ?io1 = "put_session ?io0 i net' s'"
  let ?io2 = "?io1\<lparr>mClientCnt := mClientCnt ?io1 + 1, app_events := app_events ?io1 @ [Ev_Connect (S_mIndex s')]\<rparr>"
  have acc: "IOCP_accept ws ws' ?io0 i =
      bindr (if ok then Inr ?io2 else IOCP_CloseSocket ws ?io1 i True) (IOCP_post_next ws')"
    using i(1) a by (simp add: IOCP_accept_def IOCP_GetClientInfo_def accepted_def Let_def)
  have all: "slots_ok io' \<and> (slots_complete io \<longrightarrow> calls_succeed ws \<longrightarrow> calls_succeed ws' \<longrightarrow> slots_complete io') \<and>
    length (mClientInfos io') = length (mClientInfos io)"
  proof (cases ok)
    case True
    have c2: "connected_slots ?io2 = insert i (connected_slots io)"
      using connected_open [of i ?io0 s' net'] i(1) as True
      by (simp add: connected_slots_def accepted_def)
    have ic: "i \<notin> connected_slots io" using i(3) by (simp add: connected_slots_def)
    have "slots_ok ?io2"
      using ok0 assms(1) i as d ic c2 True len by (auto simp: slots_ok_def accepted_def)
    moreover have "slots_complete io \<longrightarrow> slots_complete ?io2"
      using c2 d i(1) by (auto simp: slots_complete_def accepted_def)
    moreover have p: "IOCP_post_next ws' ?io2 = Inr io'" using assms(4) acc True by simp
    ultimately show ?thesis
      using post_next_slots [OF _ p] by (auto simp: calls_succeed_def accepted_def)
  next
    case False
    have "same_slots ?io0 ?io1"
      using i as False by (intro same_slots_put) (simp_all add: accepted_def)
    then have ok1: "slots_ok ?io1" using ok0 same_slots_ok(1) by blast
    obtain io2 where c: "IOCP_CloseSocket ws ?io1 i True = Inr io2" "IOCP_post_next ws' io2 = Inr io'"
      using assms(4) acc False by (auto simp: result_simps)
    have "slots_ok io2" "length (mClientInfos io2) = length (mClientInfos io)"
      using CloseSocket_slots [OF ok1 c(1)] by (simp_all add: accepted_def)
    then show ?thesis
      using post_next_slots [OF _ c(2)] as False by (auto simp: calls_succeed_def)
  qed
  then show "slots_ok io'"
    "slots_complete io \<Longrightarrow> calls_succeed ws \<Longrightarrow> calls_succeed ws' \<Longrightarrow> slots_complete io'"
    "length (mClientInfos io') = length (mClientInfos io)" by simp_all
qed

text \<open>
  A receive completes. Where posting the next receive fails, \<open>BindRecv\<close> closes the session without
  \<open>CloseSocket\<close>, so its slot does not return to the free list and the counter still counts it.
\<close>

lemma BindRecv_session:
  "ClientSession_BindRecv ws net s = (ok, net', s') \<Longrightarrow>
     S_mIndex s' = S_mIndex s \<and> mIsConnected s' = (mIsConnected s \<and> ws_recv ws)"
  by (auto simp: ClientSession_BindRecv_def ClientSession_Closed_def Let_def split: if_splits)

lemma recv_session:
  assumes "IOCP_recv ws io i p n data = Inr io'"
  shows "i < length (mClientInfos io)" and "io' \<noteq> io \<Longrightarrow> \<exists>net' s2 evs. io' = (put_session io i net' s2)\<lparr>app_events := evs\<rparr> \<and>
    S_mIndex s2 = S_mIndex (mClientInfos io ! i) \<and>
    mIsConnected s2 = (mIsConnected (mClientInfos io ! i) \<and> ws_recv ws)"
proof -
  obtain g where g: "ovl_gen io p = Inr g" using assms by (auto simp: IOCP_recv_def result_simps)
  show i: "i < length (mClientInfos io)"
    using assms by (auto simp: IOCP_recv_def IOCP_GetClientInfo_def result_simps)
  show "\<exists>net' s2 evs. io' = (put_session io i net' s2)\<lparr>app_events := evs\<rparr> \<and>
      S_mIndex s2 = S_mIndex (mClientInfos io ! i) \<and>
      mIsConnected s2 = (mIsConnected (mClientInfos io ! i) \<and> ws_recv ws)" if "io' \<noteq> io"
  proof (cases "g = S_mGeneration (mClientInfos io ! i)")
    case False
    then show ?thesis
      using assms g i that by (simp add: IOCP_recv_def IOCP_GetClientInfo_def ClientSession_GetGeneration_def)
  next
    case True
    obtain x where x: "mem_write (mRecvBuf (mClientInfos io ! i)) 0 data = Inr x" "n \<le> length x"
      using assms g i True
      by (auto simp: IOCP_recv_def IOCP_GetClientInfo_def ClientSession_GetGeneration_def result_simps Let_def
          ClientSession_UpdateActivity_def)
    let ?s1 = "ClientSession_UpdateActivity ws ((mClientInfos io ! i)\<lparr>mRecvBuf := x\<rparr>)"
    obtain ok net' s2 where b: "ClientSession_BindRecv ws (mNet io) ?s1 = (ok, net', s2)" by (metis prod.exhaust)
    have "io' = (put_session io i net' s2)\<lparr>app_events := app_events io @ [Ev_Receive (S_mIndex ?s1) (take n x)]\<rparr>"
      using assms g i True x b
      by (simp add: IOCP_recv_def IOCP_GetClientInfo_def ClientSession_GetGeneration_def Let_def
          ClientSession_UpdateActivity_def)
    moreover have "S_mIndex s2 = S_mIndex (mClientInfos io ! i) \<and>
        mIsConnected s2 = (mIsConnected (mClientInfos io ! i) \<and> ws_recv ws)"
      using BindRecv_session [OF b] by (simp add: ClientSession_UpdateActivity_def)
    ultimately show ?thesis by blast
  qed
qed

lemma recv_posted: "IOCP_recv ws io i p n data = Inr io' \<Longrightarrow> posted io' = posted io"
  using recv_session(2) by (cases "io' = io") fastforce+

lemma recv_slots:
  assumes "ws_recv ws" and "IOCP_recv ws io i p n data = Inr io'"
  shows "same_slots io io'"
proof (cases "io' = io")
  case False
  then obtain net' s2 evs where r: "io' = (put_session io i net' s2)\<lparr>app_events := evs\<rparr>"
    "S_mIndex s2 = S_mIndex (mClientInfos io ! i)" "mIsConnected s2 = mIsConnected (mClientInfos io ! i)"
    using recv_session [OF assms(2)] assms(1) by auto
  then show ?thesis
    using same_slots_put [OF recv_session(1) [OF assms(2)] r(2,3), of net'] by (simp add: same_slots_def)
qed simp

lemma slots_ok_drop:
  assumes "slots_ok io" and "i < length (mClientInfos io)" and "S_mIndex s = i" and "\<not> mIsConnected s"
  shows "slots_ok ((put_session io i net s)\<lparr>app_events := evs\<rparr>)"
proof -
  let ?io = "(put_session io i net s)\<lparr>app_events := evs\<rparr>"
  have c: "connected_slots ?io = connected_slots io - {i}"
    using connected_close [OF assms(2,4), of net] by (simp add: connected_slots_def)
  have "card (connected_slots io - {i}) \<le> card (connected_slots io)" by (intro card_mono) auto
  then show ?thesis using assms(1-3) c by (auto simp: slots_ok_def nth_list_update)
qed

text \<open>Whether the next receive is posted or not, nothing is used twice.\<close>

lemma recv_slots_ok:
  assumes "slots_ok io" and "IOCP_recv ws io i p n data = Inr io'"
  shows "slots_ok io'" and "length (mClientInfos io') = length (mClientInfos io)"
    and "connected_slots io' \<subseteq> connected_slots io"
proof -
  have all: "slots_ok io' \<and> length (mClientInfos io') = length (mClientInfos io) \<and> connected_slots io' \<subseteq> connected_slots io"
  proof (cases "io' = io \<or> ws_recv ws")
    case True
    then have s: "same_slots io io'" using recv_slots [OF _ assms(2)] by auto
    then have "length (mClientInfos io') = length (mClientInfos io)"
      by (auto simp: same_slots_def dest: map_eq_imp_length_eq)
    then show ?thesis using same_slots_ok [OF s] same_slots_connected [OF s] assms(1) by simp
  next
    case False
    note i = recv_session(1) [OF assms(2)]
    obtain net' s2 evs where r: "io' = (put_session io i net' s2)\<lparr>app_events := evs\<rparr>"
      "S_mIndex s2 = S_mIndex (mClientInfos io ! i)" "\<not> mIsConnected s2"
      using False recv_session(2) [OF assms(2)] by auto
    have "S_mIndex s2 = i" using r(2) assms(1) i by (simp add: slots_ok_def)
    from slots_ok_drop [OF assms(1) i this r(3)] show ?thesis
      using connected_close [OF i r(3), of net'] by (auto simp: r(1) connected_slots_def)
  qed
  then show "slots_ok io'" "length (mClientInfos io') = length (mClientInfos io)"
    "connected_slots io' \<subseteq> connected_slots io" by simp_all
qed

lemma send_done_slots:
  assumes "IOCP_send_done ws io i p n = Inr io'"
  shows "same_slots io io'"
proof -
  obtain g where g: "ovl_gen io p = Inr g" using assms by (auto simp: IOCP_send_done_def result_simps)
  have i: "i < length (mClientInfos io)"
    using assms by (auto simp: IOCP_send_done_def IOCP_GetClientInfo_def result_simps)
  show ?thesis
    using assms g i SendComplete_session
    by (fastforce simp: IOCP_send_done_def IOCP_GetClientInfo_def result_simps same_slots_def
        ClientSession_GetGeneration_def put_session_def map_update list_update_same_conv split: if_splits)
qed

lemma TimeoutCheck_session_slots:
  assumes "IOCP_TimeoutCheck_session ws now io i = Inr io'"
  shows "same_slots io io'"
proof -
  have i: "i < length (mClientInfos io)"
    using assms by (auto simp: IOCP_TimeoutCheck_session_def IOCP_GetClientInfo_def result_simps)
  show ?thesis
    using assms i
    by (auto simp: IOCP_TimeoutCheck_session_def IOCP_GetClientInfo_def result_simps Let_def same_slots_def
        put_session_def map_update list_update_same_conv dest!: SendMsg_session split: if_splits)
qed

lemma TimeoutCheck_slots: "IOCP_TimeoutCheck ws now io is = Inr io' \<Longrightarrow> same_slots io io'"
proof (induction "is" arbitrary: io)
  case (Cons i "is")
  then obtain io1 where h: "IOCP_TimeoutCheck_session ws now io i = Inr io1" "IOCP_TimeoutCheck ws now io1 is = Inr io'"
    by (auto simp: result_simps)
  then show ?case using TimeoutCheck_session_slots [OF h(1)] Cons.IH [OF h(2)] by (simp add: same_slots_def)
qed simp

section \<open>Start\<close>

lemma CreateClient_slots:
  assumes "mClientInfos io = []" and "mFreeSessionList io = []" and "posted io = []" and "mClientCnt io = 0"
    and "n < UINT32_MAX"
  shows "slots_ok (IOCP_CreateClient mem io n)" and "slots_complete (IOCP_CreateClient mem io n)"
proof -
  have "connected_slots (IOCP_CreateClient mem io n) = {}"
    using assms(1) by (auto simp: connected_slots_def IOCP_CreateClient_def ClientSession_Init_def ClientSession_new_def)
  then show "slots_ok (IOCP_CreateClient mem io n)" "slots_complete (IOCP_CreateClient mem io n)"
    using assms by (auto simp: slots_ok_def slots_complete_def IOCP_CreateClient_def ClientSession_Init_def)
qed

lemma post_loop_slots:
  "slots_ok io \<Longrightarrow> IOCP_post_loop ws j k io = Inr io' \<Longrightarrow> slots_ok io' \<and>
     (slots_complete io \<longrightarrow> (\<forall>m. calls_succeed (ws m)) \<longrightarrow> slots_complete io') \<and>
     length (mClientInfos io') = length (mClientInfos io)"
proof (induction k arbitrary: io j)
  case (Suc k)
  then obtain io1 where h: "IOCP_post_next (ws j) io = Inr io1" "IOCP_post_loop ws (j + 1) k io1 = Inr io'"
    by (auto simp: result_simps)
  note p = post_next_slots [OF Suc.prems(1) h(1)]
  show ?case using p Suc.IH [OF p(1) h(2)] by (auto simp: calls_succeed_def)
qed simp

section \<open>The timeout rule\<close>

lemma word_elapsed:
  fixes now last :: UINT64
  assumes "last \<le> now"
  shows "uint (now - last) = uint now - uint last"
  using assms by (simp add: uint_sub_lem word_le_def)

text \<open>
  A client that was silent for less than 30 seconds is left alone, from 30 seconds on it gets a PING if
  the last one is 30 seconds old, from 60 seconds on its connection is shut down.
\<close>

lemma TimeoutCheck_session_quiet:
  assumes "i < length (mClientInfos io)" and "mLastActivityTime (mClientInfos io ! i) \<le> now"
    and "uint now - uint (mLastActivityTime (mClientInfos io ! i)) < 30000"
  shows "IOCP_TimeoutCheck_session ws now io i = Inr io"
  using assms word_elapsed [OF assms(2)]
  by (simp add: IOCP_TimeoutCheck_session_def IOCP_GetClientInfo_def Let_def TIMEOUT_MS_def
      PING_INTERVAL_MS_def word_le_def)

lemma TimeoutCheck_session_expired:
  assumes "i < length (mClientInfos io)" and "mIsConnected (mClientInfos io ! i)"
    and "mLastActivityTime (mClientInfos io ! i) \<le> now"
    and "60000 \<le> uint now - uint (mLastActivityTime (mClientInfos io ! i))"
  shows "IOCP_TimeoutCheck_session ws now io i =
    Inr (io\<lparr>mNet := ClientSession_DisconnectAsync (mNet io) (mClientInfos io ! i)\<rparr>)"
  using assms word_elapsed [OF assms(3)]
  by (simp add: IOCP_TimeoutCheck_session_def IOCP_GetClientInfo_def Let_def TIMEOUT_MS_def
      ClientSession_IsConnected_def word_le_def)

text \<open>
  The subtraction wraps: an activity recorded after \<open>now\<close> was read looks like one long ago, and the
  active client is disconnected.
\<close>

lemma TimeoutCheck_session_wraps:
  assumes "i < length (mClientInfos io)" and "mIsConnected (mClientInfos io ! i)"
    and "now < mLastActivityTime (mClientInfos io ! i)"
    and "uint (mLastActivityTime (mClientInfos io ! i)) - uint now \<le> 2 ^ 64 - 60000"
  shows "IOCP_TimeoutCheck_session ws now io i =
    Inr (io\<lparr>mNet := ClientSession_DisconnectAsync (mNet io) (mClientInfos io ! i)\<rparr>)"
proof -
  let ?last = "mLastActivityTime (mClientInfos io ! i)"
  have "uint (now - ?last) = uint now - uint ?last + 2 ^ 64"
    using assms(3) uint_sub_if' [of now ?last] by (simp add: word_less_def)
  then have "TIMEOUT_MS \<le> now - ?last"
    using assms(4) by (simp add: word_le_def TIMEOUT_MS_def)
  then show ?thesis
    using assms(1,2)
    by (simp add: IOCP_TimeoutCheck_session_def IOCP_GetClientInfo_def Let_def
        ClientSession_IsConnected_def)
qed

lemma TimeoutCheck_session_ping:
  assumes "i < length (mClientInfos io)" and "mIsConnected (mClientInfos io ! i)"
    and "mLastActivityTime (mClientInfos io ! i) \<le> now"
    and "30000 \<le> uint now - uint (mLastActivityTime (mClientInfos io ! i))"
    and "uint now - uint (mLastActivityTime (mClientInfos io ! i)) < 60000"
    and "mLastPingTime (mClientInfos io ! i) \<le> now"
  shows "IOCP_TimeoutCheck_session ws now io i =
    (if uint now - uint (mLastPingTime (mClientInfos io ! i)) < 30000 then Inr io
     else bindr (ClientSession_SendMsg ws (mNet io) ((mClientInfos io ! i)\<lparr>mLastPingTime := now\<rparr>) 5
         (packet_bytes 0 PING_PACKET)) (\<lambda>(_, net', s'). Inr (put_session io i net' s')))"
  using assms word_elapsed [OF assms(3)] word_elapsed [OF assms(6)]
  by (simp add: IOCP_TimeoutCheck_session_def IOCP_GetClientInfo_def Let_def TIMEOUT_MS_def
      PING_INTERVAL_MS_def ClientSession_IsConnected_def word_le_def packet_consts)

text \<open>The rule for any two clock values, by the wrapping differences the code computes.\<close>

lemma TimeoutCheck_session_rule:
  assumes "i < length (mClientInfos io)" and "mIsConnected (mClientInfos io ! i)"
  shows "IOCP_TimeoutCheck_session ws now io i =
    (if uint (now - mLastActivityTime (mClientInfos io ! i)) < 30000 then Inr io
     else if 60000 \<le> uint (now - mLastActivityTime (mClientInfos io ! i))
     then Inr (io\<lparr>mNet := ClientSession_DisconnectAsync (mNet io) (mClientInfos io ! i)\<rparr>)
     else if uint (now - mLastPingTime (mClientInfos io ! i)) < 30000 then Inr io
     else bindr (ClientSession_SendMsg ws (mNet io) ((mClientInfos io ! i)\<lparr>mLastPingTime := now\<rparr>) 5
         (packet_bytes 0 PING_PACKET)) (\<lambda>(_, net', s'). Inr (put_session io i net' s')))"
  using assms
  by (simp add: IOCP_TimeoutCheck_session_def IOCP_GetClientInfo_def Let_def TIMEOUT_MS_def
      PING_INTERVAL_MS_def ClientSession_IsConnected_def word_le_def packet_consts)

section \<open>Stale completions\<close>

text \<open>
  A send that completes after its connection was replaced only returns its block; the new connection's
  queue is not touched.
\<close>

lemma send_done_stale:
  assumes "i < length (mClientInfos io)" and "snd_generation (blocks (mNet io) a) \<noteq> S_mGeneration (mClientInfos io ! i)"
  shows "IOCP_send_done ws io i (OvlSend a) n =
    Inr (io\<lparr>mNet := (mNet io)\<lparr>send_pool := ObjectPool_Free (send_pool (mNet io)) (Some a)\<rparr>\<rparr>)"
  using assms
  by (simp add: IOCP_send_done_def ovl_gen_def IOCP_GetClientInfo_def ClientSession_GetGeneration_def)

lemma recv_stale:
  assumes "i < length (mClientInfos io)"
    and "ovl_generation (m_stRecvOverlappedEx (mClientInfos io ! i)) \<noteq> S_mGeneration (mClientInfos io ! i)"
  shows "IOCP_recv ws io i (OvlRecv i) n data = Inr io"
  using assms
  by (simp add: IOCP_recv_def ovl_gen_def IOCP_GetClientInfo_def ClientSession_GetGeneration_def)

text \<open>The generation that \<open>BindRecv\<close> stores is the current one.\<close>

lemma AcceptCompletion_generation:
  assumes "ClientSession_AcceptCompletion ws net s = (True, net', s')"
  shows "S_mGeneration s' = S_mGeneration s + 1 \<and>
    ovl_generation (m_stRecvOverlappedEx s') = S_mGeneration s + 1 \<and> mLastActivityTime s' = ws_tick ws"
  using assms
  by (auto simp: ClientSession_AcceptCompletion_def ClientSession_OnConnect_def Let_def
      ClientSession_BindRecv_def ClientSession_UpdateActivity_def ClientSession_Closed_def split: if_splits)

end
