(* ===== verification/ByteFifo.thy ===== *)
theory ByteFifo
  imports Prelude
begin

text \<open>
  The interface between the packet assembly of \<open>User\<close> and its byte buffer: a bounded FIFO of bytes
  with the four operations the user object calls. The laws speak of the buffered bytes \<open>contents q\<close>
  only; the client lemmas (fragmented writes, look-ahead, reading a prefix) follow from them.
\<close>

locale byte_fifo =
  fixes fifo_inv :: "'q \<Rightarrow> bool"
    and contents :: "'q \<Rightarrow> byte list"
    and capacity :: "'q \<Rightarrow> nat"
    and put :: "'q \<Rightarrow> byte list option \<Rightarrow> nat \<Rightarrow> (nat \<times> 'q) result"
    and get :: "'q \<Rightarrow> byte list option \<Rightarrow> nat \<Rightarrow> (nat \<times> byte list \<times> 'q) result"
    and look :: "'q \<Rightarrow> nat \<Rightarrow> byte option"
    and reset :: "'q \<Rightarrow> 'q"
  assumes contents_bound: "fifo_inv q \<Longrightarrow> length (contents q) \<le> capacity q"
    and write_law: "fifo_inv q \<Longrightarrow> length ds = n \<Longrightarrow>
      \<exists>q'. put q (Some ds) n = Inr (min n (capacity q - length (contents q)), q') \<and>
        fifo_inv q' \<and> capacity q' = capacity q \<and>
        contents q' = contents q @ take (capacity q - length (contents q)) ds"
    and read_law: "fifo_inv q \<Longrightarrow> min n (length (contents q)) \<le> length out \<Longrightarrow>
      \<exists>q'. get q (Some out) n =
          Inr (min n (length (contents q)),
               take n (contents q) @ drop (min n (length (contents q))) out, q') \<and>
        fifo_inv q' \<and> capacity q' = capacity q \<and> contents q' = drop n (contents q)"
    and peek_law: "fifo_inv q \<Longrightarrow>
      look q i = (if i < length (contents q) then Some (contents q ! i) else None)"
    and clear_law: "fifo_inv q \<Longrightarrow>
      fifo_inv (reset q) \<and> capacity (reset q) = capacity q \<and> contents (reset q) = []"
begin

lemma writeE:
  assumes "fifo_inv q"
  obtains q' where
    "put q (Some ds) (length ds) = Inr (min (length ds) (capacity q - length (contents q)), q')"
    "fifo_inv q'" "capacity q' = capacity q"
    "contents q' = contents q @ take (capacity q - length (contents q)) ds"
  using write_law [OF assms refl, of ds] by blast

lemma write_fits:
  assumes "fifo_inv q" and "length (contents q) + length ds \<le> capacity q"
  shows "\<exists>q'. put q (Some ds) (length ds) = Inr (length ds, q') \<and> fifo_inv q' \<and>
    capacity q' = capacity q \<and> contents q' = contents q @ ds"
proof -
  have "length ds \<le> capacity q - length (contents q)" using assms(2) by linarith
  then show ?thesis using write_law [OF assms(1) refl, of ds] by auto
qed

text \<open>Two writes hold what one write of the joined bytes holds, full buffer or not.\<close>

lemma write_write:
  assumes "fifo_inv q" and "put q (Some ds1) (length ds1) = Inr (n1, q1)"
    and "put q1 (Some ds2) (length ds2) = Inr (n2, q2)"
    and "put q (Some (ds1 @ ds2)) (length (ds1 @ ds2)) = Inr (n, q')"
  shows "contents q2 = contents q'" and "n1 + n2 = n"
proof -
  let ?free = "capacity q - length (contents q)"
  obtain a where a: "Inr (n1, q1) = (Inr (min (length ds1) ?free, a) :: (nat \<times> 'q) result)"
    "fifo_inv a" "capacity a = capacity q" "contents a = contents q @ take ?free ds1"
    using writeE [OF assms(1), of ds1] assms(2) by metis
  then have q1: "q1 = a" "n1 = min (length ds1) ?free" by simp_all
  let ?free1 = "capacity a - length (contents a)"
  obtain b where b: "Inr (n2, q2) = (Inr (min (length ds2) ?free1, b) :: (nat \<times> 'q) result)"
    "contents b = contents a @ take ?free1 ds2"
    using writeE [OF a(2), of ds2] assms(3) q1 by metis
  obtain c where c: "Inr (n, q') = (Inr (min (length (ds1 @ ds2)) ?free, c) :: (nat \<times> 'q) result)"
    "contents c = contents q @ take ?free (ds1 @ ds2)"
    using writeE [OF assms(1), of "ds1 @ ds2"] assms(4) by metis
  have "?free1 = ?free - length ds1" using a(3,4) by simp
  then show "contents q2 = contents q'" "n1 + n2 = n"
    using a b c q1 by (auto simp: min_def)
qed

text \<open>The byte by byte look-ahead of a header sees the first bytes of the buffer.\<close>

lemma peek_prefix:
  assumes "fifo_inv q" and "n \<le> length (contents q)"
  shows "map (look q) [0..<n] = map Some (take n (contents q))"
  using assms by (intro nth_equalityI) (auto simp: peek_law)

text \<open>What was written first is read first.\<close>

lemma write_then_read:
  assumes "fifo_inv q" and "contents q = []" and "length ds \<le> capacity q" and "length ds \<le> length out"
    and "put q (Some ds) (length ds) = Inr (n, q1)"
  shows "\<exists>q2. get q1 (Some out) (length ds) = Inr (length ds, ds @ drop (length ds) out, q2) \<and>
    fifo_inv q2 \<and> contents q2 = []"
proof -
  obtain q' where q': "put q (Some ds) (length ds) = Inr (length ds, q')" "fifo_inv q'"
    "capacity q' = capacity q" "contents q' = ds"
    using write_fits [OF assms(1), of ds] assms(2,3) by auto
  then have "q1 = q'" using assms(5) by simp
  then show ?thesis using read_law [of q' "length ds" out] q' assms(4) by auto
qed

end

end
