(* ===== verification/RingBuffer.thy ===== *)
theory RingBuffer
  imports ByteFifo
begin

text \<open>
  \<open>RingBuffer.h\<close>: the template \<open>RingBuffer<BufferSize>\<close>. The record holds the array and the three
  fields; \<open>BufferSize\<close> is the array's length. Each method is one definition, its loops are recursive
  functions over the bytes still to copy. \<open>RingBuffer_list\<close> is the abstraction: the buffered bytes,
  oldest first. The last part shows that the methods implement the interface \<open>byte_fifo\<close>.
\<close>

section \<open>The class\<close>

record ring =
  buffer :: "byte list"
  head :: nat
  tail :: nat
  full :: bool

definition BufferSize :: "ring \<Rightarrow> nat" where
  "BufferSize r = length (buffer r)"

text \<open>A new object: the array is uninitialised memory.\<close>

definition RingBuffer_new :: "byte list \<Rightarrow> ring" where
  "RingBuffer_new memory = \<lparr>buffer = memory, head = 0, tail = 0, full = False\<rparr>"

definition RingBuffer_IsEmpty :: "ring \<Rightarrow> bool" where
  "RingBuffer_IsEmpty r \<longleftrightarrow> head r = tail r \<and> \<not> full r"

definition RingBuffer_IsFull :: "ring \<Rightarrow> bool" where
  "RingBuffer_IsFull r \<longleftrightarrow> full r"

definition RingBuffer_Size :: "ring \<Rightarrow> nat" where
  "RingBuffer_Size r =
     (if full r then BufferSize r
      else if head r \<ge> tail r then head r - tail r
      else BufferSize r - tail r + head r)"

definition RingBuffer_WriteByte :: "ring \<Rightarrow> byte \<Rightarrow> bool \<times> ring" where
  "RingBuffer_WriteByte r byte =
     (if full r then (False, r)
      else let r1 = r\<lparr>buffer := (buffer r)[head r := byte], head := (head r + 1) mod BufferSize r\<rparr>
           in (True, if head r1 = tail r1 then r1\<lparr>full := True\<rparr> else r1))"

definition RingBuffer_ReadByte :: "ring \<Rightarrow> byte option \<times> ring" where
  "RingBuffer_ReadByte r =
     (if RingBuffer_IsEmpty r then (None, r)
      else (Some (buffer r ! tail r), r\<lparr>tail := (tail r + 1) mod BufferSize r, full := False\<rparr>))"

text \<open>
  \<open>Write\<close>'s loop over the remaining \<open>length\<close> count and the data still to come: the body stores one
  byte as \<open>WriteByte\<close> does and leaves the loop when the buffer is full. A pointer is \<open>None\<close> for
  \<open>nullptr\<close>, and the memory it points to otherwise.
\<close>

fun RingBuffer_Write_loop :: "ring \<Rightarrow> byte list \<Rightarrow> nat \<Rightarrow> nat \<Rightarrow> (nat \<times> ring) result" where
  "RingBuffer_Write_loop r ds 0 written = Inr (written, r)"
| "RingBuffer_Write_loop r ds (Suc n) written =
     (if full r then Inr (written, r)
      else case ds of
        [] \<Rightarrow> Inl OutOfBounds
      | d # ds' \<Rightarrow>
          (let r1 = r\<lparr>buffer := (buffer r)[head r := d], head := (head r + 1) mod BufferSize r\<rparr>;
               r2 = (if head r1 = tail r1 then r1\<lparr>full := True\<rparr> else r1)
           in RingBuffer_Write_loop r2 ds' n (written + 1)))"

definition RingBuffer_Write :: "ring \<Rightarrow> byte list option \<Rightarrow> nat \<Rightarrow> (nat \<times> ring) result" where
  "RingBuffer_Write r data n =
     (case data of
        None \<Rightarrow> Inr (0, r)
      | Some ds \<Rightarrow> if n = 0 then Inr (0, r) else RingBuffer_Write_loop r ds n 0)"

text \<open>\<open>Read\<close>'s loop: \<open>n\<close> bytes still wanted, \<open>cnt\<close> bytes stored into the output array.\<close>

fun RingBuffer_Read_loop ::
  "ring \<Rightarrow> byte list \<Rightarrow> nat \<Rightarrow> nat \<Rightarrow> (nat \<times> byte list \<times> ring) result" where
  "RingBuffer_Read_loop r out 0 cnt = Inr (cnt, out, r)"
| "RingBuffer_Read_loop r out (Suc n) cnt =
     (if RingBuffer_IsEmpty r then Inr (cnt, out, r)
      else if cnt < length out then
        RingBuffer_Read_loop (r\<lparr>tail := (tail r + 1) mod BufferSize r, full := False\<rparr>)
          (out[cnt := buffer r ! tail r]) n (cnt + 1)
      else Inl OutOfBounds)"

definition RingBuffer_Read ::
  "ring \<Rightarrow> byte list option \<Rightarrow> nat \<Rightarrow> (nat \<times> byte list \<times> ring) result" where
  "RingBuffer_Read r output n =
     (case output of
        None \<Rightarrow> Inr (0, [], r)
      | Some out \<Rightarrow> if n = 0 then Inr (0, out, r) else RingBuffer_Read_loop r out n 0)"

definition RingBuffer_Peek :: "ring \<Rightarrow> nat \<Rightarrow> byte option" where
  "RingBuffer_Peek r offset =
     (if RingBuffer_IsEmpty r \<or> offset \<ge> RingBuffer_Size r then None
      else Some (buffer r ! ((tail r + offset) mod BufferSize r)))"

definition RingBuffer_Clear :: "ring \<Rightarrow> ring" where
  "RingBuffer_Clear r = r\<lparr>head := 0, tail := 0, full := False\<rparr>"

section \<open>Invariant and abstraction\<close>

definition ring_inv :: "ring \<Rightarrow> bool" where
  "ring_inv r \<longleftrightarrow> 0 < BufferSize r \<and> head r < BufferSize r \<and> tail r < BufferSize r \<and>
     (full r \<longrightarrow> head r = tail r)"

definition RingBuffer_list :: "ring \<Rightarrow> byte list" where
  "RingBuffer_list r =
     map (\<lambda>i. buffer r ! ((tail r + i) mod BufferSize r)) [0..<RingBuffer_Size r]"

lemma length_RingBuffer_list [simp]: "length (RingBuffer_list r) = RingBuffer_Size r"
  by (simp add: RingBuffer_list_def)

lemma RingBuffer_list_nth:
  "i < RingBuffer_Size r \<Longrightarrow> RingBuffer_list r ! i = buffer r ! ((tail r + i) mod BufferSize r)"
  by (simp add: RingBuffer_list_def)

lemma ring_inv_new: "0 < length memory \<Longrightarrow> ring_inv (RingBuffer_new memory)"
  by (simp add: ring_inv_def RingBuffer_new_def BufferSize_def)

lemma RingBuffer_Size_bound: "ring_inv r \<Longrightarrow> RingBuffer_Size r \<le> BufferSize r"
  by (auto simp: ring_inv_def RingBuffer_Size_def)

lemma full_iff_Size: "ring_inv r \<Longrightarrow> full r \<longleftrightarrow> RingBuffer_Size r = BufferSize r"
  by (auto simp: ring_inv_def RingBuffer_Size_def)

lemma IsEmpty_iff_Size: "ring_inv r \<Longrightarrow> RingBuffer_IsEmpty r \<longleftrightarrow> RingBuffer_Size r = 0"
  by (auto simp: ring_inv_def RingBuffer_Size_def RingBuffer_IsEmpty_def)

lemma head_mod: "ring_inv r \<Longrightarrow> head r = (tail r + RingBuffer_Size r) mod BufferSize r"
  by (auto simp: ring_inv_def RingBuffer_Size_def)

lemma mod_add_neq:
  assumes "(i::nat) < k" and "k < n"
  shows "(t + i) mod n \<noteq> (t + k) mod n"
proof
  assume "(t + i) mod n = (t + k) mod n"
  then have "n dvd (t + k) - (t + i)"
    using assms(1) by (metis mod_eq_dvd_iff_nat add_le_cancel_left less_imp_le)
  then have "n dvd k - i" by simp
  then show False using assms by (auto dest: dvd_imp_le)
qed

section \<open>One byte in, one byte out\<close>

text \<open>The store of one byte that \<open>WriteByte\<close> and the loop of \<open>Write\<close> share.\<close>

definition ring_store :: "ring \<Rightarrow> byte \<Rightarrow> ring" where
  "ring_store r d =
     (let r1 = r\<lparr>buffer := (buffer r)[head r := d], head := (head r + 1) mod BufferSize r\<rparr>
      in if head r1 = tail r1 then r1\<lparr>full := True\<rparr> else r1)"

definition ring_drop :: "ring \<Rightarrow> ring" where
  "ring_drop r = r\<lparr>tail := (tail r + 1) mod BufferSize r, full := False\<rparr>"

lemma ring_store_fields [simp]:
  "buffer (ring_store r d) = (buffer r)[head r := d]"
  "head (ring_store r d) = (head r + 1) mod BufferSize r"
  "tail (ring_store r d) = tail r"
  "BufferSize (ring_store r d) = BufferSize r"
  by (simp_all add: ring_store_def Let_def BufferSize_def)

lemma ring_drop_fields [simp]:
  "buffer (ring_drop r) = buffer r" "head (ring_drop r) = head r"
  "BufferSize (ring_drop r) = BufferSize r" "tail (ring_drop r) = (tail r + 1) mod BufferSize r"
  "\<not> full (ring_drop r)"
  by (simp_all add: ring_drop_def BufferSize_def)

lemma full_ring_store:
  "\<not> full r \<Longrightarrow> full (ring_store r d) \<longleftrightarrow> (head r + 1) mod BufferSize r = tail r"
  by (simp add: ring_store_def Let_def)

lemma ring_inv_store: "ring_inv r \<Longrightarrow> \<not> full r \<Longrightarrow> ring_inv (ring_store r d)"
  by (auto simp: ring_inv_def full_ring_store)

lemma ring_inv_drop: "ring_inv r \<Longrightarrow> ring_inv (ring_drop r)"
  by (simp add: ring_inv_def)

lemma Size_store:
  assumes "ring_inv r" and "\<not> full r"
  shows "RingBuffer_Size (ring_store r d) = Suc (RingBuffer_Size r)"
proof (cases "head r + 1 = BufferSize r")
  case True
  then show ?thesis
    using assms by (auto simp: ring_inv_def RingBuffer_Size_def full_ring_store)
next
  case False
  then have "(head r + 1) mod BufferSize r = head r + 1"
    using assms(1) by (simp add: ring_inv_def)
  then show ?thesis
    using assms by (auto simp: ring_inv_def RingBuffer_Size_def full_ring_store)
qed

lemma Size_drop:
  assumes "ring_inv r" and "0 < RingBuffer_Size r"
  shows "RingBuffer_Size (ring_drop r) = RingBuffer_Size r - 1"
proof (cases "tail r + 1 = BufferSize r")
  case True
  then show ?thesis
    using assms by (auto simp: ring_inv_def RingBuffer_Size_def split: if_splits)
next
  case False
  then have "(tail r + 1) mod BufferSize r = tail r + 1"
    using assms(1) by (simp add: ring_inv_def)
  then show ?thesis
    using assms by (auto simp: ring_inv_def RingBuffer_Size_def split: if_splits)
qed

lemma list_store:
  assumes "ring_inv r" and "\<not> full r"
  shows "RingBuffer_list (ring_store r d) = RingBuffer_list r @ [d]"
proof (rule nth_equalityI)
  show "length (RingBuffer_list (ring_store r d)) = length (RingBuffer_list r @ [d])"
    using assms by (simp add: Size_store)
next
  fix i assume "i < length (RingBuffer_list (ring_store r d))"
  then have i: "i < Suc (RingBuffer_Size r)" using assms by (simp add: Size_store)
  have h: "head r < length (buffer r)" "head r = (tail r + RingBuffer_Size r) mod BufferSize r"
    using assms(1) head_mod [OF assms(1)] by (simp_all add: ring_inv_def BufferSize_def)
  have lt: "RingBuffer_Size r < BufferSize r"
    using RingBuffer_Size_bound [OF assms(1)] full_iff_Size [OF assms(1)] assms(2) by simp
  have "RingBuffer_list (ring_store r d) ! i =
      (buffer r)[head r := d] ! ((tail r + i) mod BufferSize r)"
    using i assms by (simp add: RingBuffer_list_nth Size_store)
  also have "\<dots> = (RingBuffer_list r @ [d]) ! i"
  proof (cases "i = RingBuffer_Size r")
    case True
    have "(RingBuffer_list r @ [d]) ! RingBuffer_Size r = d"
      by (metis length_RingBuffer_list nth_append_length)
    then show ?thesis using h True by simp
  next
    case False
    then have "i < RingBuffer_Size r" using i by simp
    then show ?thesis
      using h lt mod_add_neq [of i "RingBuffer_Size r" "BufferSize r" "tail r"]
      by (simp add: nth_append RingBuffer_list_nth)
  qed
  finally show "RingBuffer_list (ring_store r d) ! i = (RingBuffer_list r @ [d]) ! i" .
qed

lemma list_drop:
  assumes "ring_inv r" and "0 < RingBuffer_Size r"
  shows "RingBuffer_list r = buffer r ! tail r # RingBuffer_list (ring_drop r)"
proof (rule nth_equalityI)
  show "length (RingBuffer_list r) = length (buffer r ! tail r # RingBuffer_list (ring_drop r))"
    using assms by (simp add: Size_drop)
next
  fix i assume "i < length (RingBuffer_list r)"
  then have i: "i < RingBuffer_Size r" by simp
  show "RingBuffer_list r ! i = (buffer r ! tail r # RingBuffer_list (ring_drop r)) ! i"
  proof (cases i)
    case 0
    then show ?thesis using i assms by (simp add: RingBuffer_list_nth ring_inv_def)
  next
    case (Suc j)
    then show ?thesis
      using i assms by (simp add: RingBuffer_list_nth Size_drop mod_add_left_eq)
  qed
qed

lemma list_drop_tl:
  "ring_inv r \<Longrightarrow> 0 < RingBuffer_Size r \<Longrightarrow> RingBuffer_list (ring_drop r) = tl (RingBuffer_list r)"
  by (simp add: list_drop)

section \<open>The loops\<close>

lemma Write_loop_Suc:
  "\<not> full r \<Longrightarrow> RingBuffer_Write_loop r (d # ds) (Suc n) w =
     RingBuffer_Write_loop (ring_store r d) ds n (w + 1)"
  by (simp add: ring_store_def Let_def)

lemma Write_loop:
  assumes "ring_inv r" and "length ds = n"
  shows "\<exists>r'. RingBuffer_Write_loop r ds n w =
      Inr (w + min n (BufferSize r - RingBuffer_Size r), r') \<and>
    ring_inv r' \<and> BufferSize r' = BufferSize r \<and>
    RingBuffer_list r' = RingBuffer_list r @ take (BufferSize r - RingBuffer_Size r) ds"
  using assms
proof (induction ds arbitrary: r n w)
  case Nil
  then show ?case by simp
next
  case (Cons d ds)
  show ?case
  proof (cases "full r")
    case True
    then show ?thesis using Cons.prems full_iff_Size [of r] by (cases n) auto
  next
    case False
    let ?s = "ring_store r d"
    obtain m where m: "n = Suc m" "length ds = m" using Cons.prems(2) by auto
    have "ring_inv ?s" using Cons.prems(1) False by (rule ring_inv_store)
    then obtain r' where r': "RingBuffer_Write_loop ?s ds m (w + 1) =
        Inr (w + 1 + min m (BufferSize ?s - RingBuffer_Size ?s), r')"
      "ring_inv r'" "BufferSize r' = BufferSize ?s"
      "RingBuffer_list r' = RingBuffer_list ?s @ take (BufferSize ?s - RingBuffer_Size ?s) ds"
      using Cons.IH m(2) by blast
    have lt: "RingBuffer_Size r < BufferSize r"
      using RingBuffer_Size_bound [OF Cons.prems(1)] full_iff_Size [OF Cons.prems(1)] False by simp
    have sz: "BufferSize ?s - RingBuffer_Size ?s = BufferSize r - RingBuffer_Size r - 1"
      using Cons.prems(1) False by (simp add: Size_store)
    have tk: "take (BufferSize r - RingBuffer_Size r) (d # ds) =
        d # take (BufferSize r - RingBuffer_Size r - 1) ds"
      using lt by (simp add: take_Cons')
    have w: "w + 1 + min m (BufferSize r - RingBuffer_Size r - 1) =
        w + min n (BufferSize r - RingBuffer_Size r)"
      using m(1) lt by simp
    have "RingBuffer_Write_loop r (d # ds) n w =
        Inr (w + min n (BufferSize r - RingBuffer_Size r), r')"
      using r'(1) Write_loop_Suc [OF False, of d ds m w] sz w m(1) by simp
    moreover have "RingBuffer_list r' =
        RingBuffer_list r @ take (BufferSize r - RingBuffer_Size r) (d # ds)"
      using r'(4) sz tk list_store [OF Cons.prems(1) False] by simp
    ultimately show ?thesis using r'(2,3) by auto
  qed
qed

lemma take_Suc_update:
  "cnt < length out \<Longrightarrow> take (Suc cnt) (out[cnt := x]) = take cnt out @ [x]"
  by (simp add: take_Suc_conv_app_nth)

lemma Read_loop:
  assumes "ring_inv r" and "cnt + min n (RingBuffer_Size r) \<le> length out"
  shows "\<exists>r'. RingBuffer_Read_loop r out n cnt =
      Inr (cnt + min n (RingBuffer_Size r),
           take cnt out @ take n (RingBuffer_list r) @ drop (cnt + min n (RingBuffer_Size r)) out, r') \<and>
    ring_inv r' \<and> BufferSize r' = BufferSize r \<and> RingBuffer_list r' = drop n (RingBuffer_list r)"
  using assms
proof (induction n arbitrary: r out cnt)
  case 0
  then show ?case by simp
next
  case (Suc n)
  show ?case
  proof (cases "RingBuffer_Size r = 0")
    case True
    then have "RingBuffer_list r = []" by (metis length_0_conv length_RingBuffer_list)
    then show ?thesis using Suc.prems True by (simp add: IsEmpty_iff_Size)
  next
    case False
    then have pos: "0 < RingBuffer_Size r" by simp
    let ?d = "ring_drop r" and ?x = "buffer r ! tail r"
    have sz: "RingBuffer_Size ?d = RingBuffer_Size r - 1" by (rule Size_drop [OF Suc.prems(1) pos])
    have cnt: "cnt < length out" using Suc.prems(2) pos by simp
    have "cnt + 1 + min n (RingBuffer_Size ?d) \<le> length (out[cnt := ?x])"
      using Suc.prems(2) sz pos by simp
    then obtain r' where r': "RingBuffer_Read_loop ?d (out[cnt := ?x]) n (cnt + 1) =
        Inr (cnt + 1 + min n (RingBuffer_Size ?d), take (cnt + 1) (out[cnt := ?x]) @
          take n (RingBuffer_list ?d) @ drop (cnt + 1 + min n (RingBuffer_Size ?d)) (out[cnt := ?x]), r')"
      "ring_inv r'" "BufferSize r' = BufferSize ?d" "RingBuffer_list r' = drop n (RingBuffer_list ?d)"
      using Suc.IH [OF ring_inv_drop [OF Suc.prems(1)], of "cnt + 1" "out[cnt := ?x]"] by blast
    have step: "RingBuffer_Read_loop r out (Suc n) cnt =
        RingBuffer_Read_loop ?d (out[cnt := ?x]) n (cnt + 1)"
      using False cnt Suc.prems(1) by (simp add: IsEmpty_iff_Size ring_drop_def)
    have c: "cnt + 1 + min n (RingBuffer_Size ?d) = cnt + min (Suc n) (RingBuffer_Size r)"
      using sz pos by simp
    have lst: "RingBuffer_list r = ?x # RingBuffer_list ?d" by (rule list_drop [OF Suc.prems(1) pos])
    have "take (cnt + 1) (out[cnt := ?x]) @ take n (RingBuffer_list ?d) =
        take cnt out @ take (Suc n) (RingBuffer_list r)"
      using cnt by (simp add: lst take_Suc_update)
    moreover have "drop (cnt + min (Suc n) (RingBuffer_Size r)) (out[cnt := ?x]) =
        drop (cnt + min (Suc n) (RingBuffer_Size r)) out"
      using pos by simp
    ultimately have "RingBuffer_Read_loop r out (Suc n) cnt =
        Inr (cnt + min (Suc n) (RingBuffer_Size r), take cnt out @ take (Suc n) (RingBuffer_list r) @
          drop (cnt + min (Suc n) (RingBuffer_Size r)) out, r')"
      using r'(1) unfolding step c by (metis append.assoc)
    moreover have "RingBuffer_list r' = drop (Suc n) (RingBuffer_list r)"
      using r'(4) by (simp add: lst)
    ultimately show ?thesis using r'(2,3) by auto
  qed
qed

section \<open>The methods refine list operations\<close>

lemma WriteByte_cases:
  "RingBuffer_WriteByte r b = (if full r then (False, r) else (True, ring_store r b))"
  by (simp add: RingBuffer_WriteByte_def ring_store_def Let_def)

lemma Write_refines:
  assumes "ring_inv r" and "length ds = n"
  shows "\<exists>r'. RingBuffer_Write r (Some ds) n =
      Inr (min n (BufferSize r - RingBuffer_Size r), r') \<and>
    ring_inv r' \<and> BufferSize r' = BufferSize r \<and>
    RingBuffer_list r' = RingBuffer_list r @ take (BufferSize r - RingBuffer_Size r) ds"
  using Write_loop [OF assms, of 0] assms by (auto simp: RingBuffer_Write_def)

lemma Read_refines:
  assumes "ring_inv r" and "min n (RingBuffer_Size r) \<le> length out"
  shows "\<exists>r'. RingBuffer_Read r (Some out) n =
      Inr (min n (RingBuffer_Size r),
           take n (RingBuffer_list r) @ drop (min n (RingBuffer_Size r)) out, r') \<and>
    ring_inv r' \<and> BufferSize r' = BufferSize r \<and> RingBuffer_list r' = drop n (RingBuffer_list r)"
  using Read_loop [OF assms(1), of 0 n out] assms by (auto simp: RingBuffer_Read_def)

lemma Peek_refines:
  "ring_inv r \<Longrightarrow> RingBuffer_Peek r i =
     (if i < RingBuffer_Size r then Some (RingBuffer_list r ! i) else None)"
  by (auto simp: RingBuffer_Peek_def IsEmpty_iff_Size RingBuffer_list_nth)

lemma Clear_refines:
  "ring_inv r \<Longrightarrow> ring_inv (RingBuffer_Clear r) \<and>
     BufferSize (RingBuffer_Clear r) = BufferSize r \<and> RingBuffer_list (RingBuffer_Clear r) = []"
  by (simp add: RingBuffer_Clear_def ring_inv_def BufferSize_def RingBuffer_list_def RingBuffer_Size_def)

interpretation rb: byte_fifo ring_inv RingBuffer_list BufferSize RingBuffer_Write RingBuffer_Read
  RingBuffer_Peek RingBuffer_Clear
  using Write_refines Read_refines
  by unfold_locales (simp_all add: RingBuffer_Size_bound Peek_refines Clear_refines)

text \<open>Two writes leave the same bytes in the buffer as one write of their concatenation.\<close>

lemma fragmented_writes_equal_one:
  assumes "ring_inv r" and "RingBuffer_Write r (Some ds1) (length ds1) = Inr (n1, r1)"
    and "RingBuffer_Write r1 (Some ds2) (length ds2) = Inr (n2, r2)"
    and "RingBuffer_Write r (Some (ds1 @ ds2)) (length (ds1 @ ds2)) = Inr (n, r')"
  shows "RingBuffer_list r2 = RingBuffer_list r' \<and> n1 + n2 = n"
  using rb.write_write [OF assms] by simp

end
