(* ===== verification/User.thy ===== *)
theory User
  imports RingBuffer Packet
begin

text \<open>
  \<open>User.h\<close>: the user object of a connection slot. It owns the ring buffer the network thread fills
  (\<open>SetPacketData\<close>) and the logic thread empties packet by packet (\<open>GetPacket\<close>); both run under
  \<open>mPacketRingBuffMutex\<close>, so each is one atomic operation here. The lemmas show when \<open>GetPacket\<close>
  yields a packet, that it never leaves its temporary buffer, and that framing does not depend on
  how the stream was cut into segments.
\<close>

section \<open>The class\<close>

datatype DOMAIN_STATE = DS_NONE | DS_LOGIN | DS_ROOM

fun domain_val :: "DOMAIN_STATE \<Rightarrow> nat" where
  "domain_val DS_NONE = 0" | "domain_val DS_LOGIN = 1" | "domain_val DS_ROOM = 2"

text \<open>The enumeration is ordered by its numbers: a connection's progress through the protocol.\<close>

instantiation DOMAIN_STATE :: linorder
begin

definition less_eq_DOMAIN_STATE :: "DOMAIN_STATE \<Rightarrow> DOMAIN_STATE \<Rightarrow> bool" where
  "less_eq_DOMAIN_STATE a b \<longleftrightarrow> domain_val a \<le> domain_val b"

definition less_DOMAIN_STATE :: "DOMAIN_STATE \<Rightarrow> DOMAIN_STATE \<Rightarrow> bool" where
  "less_DOMAIN_STATE a b \<longleftrightarrow> domain_val a < domain_val b"

instance
proof
  fix a b :: DOMAIN_STATE
  show "a \<le> b \<Longrightarrow> b \<le> a \<Longrightarrow> a = b"
    by (cases a; cases b) (simp_all add: less_eq_DOMAIN_STATE_def)
qed (auto simp: less_eq_DOMAIN_STATE_def less_DOMAIN_STATE_def)

end

lemma DOMAIN_STATE_less_simps [simp]:
  "DS_LOGIN \<le> d \<longleftrightarrow> d \<noteq> DS_NONE" "d < DS_LOGIN \<longleftrightarrow> d = DS_NONE"
  by (cases d; simp add: less_eq_DOMAIN_STATE_def less_DOMAIN_STATE_def)+

definition MAX_PACKET_DATA_BUFFER_SIZE :: nat where
  "MAX_PACKET_DATA_BUFFER_SIZE = 8096"

record user =
  mIndex :: int
  mUserID :: "byte list"
  mIsconfirm :: bool
  roomIndex :: int
  mGeneration :: UINT32
  mAuthToken :: "byte list"
  mCurDomainState :: DOMAIN_STATE
  mPacketDataBuffer :: ring
  m_tempPacketBuffer :: "byte list"

text \<open>
  \<open>new User\<close>: the default member initialisers; the two character arrays are uninitialised, their
  bytes are the arguments.
\<close>

definition User_new :: "(nat \<Rightarrow> byte) \<Rightarrow> (nat \<Rightarrow> byte) \<Rightarrow> user" where
  "User_new ringmem tempmem =
     \<lparr>mIndex = -1, mUserID = [], mIsconfirm = False, roomIndex = -1, mGeneration = 0,
      mAuthToken = [], mCurDomainState = DS_NONE,
      mPacketDataBuffer = RingBuffer_new (map ringmem [0..<MAX_PACKET_DATA_BUFFER_SIZE]),
      m_tempPacketBuffer = map tempmem [0..<MAX_PACKET_DATA_BUFFER_SIZE]\<rparr>"

definition User_Init :: "user \<Rightarrow> nat \<Rightarrow> user" where
  "User_Init u index =
     u\<lparr>mIndex := int index, mPacketDataBuffer := RingBuffer_Clear (mPacketDataBuffer u)\<rparr>"

definition User_Clear :: "user \<Rightarrow> user" where
  "User_Clear u =
     u\<lparr>mUserID := [], mIsconfirm := False, mAuthToken := [], mCurDomainState := DS_NONE,
       mPacketDataBuffer := RingBuffer_Clear (mPacketDataBuffer u)\<rparr>"

definition User_GetUserID :: "user \<Rightarrow> byte list" where
  "User_GetUserID u = mUserID u"

text \<open>\<open>userID_\<close> is a \<open>char*\<close>; the assignment to \<open>std::string\<close> reads up to the NUL.\<close>

definition User_SetLogin :: "user \<Rightarrow> byte list \<Rightarrow> user result" where
  "User_SetLogin u userID =
     bindr (c_str userID) (\<lambda>s. Inr (u\<lparr>mCurDomainState := DS_LOGIN, mUserID := s\<rparr>))"

definition User_SetDomainState :: "user \<Rightarrow> DOMAIN_STATE \<Rightarrow> user" where
  "User_SetDomainState u v = u\<lparr>mCurDomainState := v\<rparr>"

definition User_GetNetConnIndex :: "user \<Rightarrow> int" where
  "User_GetNetConnIndex u = mIndex u"

definition User_GetGeneration :: "user \<Rightarrow> UINT32" where
  "User_GetGeneration u = mGeneration u"

definition User_GetDomainState :: "user \<Rightarrow> DOMAIN_STATE" where
  "User_GetDomainState u = mCurDomainState u"

text \<open>
  \<open>SetPacketData\<close>: a short write is only logged, the bytes that did not fit are gone.
\<close>

definition User_SetPacketData :: "user \<Rightarrow> nat \<Rightarrow> byte list option \<Rightarrow> user result" where
  "User_SetPacketData u dataSize pData =
     (if pData = None \<or> dataSize = 0 then Inr u
      else bindr (RingBuffer_Write (mPacketDataBuffer u) pData dataSize) (\<lambda>(written, rb).
        Inr (u\<lparr>mPacketDataBuffer := rb\<rparr>)))"

text \<open>The loop that peeks the header into \<open>headerBuffer\<close>; \<open>None\<close> when a peek fails.\<close>

fun peek_header :: "ring \<Rightarrow> nat \<Rightarrow> nat \<Rightarrow> byte list option" where
  "peek_header rb i 0 = Some []"
| "peek_header rb i (Suc n) =
     (case RingBuffer_Peek rb i of
        None \<Rightarrow> None
      | Some b \<Rightarrow> map_option (\<lambda>bs. b # bs) (peek_header rb (i + 1) n))"

definition User_GetPacket :: "user \<Rightarrow> (user \<times> PacketInfo) result" where
  "User_GetPacket u =
     (let rb = mPacketDataBuffer u in
      if RingBuffer_Size rb < PACKET_HEADER_LENGTH then Inr (u, PacketInfo_default)
      else case peek_header rb 0 PACKET_HEADER_LENGTH of
        None \<Rightarrow> Inr (u, PacketInfo_default)
      | Some headerBuffer \<Rightarrow>
          bindr (PACKET_HEADER_of headerBuffer) (\<lambda>h.
            let len = unat (PacketLength h) in
            if len > RingBuffer_Size rb then Inr (u, PacketInfo_default)
            else bindr (RingBuffer_Read rb (Some (m_tempPacketBuffer u)) len)
              (\<lambda>(readBytes, temp, rb').
                let u' = u\<lparr>mPacketDataBuffer := rb', m_tempPacketBuffer := temp\<rparr> in
                if readBytes \<noteq> len then Inr (u', PacketInfo_default)
                else Inr (u', \<lparr>ClientIndex = 0, PacketId = ucast (HeaderPacketId h),
                               DataSize = ucast (PacketLength h),
                               pDataPtr = TempBuf (nat (mIndex u))\<rparr>))))"

definition User_EnterRoom :: "user \<Rightarrow> int \<Rightarrow> user" where
  "User_EnterRoom u room = u\<lparr>roomIndex := room, mCurDomainState := DS_ROOM\<rparr>"

definition User_GetRoomIndex :: "user \<Rightarrow> int" where
  "User_GetRoomIndex u = roomIndex u"

definition User_GetBufferSize :: "user \<Rightarrow> nat" where
  "User_GetBufferSize u = RingBuffer_Size (mPacketDataBuffer u)"

definition User_IsBufferEmpty :: "user \<Rightarrow> bool" where
  "User_IsBufferEmpty u = RingBuffer_IsEmpty (mPacketDataBuffer u)"

definition User_IsBufferFull :: "user \<Rightarrow> bool" where
  "User_IsBufferFull u = RingBuffer_IsFull (mPacketDataBuffer u)"

definition User_IncrementGeneration :: "user \<Rightarrow> user" where
  "User_IncrementGeneration u = u\<lparr>mGeneration := mGeneration u + 1\<rparr>"

lemmas user_ops = User_GetUserID_def User_SetDomainState_def User_GetNetConnIndex_def
  User_GetGeneration_def User_GetDomainState_def User_EnterRoom_def User_GetRoomIndex_def
  User_IncrementGeneration_def User_Clear_def User_Init_def

section \<open>Invariant\<close>

text \<open>
  The ring buffer is well formed and the temporary buffer is as large as the ring buffer (both are
  \<open>MAX_PACKET_DATA_BUFFER_SIZE\<close> in the code).
\<close>

definition user_inv :: "user \<Rightarrow> bool" where
  "user_inv u \<longleftrightarrow> ring_inv (mPacketDataBuffer u) \<and>
     length (m_tempPacketBuffer u) = BufferSize (mPacketDataBuffer u)"

definition user_bytes :: "user \<Rightarrow> byte list" where
  "user_bytes u = RingBuffer_list (mPacketDataBuffer u)"

definition user_free :: "user \<Rightarrow> nat" where
  "user_free u = BufferSize (mPacketDataBuffer u) - RingBuffer_Size (mPacketDataBuffer u)"

lemma length_user_bytes: "length (user_bytes u) = RingBuffer_Size (mPacketDataBuffer u)"
  by (simp add: user_bytes_def)

lemma user_inv_new: "user_inv (User_Init (User_new ringmem tempmem) i)"
  by (simp add: user_inv_def User_new_def User_Init_def ring_inv_def RingBuffer_Clear_def
      RingBuffer_new_def BufferSize_def MAX_PACKET_DATA_BUFFER_SIZE_def)

lemma user_bytes_new: "user_bytes (User_Init (User_new ringmem tempmem) i) = []"
  by (simp add: user_bytes_def User_new_def User_Init_def RingBuffer_Clear_def RingBuffer_list_def
      RingBuffer_Size_def)

lemma user_inv_Clear: "user_inv u \<Longrightarrow> user_inv (User_Clear u)"
  by (simp add: user_inv_def User_Clear_def Clear_refines)

lemma user_inv_setters:
  assumes "user_inv u"
  shows "user_inv (User_Init u i)" and "user_inv (User_SetDomainState u d)" and "user_inv (User_IncrementGeneration u)"
    and "user_inv (User_EnterRoom u r)"
  using assms by (simp_all add: user_inv_def User_Init_def User_SetDomainState_def User_IncrementGeneration_def
      User_EnterRoom_def Clear_refines)

text \<open>The one setter that reads memory: without a terminator the read leaves the object.\<close>

lemma SetLogin_total:
  assumes "user_inv u"
  shows "0 \<in> set name \<Longrightarrow> \<exists>u'. User_SetLogin u name = Inr u' \<and> user_inv u'"
    and "0 \<notin> set name \<Longrightarrow> \<exists>e. User_SetLogin u name = Inl e"
proof -
  show "\<exists>u'. User_SetLogin u name = Inr u' \<and> user_inv u'" if "0 \<in> set name"
    using c_str_defined [OF that] assms by (auto simp: User_SetLogin_def user_inv_def)
  show "\<exists>e. User_SetLogin u name = Inl e" if "0 \<notin> set name"
    using that by (cases "c_str name") (auto simp: User_SetLogin_def c_str_eq_Inr)
qed

lemma user_bytes_Clear: "user_inv u \<Longrightarrow> user_bytes (User_Clear u) = []"
  by (simp add: user_inv_def User_Clear_def user_bytes_def Clear_refines)

lemma user_inv_cong:
  "mPacketDataBuffer u' = mPacketDataBuffer u \<Longrightarrow> m_tempPacketBuffer u' = m_tempPacketBuffer u \<Longrightarrow>
     user_inv u' \<longleftrightarrow> user_inv u"
  by (simp add: user_inv_def)

lemma user_inv_frame [simp]:
  "user_inv (u\<lparr>mCurDomainState := d\<rparr>) \<longleftrightarrow> user_inv u"
  "user_inv (u\<lparr>mUserID := s\<rparr>) \<longleftrightarrow> user_inv u"
  "user_inv (u\<lparr>roomIndex := i\<rparr>) \<longleftrightarrow> user_inv u"
  "user_inv (u\<lparr>mGeneration := g\<rparr>) \<longleftrightarrow> user_inv u"
  by (simp_all add: user_inv_def)

section \<open>Storing received bytes\<close>

lemma SetPacketData_refines:
  assumes "user_inv u" and "length ds = n"
  shows "\<exists>rb. User_SetPacketData u n (Some ds) = Inr (u\<lparr>mPacketDataBuffer := rb\<rparr>) \<and>
    user_inv (u\<lparr>mPacketDataBuffer := rb\<rparr>) \<and> BufferSize rb = BufferSize (mPacketDataBuffer u) \<and>
    RingBuffer_list rb = user_bytes u @ take (user_free u) ds"
proof -
  have inv: "ring_inv (mPacketDataBuffer u)" using assms(1) by (simp add: user_inv_def)
  show ?thesis
  proof (cases "n = 0")
    case True
    then have "User_SetPacketData u n (Some ds) = Inr (u\<lparr>mPacketDataBuffer := mPacketDataBuffer u\<rparr>)"
      by (simp add: User_SetPacketData_def)
    then show ?thesis
      using assms True by (intro exI [of _ "mPacketDataBuffer u"]) (simp add: user_bytes_def)
  next
    case False
    obtain rb where rb: "RingBuffer_Write (mPacketDataBuffer u) (Some ds) n =
        Inr (min n (user_free u), rb)" "ring_inv rb" "BufferSize rb = BufferSize (mPacketDataBuffer u)"
      "RingBuffer_list rb = user_bytes u @ take (user_free u) ds"
      using Write_refines [OF inv assms(2)] by (auto simp: user_free_def user_bytes_def)
    then show ?thesis
      using False assms(1) by (auto simp: User_SetPacketData_def user_inv_def)
  qed
qed

lemma SetPacketData_bytes:
  assumes "user_inv u" and "User_SetPacketData u (length ds) (Some ds) = Inr u'"
  shows "user_inv u'" and "user_bytes u' = user_bytes u @ take (user_free u) ds"
    and "BufferSize (mPacketDataBuffer u') = BufferSize (mPacketDataBuffer u)"
  using SetPacketData_refines [OF assms(1) refl, of ds] assms(2) by (auto simp: user_bytes_def)

lemma SetPacketData_total:
  assumes "user_inv u"
  shows "\<exists>u'. User_SetPacketData u (length ds) (Some ds) = Inr u' \<and> user_inv u' \<and>
    length (user_bytes u') \<le> BufferSize (mPacketDataBuffer u)"
proof -
  obtain rb where s: "User_SetPacketData u (length ds) (Some ds) = Inr (u\<lparr>mPacketDataBuffer := rb\<rparr>)"
    "user_inv (u\<lparr>mPacketDataBuffer := rb\<rparr>)" "BufferSize rb = BufferSize (mPacketDataBuffer u)"
    using SetPacketData_refines [OF assms refl] by blast
  have "length (user_bytes (u\<lparr>mPacketDataBuffer := rb\<rparr>)) \<le> BufferSize rb"
    using s(2) by (simp add: length_user_bytes user_inv_def RingBuffer_Size_bound)
  then show ?thesis using s by simp
qed

lemma SetPacketData_frame:
  "User_SetPacketData u n p = Inr u' \<Longrightarrow> \<exists>rb. u' = u\<lparr>mPacketDataBuffer := rb\<rparr>"
proof (cases "p = None \<or> n = 0")
  case True
  assume "User_SetPacketData u n p = Inr u'"
  then have "u' = u\<lparr>mPacketDataBuffer := mPacketDataBuffer u\<rparr>"
    using True by (simp add: User_SetPacketData_def)
  then show ?thesis ..
next
  case False
  assume "User_SetPacketData u n p = Inr u'"
  then show ?thesis using False by (auto simp: User_SetPacketData_def result_simps)
qed

section \<open>Taking a packet out\<close>

lemma peek_header_eq:
  assumes "ring_inv rb" and "i + n \<le> RingBuffer_Size rb"
  shows "peek_header rb i n = Some (take n (drop i (RingBuffer_list rb)))"
  using assms(2)
proof (induction n arbitrary: i)
  case 0
  then show ?case by simp
next
  case (Suc n)
  have "RingBuffer_Peek rb i = Some (RingBuffer_list rb ! i)"
    using Suc.prems assms(1) by (simp add: Peek_refines)
  moreover have "peek_header rb (i + 1) n = Some (take n (drop (i + 1) (RingBuffer_list rb)))"
    by (rule Suc.IH) (use Suc.prems in simp)
  moreover have "take (Suc n) (drop i (RingBuffer_list rb)) =
      RingBuffer_list rb ! i # take n (drop (i + 1) (RingBuffer_list rb))"
    using Suc.prems by (simp add: Cons_nth_drop_Suc [symmetric])
  ultimately show ?case by simp
qed

text \<open>The two numbers a buffer that holds at least a header starts with.\<close>

definition frame_length :: "byte list \<Rightarrow> nat" where
  "frame_length bs = of_le (take 2 bs)"

definition frame_id :: "byte list \<Rightarrow> UINT16" where
  "frame_id bs = of_nat (of_le (take 2 (drop 2 bs)))"

lemma frame_length_bound: "frame_length bs < 2 ^ 16"
proof -
  have "of_le (take 2 bs) < 256 ^ length (take 2 bs)" by (rule of_le_bound)
  also have "\<dots> \<le> (256 :: nat) ^ 2" by (rule power_increasing) simp_all
  finally show ?thesis by (simp add: frame_length_def)
qed

lemma PACKET_HEADER_of_frame:
  assumes "PACKET_HEADER_LENGTH \<le> length bs"
  shows "PACKET_HEADER_of (take PACKET_HEADER_LENGTH bs) =
    Inr \<lparr>PacketLength = of_nat (frame_length bs), HeaderPacketId = frame_id bs, PacketType = bs ! 4\<rparr>"
  using assms
  by (simp add: PACKET_HEADER_of_def get_UINT16_def packet_consts frame_length_def frame_id_def
      drop_take min_def)

text \<open>
  One equation for \<open>GetPacket\<close> on a well-formed user: no packet while the header or the announced
  length is incomplete, else exactly the announced bytes leave the buffer, into the start of the
  temporary buffer. In particular it never faults.
\<close>

lemma GetPacket_incomplete:
  assumes "user_inv u"
    and "length (user_bytes u) < PACKET_HEADER_LENGTH \<or>
         length (user_bytes u) < frame_length (user_bytes u)"
  shows "User_GetPacket u = Inr (u, PacketInfo_default)"
proof (cases "length (user_bytes u) < PACKET_HEADER_LENGTH")
  case True
  then show ?thesis by (simp add: User_GetPacket_def length_user_bytes)
next
  case False
  let ?rb = "mPacketDataBuffer u"
  have "peek_header ?rb 0 PACKET_HEADER_LENGTH = Some (take PACKET_HEADER_LENGTH (user_bytes u))"
    using assms(1) False by (simp add: peek_header_eq user_inv_def length_user_bytes user_bytes_def)
  then show ?thesis
    using False assms(2) frame_length_bound [of "user_bytes u"]
    by (simp add: User_GetPacket_def PACKET_HEADER_of_frame length_user_bytes Let_def
        unat_of_nat)
qed

lemma GetPacket_complete:
  assumes "user_inv u" and "PACKET_HEADER_LENGTH \<le> length (user_bytes u)"
    and "frame_length (user_bytes u) \<le> length (user_bytes u)"
  shows "\<exists>u'. User_GetPacket u = Inr (u', \<lparr>ClientIndex = 0, PacketId = ucast (frame_id (user_bytes u)),
      DataSize = of_nat (frame_length (user_bytes u)), pDataPtr = TempBuf (nat (mIndex u))\<rparr>) \<and>
    user_inv u' \<and> user_bytes u' = drop (frame_length (user_bytes u)) (user_bytes u) \<and>
    m_tempPacketBuffer u' = take (frame_length (user_bytes u)) (user_bytes u) @
      drop (frame_length (user_bytes u)) (m_tempPacketBuffer u) \<and>
    (\<exists>rb t. u' = u\<lparr>mPacketDataBuffer := rb, m_tempPacketBuffer := t\<rparr>) \<and>
    BufferSize (mPacketDataBuffer u') = BufferSize (mPacketDataBuffer u)"
proof -
  let ?rb = "mPacketDataBuffer u" and ?n = "frame_length (user_bytes u)"
  have inv: "ring_inv ?rb" and temp: "length (m_tempPacketBuffer u) = BufferSize ?rb"
    using assms(1) by (simp_all add: user_inv_def)
  have ph: "peek_header ?rb 0 PACKET_HEADER_LENGTH = Some (take PACKET_HEADER_LENGTH (user_bytes u))"
    using inv assms(2) by (simp add: peek_header_eq length_user_bytes user_bytes_def)
  have n: "?n \<le> RingBuffer_Size ?rb" using assms(3) by (simp add: length_user_bytes)
  have "min ?n (RingBuffer_Size ?rb) \<le> length (m_tempPacketBuffer u)"
    using RingBuffer_Size_bound [OF inv] temp by simp
  then obtain rb' where rd: "RingBuffer_Read ?rb (Some (m_tempPacketBuffer u)) ?n =
      Inr (?n, take ?n (user_bytes u) @ drop ?n (m_tempPacketBuffer u), rb')"
    "ring_inv rb'" "BufferSize rb' = BufferSize ?rb" "RingBuffer_list rb' = drop ?n (user_bytes u)"
    using Read_refines [OF inv, of ?n "m_tempPacketBuffer u"] n by (auto simp: user_bytes_def min_absorb1)
  have un: "unat (of_nat ?n :: UINT16) = ?n"
    using frame_length_bound [of "user_bytes u"] by (simp add: unat_of_nat)
  then have uc: "(ucast (of_nat ?n :: UINT16) :: UINT32) = of_nat ?n"
    by (metis of_nat_unat)
  let ?u' = "u\<lparr>mPacketDataBuffer := rb',
    m_tempPacketBuffer := take ?n (user_bytes u) @ drop ?n (m_tempPacketBuffer u)\<rparr>"
  have "User_GetPacket u = Inr (?u', \<lparr>ClientIndex = 0, PacketId = ucast (frame_id (user_bytes u)),
      DataSize = of_nat ?n, pDataPtr = TempBuf (nat (mIndex u))\<rparr>)"
    using assms(2) n un uc rd(1) ph
    by (simp add: User_GetPacket_def PACKET_HEADER_of_frame length_user_bytes Let_def)
  moreover have "user_inv ?u'"
    using rd(2,3) temp n RingBuffer_Size_bound [OF inv]
    by (simp add: user_inv_def length_user_bytes)
  moreover have "user_bytes ?u' = drop ?n (user_bytes u)"
    using rd(4) by (simp add: user_bytes_def)
  ultimately show ?thesis using rd(3) by auto
qed

lemma GetPacket_cases:
  assumes "user_inv u"
  obtains (incomplete) "User_GetPacket u = Inr (u, PacketInfo_default)"
    "length (user_bytes u) < PACKET_HEADER_LENGTH \<or>
     length (user_bytes u) < frame_length (user_bytes u)"
  | (complete) u' pk where "User_GetPacket u = Inr (u', pk)"
    "PACKET_HEADER_LENGTH \<le> length (user_bytes u)"
    "frame_length (user_bytes u) \<le> length (user_bytes u)"
    "pk = \<lparr>ClientIndex = 0, PacketId = ucast (frame_id (user_bytes u)),
      DataSize = of_nat (frame_length (user_bytes u)), pDataPtr = TempBuf (nat (mIndex u))\<rparr>"
    "user_inv u'" "user_bytes u' = drop (frame_length (user_bytes u)) (user_bytes u)"
    "m_tempPacketBuffer u' = take (frame_length (user_bytes u)) (user_bytes u) @
      drop (frame_length (user_bytes u)) (m_tempPacketBuffer u)"
    "\<exists>rb t. u' = u\<lparr>mPacketDataBuffer := rb, m_tempPacketBuffer := t\<rparr>"
    "BufferSize (mPacketDataBuffer u') = BufferSize (mPacketDataBuffer u)"
proof (cases "length (user_bytes u) < PACKET_HEADER_LENGTH \<or>
    length (user_bytes u) < frame_length (user_bytes u)")
  case True
  then show ?thesis using GetPacket_incomplete [OF assms] incomplete by blast
next
  case False
  then show ?thesis using GetPacket_complete [OF assms] complete by (metis not_less)
qed

lemma GetPacket_no_fault: "user_inv u \<Longrightarrow> \<exists>u' pk. User_GetPacket u = Inr (u', pk)"
  by (erule GetPacket_cases) blast+

lemma GetPacket_frame:
  assumes "user_inv u" and "User_GetPacket u = Inr (u', pk)"
  shows "user_inv u'" and "\<exists>rb t. u' = u\<lparr>mPacketDataBuffer := rb, m_tempPacketBuffer := t\<rparr>"
    and "BufferSize (mPacketDataBuffer u') = BufferSize (mPacketDataBuffer u)"
proof -
  have "user_inv u' \<and> (\<exists>rb t. u' = u\<lparr>mPacketDataBuffer := rb, m_tempPacketBuffer := t\<rparr>) \<and>
    BufferSize (mPacketDataBuffer u') = BufferSize (mPacketDataBuffer u)"
  proof (rule GetPacket_cases [OF assms(1)])
    assume "User_GetPacket u = Inr (u, PacketInfo_default)"
    then have "u' = u" using assms(2) by simp
    moreover have "u = u\<lparr>mPacketDataBuffer := mPacketDataBuffer u,
        m_tempPacketBuffer := m_tempPacketBuffer u\<rparr>" by simp
    ultimately show ?thesis using assms(1) by metis
  next
    fix v vk
    assume "User_GetPacket u = Inr (v, vk)" "user_inv v"
      "\<exists>rb t. v = u\<lparr>mPacketDataBuffer := rb, m_tempPacketBuffer := t\<rparr>"
      "BufferSize (mPacketDataBuffer v) = BufferSize (mPacketDataBuffer u)"
    then show ?thesis using assms(2) by simp
  qed
  then show "user_inv u'"
    "\<exists>rb t. u' = u\<lparr>mPacketDataBuffer := rb, m_tempPacketBuffer := t\<rparr>"
    "BufferSize (mPacketDataBuffer u') = BufferSize (mPacketDataBuffer u)"
    by blast+
qed

section \<open>Framing a stream\<close>

text \<open>
  The packets at the front of a byte stream, by the framing rule alone, and what is left over. A zero
  length never advances, so the rule stops there; so does an identifier of 0, which the logic thread
  takes for "no packet".
\<close>

function split_stream :: "byte list \<Rightarrow> byte list list \<times> byte list" where
  "split_stream bs =
     (if PACKET_HEADER_LENGTH \<le> length bs \<and> frame_length bs \<le> length bs \<and>
         0 < frame_length bs \<and> frame_id bs \<noteq> 0
      then let (pks, rest) = split_stream (drop (frame_length bs) bs)
           in (take (frame_length bs) bs # pks, rest)
      else ([], bs))"
  by pat_completeness auto
termination
  by (relation "measure length") (auto simp: packet_consts)

declare split_stream.simps [simp del]

text \<open>A packet as a client sends it: its header announces its own length and a non-zero identifier.\<close>

definition wf_packet :: "byte list \<Rightarrow> bool" where
  "wf_packet p \<longleftrightarrow> PACKET_HEADER_LENGTH \<le> length p \<and> frame_length p = length p \<and> frame_id p \<noteq> 0"

lemma frame_append:
  "PACKET_HEADER_LENGTH \<le> length p \<Longrightarrow> frame_length (p @ rest) = frame_length p"
  "PACKET_HEADER_LENGTH \<le> length p \<Longrightarrow> frame_id (p @ rest) = frame_id p"
  by (simp_all add: frame_length_def frame_id_def packet_consts)

lemma split_stream_wf:
  "wf_packet p \<Longrightarrow> split_stream (p @ rest) =
     (let (pks, r) = split_stream rest in (p # pks, r))"
  by (subst split_stream.simps)
    (auto simp: wf_packet_def frame_append packet_consts split: prod.splits)

lemma split_stream_concat:
  "list_all wf_packet ps \<Longrightarrow> split_stream (concat ps @ rest) =
     (let (pks, r) = split_stream rest in (ps @ pks, r))"
  by (induction ps) (auto simp: split_stream_wf split: prod.splits)

lemma split_stream_concat_id: "concat (fst (split_stream bs)) @ snd (split_stream bs) = bs"
proof (induction bs rule: split_stream.induct)
  case (1 bs)
  then show ?case
    by (subst (1 2) split_stream.simps) (auto simp: Let_def split: prod.splits)
qed

text \<open>Cutting the stream anywhere does not change the packets.\<close>

lemma frame_take_append:
  assumes "PACKET_HEADER_LENGTH \<le> length bs"
  shows "frame_length (bs @ cs) = frame_length bs" "frame_id (bs @ cs) = frame_id bs"
  using assms by (rule frame_append)+

lemma split_stream_append:
  "split_stream (bs @ cs) =
     (case split_stream bs of (p1, r1) \<Rightarrow> case split_stream (r1 @ cs) of (p2, r2) \<Rightarrow> (p1 @ p2, r2))"
proof (induction bs rule: split_stream.induct)
  case (1 bs)
  show ?case
  proof (cases "PACKET_HEADER_LENGTH \<le> length bs \<and> frame_length bs \<le> length bs \<and>
      0 < frame_length bs \<and> frame_id bs \<noteq> 0")
    case True
    have "split_stream (bs @ cs) = (let (pks, rest) = split_stream (drop (frame_length bs) bs @ cs)
        in (take (frame_length bs) bs # pks, rest))"
      by (subst split_stream.simps) (use True in \<open>simp add: frame_take_append\<close>)
    moreover have "split_stream bs = (let (pks, rest) = split_stream (drop (frame_length bs) bs)
        in (take (frame_length bs) bs # pks, rest))"
      by (subst split_stream.simps) (use True in simp)
    ultimately show ?thesis using 1 [OF True] by (simp split: prod.splits)
  next
    case False
    then have "split_stream bs = ([], bs)"
      by (subst split_stream.simps) (rule if_not_P)
    then show ?thesis by (simp split: prod.splits)
  qed
qed

lemma split_stream_incomplete:
  "length bs < PACKET_HEADER_LENGTH \<or> length bs < frame_length bs \<Longrightarrow> split_stream bs = ([], bs)"
  by (subst split_stream.simps) auto

text \<open>What \<open>GetPacket\<close> does on any buffered bytes.\<close>

lemma GetPacket_effects:
  assumes "user_inv u"
  shows "\<exists>u' pk. User_GetPacket u = Inr (u', pk) \<and> user_inv u' \<and> unat (DataSize pk) < 2 ^ 16 \<and>
    unat (DataSize pk) \<le> length (user_bytes u) \<and> user_bytes u' = drop (unat (DataSize pk)) (user_bytes u) \<and>
    take (unat (DataSize pk)) (m_tempPacketBuffer u') = take (unat (DataSize pk)) (user_bytes u)"
proof (cases "PACKET_HEADER_LENGTH \<le> length (user_bytes u) \<and> frame_length (user_bytes u) \<le> length (user_bytes u)")
  case False
  then have "User_GetPacket u = Inr (u, PacketInfo_default)"
    using assms by (intro GetPacket_incomplete) auto
  then show ?thesis using assms by (auto simp: PacketInfo_default_def)
next
  case True
  let ?n = "frame_length (user_bytes u)"
  have "?n < 2 ^ 16" by (rule frame_length_bound)
  then have "unat (of_nat ?n :: UINT32) = ?n" by (simp add: unat_of_nat)
  then show ?thesis using GetPacket_complete [OF assms] True \<open>?n < 2 ^ 16\<close> by fastforce
qed

end
