(* ===== verification/LoginRegistry.thy ===== *)
theory LoginRegistry
  imports Packet
begin

text \<open>
  The interface through which the packet handlers use the user manager: a registry of the users
  that are logged in, by name. Names are strings without NUL; the registering call takes them as
  C strings. The laws say what a lookup returns after each operation.
\<close>

locale login_registry =
  fixes ok :: "'m \<Rightarrow> bool"
    and lookup :: "'m \<Rightarrow> byte list \<Rightarrow> int option"
    and name_of :: "'m \<Rightarrow> nat \<Rightarrow> byte list"
    and slots :: "'m \<Rightarrow> nat"
    and register :: "'m \<Rightarrow> byte list \<Rightarrow> nat \<Rightarrow> (ERROR_CODE \<times> 'm) result"
    and unregister :: "'m \<Rightarrow> nat \<Rightarrow> 'm result"
  assumes register_new: "ok m \<Longrightarrow> i < slots m \<Longrightarrow> c_str p = Inr s \<Longrightarrow> lookup m s = None \<Longrightarrow>
      \<exists>m'. register m p i = Inr (EC_NONE, m') \<and> ok m' \<and> slots m' = slots m \<and>
        lookup m' = (lookup m)(s \<mapsto> int i) \<and> name_of m' = (name_of m)(i := s)"
    and register_taken: "ok m \<Longrightarrow> c_str p = Inr s \<Longrightarrow> lookup m s = Some k \<Longrightarrow>
      register m p i = Inr (LOGIN_USER_ALREADY, m)"
    and unregister_law: "ok m \<Longrightarrow> i < slots m \<Longrightarrow>
      \<exists>m'. unregister m i = Inr m' \<and> ok m' \<and> slots m' = slots m \<and>
        lookup m' = (lookup m)(name_of m i := None) \<and> name_of m' = (name_of m)(i := [])"
begin

lemma register_no_fault:
  assumes "ok m" and "i < slots m" and "c_str p = Inr s"
  shows "\<exists>e m'. register m p i = Inr (e, m') \<and> ok m' \<and> slots m' = slots m"
  using register_new [OF assms] register_taken [OF assms(1,3)] assms(1) by (cases "lookup m s") auto

lemma register_twice:
  assumes "ok m" and "i < slots m" and "c_str p = Inr s" and "register m p i = Inr (EC_NONE, m')"
    and "ok m' \<Longrightarrow> c_str p' = Inr s"
  shows "register m' p' j = Inr (LOGIN_USER_ALREADY, m')"
proof (cases "lookup m s")
  case None
  then obtain m1 where "register m p i = Inr (EC_NONE, m1)" "ok m1"
    "lookup m1 = (lookup m)(s \<mapsto> int i)"
    using register_new [OF assms(1-3)] by blast
  then have "ok m'" "lookup m' s = Some (int i)" using assms(4) by auto
  then show ?thesis using register_taken assms(5) by blast
next
  case (Some k)
  then show ?thesis using register_taken [OF assms(1,3), of k i] assms(4) by simp
qed

lemma register_unregister:
  assumes "ok m" and "i < slots m" and "c_str p = Inr s" and "lookup m s = None"
    and "register m p i = Inr (e, m1)" and "unregister m1 i = Inr m2"
  shows "lookup m2 = lookup m" and "e = EC_NONE"
proof -
  obtain m' where m': "register m p i = Inr (EC_NONE, m')" "ok m'" "slots m' = slots m"
    "lookup m' = (lookup m)(s \<mapsto> int i)" "name_of m' = (name_of m)(i := s)"
    using register_new [OF assms(1-4)] by blast
  then have m1: "m1 = m'" and e: "e = EC_NONE" using assms(5) by auto
  then show "e = EC_NONE" by simp
  show "lookup m2 = lookup m"
    using unregister_law [OF m'(2), of i] m' assms(2,4,6) m1 by (auto simp: fun_eq_iff)
qed

end

end
