(* ===== verification/UserManager.thy ===== *)
theory UserManager
  imports User LoginRegistry
begin

text \<open>
  \<open>UserManager.h\<close>: the pool of user objects, one per connection slot, and the dictionary from the
  name of a logged-in user to its slot. A \<open>User*\<close> is the slot of the object in the pool. The last
  part interprets the interface \<open>login_registry\<close> on these operations.
\<close>

record UserManager =
  mCurrentUserCnt :: int
  mMaxUserCnt :: int
  mUserObjPool :: "user list"
  mUserIDDictionary :: "byte list \<Rightarrow> int option"

text \<open>The uninitialised memory the user objects are created in, by slot.\<close>

type_synonym user_memory = "nat \<Rightarrow> (nat \<Rightarrow> byte) \<times> (nat \<Rightarrow> byte)"

definition UserManager_Init :: "user_memory \<Rightarrow> nat \<Rightarrow> UserManager" where
  "UserManager_Init mem maxUserCount =
     \<lparr>mCurrentUserCnt = 0, mMaxUserCnt = int maxUserCount,
      mUserObjPool =
        map (\<lambda>i. User_Init (User_new (fst (mem i)) (snd (mem i))) i) [0..<maxUserCount],
      mUserIDDictionary = Map.empty\<rparr>"

definition UserManager_GetCurrentUserCnt :: "UserManager \<Rightarrow> int" where
  "UserManager_GetCurrentUserCnt um = mCurrentUserCnt um"

definition UserManager_GetMaxUserCnt :: "UserManager \<Rightarrow> int" where
  "UserManager_GetMaxUserCnt um = mMaxUserCnt um"

definition UserManager_IncreaseUserCnt :: "UserManager \<Rightarrow> UserManager" where
  "UserManager_IncreaseUserCnt um = um\<lparr>mCurrentUserCnt := mCurrentUserCnt um + 1\<rparr>"

definition UserManager_DecreaseUserCnt :: "UserManager \<Rightarrow> UserManager" where
  "UserManager_DecreaseUserCnt um =
     (if mCurrentUserCnt um > 0 then um\<lparr>mCurrentUserCnt := mCurrentUserCnt um - 1\<rparr> else um)"

text \<open>The pointer returned is the slot; the object behind it is read here and stored by \<open>put_user\<close>.\<close>

definition UserManager_GetUserByConnIdx :: "UserManager \<Rightarrow> nat \<Rightarrow> user result" where
  "UserManager_GetUserByConnIdx um clientIndex = vec_at (mUserObjPool um) clientIndex"

definition put_user :: "UserManager \<Rightarrow> nat \<Rightarrow> user \<Rightarrow> UserManager" where
  "put_user um i u = um\<lparr>mUserObjPool := (mUserObjPool um)[i := u]\<rparr>"

text \<open>
  \<open>Adduser\<close>: \<open>unordered_map::insert\<close> does nothing when the key is present; only a fresh name logs the
  user object in.
\<close>

definition UserManager_Adduser ::
  "UserManager \<Rightarrow> byte list \<Rightarrow> nat \<Rightarrow> (ERROR_CODE \<times> UserManager) result" where
  "UserManager_Adduser um userID clientIndex =
     bindr (c_str userID) (\<lambda>userIDStr.
       if mUserIDDictionary um userIDStr \<noteq> None then Inr (LOGIN_USER_ALREADY, um)
       else
         (let um1 = um\<lparr>mUserIDDictionary :=
                (mUserIDDictionary um)(userIDStr \<mapsto> int clientIndex)\<rparr> in
          bindr (UserManager_GetUserByConnIdx um1 clientIndex) (\<lambda>u.
            bindr (User_SetLogin u userID) (\<lambda>u'. Inr (EC_NONE, put_user um1 clientIndex u')))))"

definition UserManager_DeleteUserInfo :: "UserManager \<Rightarrow> nat \<Rightarrow> UserManager result" where
  "UserManager_DeleteUserInfo um user =
     bindr (UserManager_GetUserByConnIdx um user) (\<lambda>u.
       let um1 = um\<lparr>mUserIDDictionary := (mUserIDDictionary um)(User_GetUserID u := None)\<rparr>;
           um2 = put_user um1 user (User_IncrementGeneration (User_Clear u))
       in Inr (UserManager_DecreaseUserCnt um2))"

definition UserManager_FindUserIndexByID :: "UserManager \<Rightarrow> byte list \<Rightarrow> int result" where
  "UserManager_FindUserIndexByID um userID =
     bindr (c_str userID) (\<lambda>userIDStr.
       Inr (case mUserIDDictionary um userIDStr of Some i \<Rightarrow> i | None \<Rightarrow> -1))"

section \<open>Invariant\<close>

text \<open>
  The pool has the configured size, slot \<open>i\<close> holds the object with index \<open>i\<close>, every object is well
  formed, the dictionary maps to slots, and the user count is not negative.
\<close>

definition um_inv :: "UserManager \<Rightarrow> bool" where
  "um_inv um \<longleftrightarrow> mMaxUserCnt um = int (length (mUserObjPool um)) \<and> 0 \<le> mCurrentUserCnt um \<and>
     (\<forall>i < length (mUserObjPool um). user_inv (mUserObjPool um ! i) \<and>
        mIndex (mUserObjPool um ! i) = int i) \<and>
     (\<forall>s k. mUserIDDictionary um s = Some k \<longrightarrow> 0 \<le> k \<and> nat k < length (mUserObjPool um))"

named_theorems um_simps \<open>fields of the user manager after each operation\<close>

lemma put_user_fields [simp]:
  "mCurrentUserCnt (put_user um i u) = mCurrentUserCnt um"
  "mMaxUserCnt (put_user um i u) = mMaxUserCnt um"
  "mUserObjPool (put_user um i u) = (mUserObjPool um)[i := u]"
  "mUserIDDictionary (put_user um i u) = mUserIDDictionary um"
  by (simp_all add: put_user_def)

lemma put_user_same [simp]: "put_user um i (mUserObjPool um ! i) = um"
  by (simp add: put_user_def)

lemma DecreaseUserCnt_fields [simp]:
  "mMaxUserCnt (UserManager_DecreaseUserCnt um) = mMaxUserCnt um"
  "mUserObjPool (UserManager_DecreaseUserCnt um) = mUserObjPool um"
  "mUserIDDictionary (UserManager_DecreaseUserCnt um) = mUserIDDictionary um"
  "mCurrentUserCnt (UserManager_DecreaseUserCnt um) =
     (if mCurrentUserCnt um > 0 then mCurrentUserCnt um - 1 else mCurrentUserCnt um)"
  by (simp_all add: UserManager_DecreaseUserCnt_def)

lemma IncreaseUserCnt_fields [simp]:
  "mMaxUserCnt (UserManager_IncreaseUserCnt um) = mMaxUserCnt um"
  "mUserObjPool (UserManager_IncreaseUserCnt um) = mUserObjPool um"
  "mUserIDDictionary (UserManager_IncreaseUserCnt um) = mUserIDDictionary um"
  "mCurrentUserCnt (UserManager_IncreaseUserCnt um) = mCurrentUserCnt um + 1"
  by (simp_all add: UserManager_IncreaseUserCnt_def)

lemma um_inv_Init: "um_inv (UserManager_Init mem n)"
  by (simp add: um_inv_def UserManager_Init_def user_inv_new) (simp add: User_Init_def)

lemma um_inv_put_user:
  "um_inv um \<Longrightarrow> user_inv u \<Longrightarrow> mIndex u = int i \<Longrightarrow> um_inv (put_user um i u)"
  by (auto simp: um_inv_def)

lemma um_inv_user:
  "um_inv um \<Longrightarrow> i < length (mUserObjPool um) \<Longrightarrow>
     user_inv (mUserObjPool um ! i) \<and> mIndex (mUserObjPool um ! i) = int i"
  by (simp add: um_inv_def)

lemma um_inv_Increase: "um_inv um \<Longrightarrow> um_inv (UserManager_IncreaseUserCnt um)"
  by (simp add: um_inv_def)

lemma um_inv_Decrease: "um_inv um \<Longrightarrow> um_inv (UserManager_DecreaseUserCnt um)"
  by (simp add: um_inv_def)

section \<open>What the operations do\<close>

lemma Adduser_taken:
  "c_str p = Inr s \<Longrightarrow> mUserIDDictionary um s = Some k \<Longrightarrow>
     UserManager_Adduser um p i = Inr (LOGIN_USER_ALREADY, um)"
  by (simp add: UserManager_Adduser_def)

lemma Adduser_new:
  "c_str p = Inr s \<Longrightarrow> mUserIDDictionary um s = None \<Longrightarrow> i < length (mUserObjPool um) \<Longrightarrow>
     UserManager_Adduser um p i = Inr (EC_NONE,
       put_user (um\<lparr>mUserIDDictionary := (mUserIDDictionary um)(s \<mapsto> int i)\<rparr>) i
         ((mUserObjPool um ! i)\<lparr>mCurDomainState := DS_LOGIN, mUserID := s\<rparr>))"
  by (simp add: UserManager_Adduser_def UserManager_GetUserByConnIdx_def User_SetLogin_def)

lemma Adduser_cases:
  assumes "UserManager_Adduser um p i = Inr (e, um')"
  obtains (taken) s k where "c_str p = Inr s" "mUserIDDictionary um s = Some k"
    "e = LOGIN_USER_ALREADY" "um' = um"
  | (new) s where "c_str p = Inr s" "mUserIDDictionary um s = None" "i < length (mUserObjPool um)"
    "e = EC_NONE"
    "um' = put_user (um\<lparr>mUserIDDictionary := (mUserIDDictionary um)(s \<mapsto> int i)\<rparr>) i
      ((mUserObjPool um ! i)\<lparr>mCurDomainState := DS_LOGIN, mUserID := s\<rparr>)"
  using assms
  by (auto simp: UserManager_Adduser_def UserManager_GetUserByConnIdx_def User_SetLogin_def
      result_simps Let_def split: if_splits)

lemma um_inv_Adduser:
  assumes "um_inv um" and "UserManager_Adduser um p i = Inr (e, um')"
  shows "um_inv um'"
proof (rule Adduser_cases [OF assms(2)])
  fix s
  assume i: "i < length (mUserObjPool um)"
    and um': "um' = put_user (um\<lparr>mUserIDDictionary := (mUserIDDictionary um)(s \<mapsto> int i)\<rparr>) i
      ((mUserObjPool um ! i)\<lparr>mCurDomainState := DS_LOGIN, mUserID := s\<rparr>)"
  have "um_inv (um\<lparr>mUserIDDictionary := (mUserIDDictionary um)(s \<mapsto> int i)\<rparr>)"
    using assms(1) i by (simp add: um_inv_def)
  then show "um_inv um'"
    unfolding um' using um_inv_user [OF assms(1) i] by (intro um_inv_put_user) simp_all
qed (use assms(1) in simp)

lemma DeleteUserInfo_eq:
  "i < length (mUserObjPool um) \<Longrightarrow> UserManager_DeleteUserInfo um i =
     Inr (UserManager_DecreaseUserCnt (put_user
       (um\<lparr>mUserIDDictionary := (mUserIDDictionary um)(mUserID (mUserObjPool um ! i) := None)\<rparr>) i
       (User_IncrementGeneration (User_Clear (mUserObjPool um ! i)))))"
  by (simp add: UserManager_DeleteUserInfo_def UserManager_GetUserByConnIdx_def User_GetUserID_def)

lemma DeleteUserInfo_fault:
  "\<not> i < length (mUserObjPool um) \<Longrightarrow> UserManager_DeleteUserInfo um i = Inl OutOfBounds"
  by (simp add: UserManager_DeleteUserInfo_def UserManager_GetUserByConnIdx_def vec_at_def)

lemma user_inv_deleted: "user_inv u \<Longrightarrow> user_inv (User_IncrementGeneration (User_Clear u))"
  using user_inv_Clear [of u] by (simp add: User_IncrementGeneration_def)

lemma mIndex_deleted [simp]: "mIndex (User_IncrementGeneration (User_Clear u)) = mIndex u"
  by (simp add: user_ops)

lemma um_inv_DeleteUserInfo:
  assumes "um_inv um" and "UserManager_DeleteUserInfo um i = Inr um'"
  shows "um_inv um'"
proof -
  have i: "i < length (mUserObjPool um)"
    using assms(2) DeleteUserInfo_fault [of i um] by (cases "i < length (mUserObjPool um)") auto
  let ?um1 = "um\<lparr>mUserIDDictionary := (mUserIDDictionary um)(mUserID (mUserObjPool um ! i) := None)\<rparr>"
  have "um_inv ?um1" using assms(1) by (auto simp: um_inv_def)
  then have "um_inv (put_user ?um1 i (User_IncrementGeneration (User_Clear (mUserObjPool um ! i))))"
    using um_inv_user [OF assms(1) i] by (intro um_inv_put_user) (simp_all add: user_inv_deleted)
  then show ?thesis using assms(2) um_inv_Decrease by (auto simp: DeleteUserInfo_eq [OF i])
qed

lemma FindUserIndexByID_none:
  "um_inv um \<Longrightarrow> c_str p = Inr s \<Longrightarrow>
     UserManager_FindUserIndexByID um p = Inr (-1) \<longleftrightarrow> mUserIDDictionary um s = None"
  by (force simp: UserManager_FindUserIndexByID_def um_inv_def split: option.splits)

section \<open>The login registry\<close>

text \<open>The name stored in a slot; an index outside the pool has none.\<close>

definition slot_name :: "UserManager \<Rightarrow> nat \<Rightarrow> byte list" where
  "slot_name um i = (if i < length (mUserObjPool um) then mUserID (mUserObjPool um ! i) else [])"

lemma slot_name_put_user:
  "i < length (mUserObjPool um) \<Longrightarrow> slot_name (put_user um i u) = (slot_name um)(i := mUserID u)"
  by (auto simp: slot_name_def fun_eq_iff)

interpretation reg: login_registry um_inv mUserIDDictionary slot_name "\<lambda>um. length (mUserObjPool um)"
  UserManager_Adduser UserManager_DeleteUserInfo
proof unfold_locales
  fix um i p s
  assume h: "um_inv um" "i < length (mUserObjPool um)" "c_str p = Inr s" "mUserIDDictionary um s = None"
  let ?um1 = "um\<lparr>mUserIDDictionary := (mUserIDDictionary um)(s \<mapsto> int i)\<rparr>"
  have "slot_name ?um1 = slot_name um" by (simp add: slot_name_def fun_eq_iff)
  then show "\<exists>um'. UserManager_Adduser um p i = Inr (EC_NONE, um') \<and> um_inv um' \<and>
      length (mUserObjPool um') = length (mUserObjPool um) \<and>
      mUserIDDictionary um' = (mUserIDDictionary um)(s \<mapsto> int i) \<and>
      slot_name um' = (slot_name um)(i := s)"
    using um_inv_Adduser [OF h(1) Adduser_new [OF h(3,4,2)]] h(2) slot_name_put_user [of i ?um1]
    by (simp add: Adduser_new [OF h(3,4,2)])
next
  fix um p s k i
  assume "um_inv um" "c_str p = Inr s" "mUserIDDictionary um s = Some k"
  then show "UserManager_Adduser um p i = Inr (LOGIN_USER_ALREADY, um)" by (simp add: Adduser_taken)
next
  fix um i
  assume h: "um_inv um" "i < length (mUserObjPool um)"
  let ?um1 = "um\<lparr>mUserIDDictionary := (mUserIDDictionary um)(mUserID (mUserObjPool um ! i) := None)\<rparr>"
  let ?u = "User_IncrementGeneration (User_Clear (mUserObjPool um ! i))"
  have "slot_name (UserManager_DecreaseUserCnt (put_user ?um1 i ?u)) = (slot_name um)(i := [])"
    using h(2) by (auto simp: slot_name_def fun_eq_iff user_ops)
  then show "\<exists>um'. UserManager_DeleteUserInfo um i = Inr um' \<and> um_inv um' \<and>
      length (mUserObjPool um') = length (mUserObjPool um) \<and>
      mUserIDDictionary um' = (mUserIDDictionary um)(slot_name um i := None) \<and>
      slot_name um' = (slot_name um)(i := [])"
    using um_inv_DeleteUserInfo [OF h(1) DeleteUserInfo_eq [OF h(2)]] h(2)
    by (simp add: DeleteUserInfo_eq slot_name_def)
qed

end
