(* ===== verification/Room.thy ===== *)
theory Room
  imports UserManager
begin

text \<open>
  \<open>Room.h\<close>: a chat room. \<open>mUserList\<close> holds user objects, here by their slot in the user pool; the
  number of users is kept in a counter of its own beside the list. Sending goes through
  \<open>SendPacketFunc\<close>; the model returns the sends a call makes, in order, as triples of receiving slot,
  size and packet. The lemmas are about the counter and the list, and about who receives what.
\<close>

section \<open>The class\<close>

record room =
  mUserList :: "nat list"
  mMaxUserCount :: int
  mCurrentUserCount :: int
  mRoomNumber :: int

type_synonym send = "nat \<times> nat \<times> packet"

definition Room_new :: room where
  "Room_new = \<lparr>mUserList = [], mMaxUserCount = 0, mCurrentUserCount = 0, mRoomNumber = -1\<rparr>"

definition Room_Init :: "room \<Rightarrow> int \<Rightarrow> int \<Rightarrow> room" where
  "Room_Init r roomNumber maxUsercount =
     r\<lparr>mMaxUserCount := maxUsercount, mRoomNumber := roomNumber\<rparr>"

definition Room_GetMaxUserCount :: "room \<Rightarrow> int" where
  "Room_GetMaxUserCount r = mMaxUserCount r"

definition Room_GetCurrentUserCount :: "room \<Rightarrow> int" where
  "Room_GetCurrentUserCount r = mCurrentUserCount r"

definition Room_GetRoomNumber :: "room \<Rightarrow> int" where
  "Room_GetRoomNumber r = mRoomNumber r"

text \<open>The user object is changed through the pointer, so it is returned too.\<close>

definition Room_EnterUser :: "room \<Rightarrow> nat \<Rightarrow> user \<Rightarrow> UINT16 \<times> room \<times> user" where
  "Room_EnterUser r slot u =
     (if mCurrentUserCount r \<ge> mMaxUserCount r then (error_val ENTER_ROOM_FULL_USER, r, u)
      else (error_val EC_NONE,
            r\<lparr>mUserList := mUserList r @ [slot], mCurrentUserCount := mCurrentUserCount r + 1\<rparr>,
            User_EnterRoom u (mRoomNumber r)))"

text \<open>\<open>std::list::remove\<close> removes every occurrence; the counter goes down once in any case.\<close>

definition Room_LeaveUser :: "room \<Rightarrow> nat \<Rightarrow> room" where
  "Room_LeaveUser r slot =
     r\<lparr>mUserList := removeAll slot (mUserList r), mCurrentUserCount := mCurrentUserCount r - 1\<rparr>"

text \<open>
  The loop of \<open>SendToAllUser\<close> over the list. The pointers in the list come from \<open>EnterUser\<close>, which
  dereferences them, so the loop's test for a null pointer never holds and has no counterpart.
\<close>

fun Room_SendToAll_loop ::
  "user list \<Rightarrow> nat list \<Rightarrow> nat \<Rightarrow> packet \<Rightarrow> int \<Rightarrow> bool \<Rightarrow> send list result" where
  "Room_SendToAll_loop pool [] n p skipIndex skip = Inr []"
| "Room_SendToAll_loop pool (slot # slots) n p skipIndex skip =
     bindr (vec_at pool slot) (\<lambda>u.
       if skip \<and> User_GetNetConnIndex u = skipIndex
       then Room_SendToAll_loop pool slots n p skipIndex skip
       else bindr (Room_SendToAll_loop pool slots n p skipIndex skip) (\<lambda>rest.
              Inr ((nat (User_GetNetConnIndex u), n, p) # rest)))"

definition Room_SendToAllUser ::
  "room \<Rightarrow> user list \<Rightarrow> nat \<Rightarrow> packet \<Rightarrow> int \<Rightarrow> bool \<Rightarrow> send list result" where
  "Room_SendToAllUser r pool dataSize p skipUserIndex skip =
     Room_SendToAll_loop pool (mUserList r) dataSize p skipUserIndex skip"

text \<open>
  \<open>NotifyChat\<close>: both strings are copied with \<open>strcpy_s\<close> into the fields of the notification;
  \<open>msg\<close> points to a chat request packet, whose \<open>Message\<close> is read.
\<close>

definition Room_NotifyChat ::
  "room \<Rightarrow> user list \<Rightarrow> nat \<Rightarrow> byte list \<Rightarrow> byte list \<Rightarrow> send list result" where
  "Room_NotifyChat r pool clientIndex userID msg =
     bindr (strcpy_s (MAX_USER_ID_LENGTH + 1) userID) (\<lambda>uid.
     bindr (strcpy_s (MAX_CHAT_MSG + 1) (drop off_Message msg)) (\<lambda>m.
       let p = ROOM_CHAT_NOTIFY_PACKET uid m in
       Room_SendToAllUser r pool (packet_sizeof p) p (int clientIndex) False))"

lemmas room_ops = Room_EnterUser_def Room_LeaveUser_def

section \<open>The counter and the list\<close>

text \<open>
  What the counter means: it is the length of a list without duplicates, and within the limit.
  Entering keeps this for a user not in the room, leaving for one who is.
\<close>

definition room_count_ok :: "room \<Rightarrow> bool" where
  "room_count_ok r \<longleftrightarrow> distinct (mUserList r) \<and> mCurrentUserCount r = int (length (mUserList r)) \<and>
     mCurrentUserCount r \<le> mMaxUserCount r"

lemma room_count_ok_Init: "0 \<le> m \<Longrightarrow> room_count_ok (Room_Init Room_new n m)"
  by (simp add: room_count_ok_def Room_Init_def Room_new_def)

lemma room_count_ok_Enter:
  "room_count_ok r \<Longrightarrow> slot \<notin> set (mUserList r) \<Longrightarrow> Room_EnterUser r slot u = (e, r', u') \<Longrightarrow>
     room_count_ok r'"
  by (auto simp: room_count_ok_def Room_EnterUser_def split: if_splits)

lemma length_removeAll_distinct:
  "distinct xs \<Longrightarrow> x \<in> set xs \<Longrightarrow> Suc (length (removeAll x xs)) = length xs"
  by (induction xs) auto

lemma room_count_ok_Leave:
  assumes "room_count_ok r" and "slot \<in> set (mUserList r)"
  shows "room_count_ok (Room_LeaveUser r slot)"
proof -
  have "Suc (length (removeAll slot (mUserList r))) = length (mUserList r)"
    using assms by (auto simp: room_count_ok_def intro: length_removeAll_distinct)
  then show ?thesis
    using assms(1) by (auto simp: room_count_ok_def Room_LeaveUser_def distinct_removeAll)
qed

lemma Enter_full_iff:
  "room_count_ok r \<Longrightarrow> fst (Room_EnterUser r slot u) = error_val EC_NONE \<longleftrightarrow>
     int (length (mUserList r)) < mMaxUserCount r"
  by (simp add: room_count_ok_def Room_EnterUser_def)

section \<open>Who receives what\<close>

lemma SendToAll_loop_all:
  assumes "\<forall>s \<in> set slots. s < length pool \<and> mIndex (pool ! s) = int s"
  shows "Room_SendToAll_loop pool slots n p k False = Inr (map (\<lambda>s. (s, n, p)) slots)"
  using assms by (induction slots) (auto simp: User_GetNetConnIndex_def)

lemma SendToAll_loop_skip:
  assumes "\<forall>s \<in> set slots. s < length pool \<and> mIndex (pool ! s) = int s"
  shows "Room_SendToAll_loop pool slots n p (int k) True =
    Inr (map (\<lambda>s. (s, n, p)) (removeAll k slots))"
  using assms by (induction slots) (auto simp: User_GetNetConnIndex_def)

text \<open>The members of a room are slots of the pool.\<close>

definition room_members_ok :: "nat \<Rightarrow> room \<Rightarrow> bool" where
  "room_members_ok n r \<longleftrightarrow> (\<forall>s \<in> set (mUserList r). s < n)"

lemma room_members_ok_ops:
  "room_members_ok n r \<Longrightarrow> slot < n \<Longrightarrow> Room_EnterUser r slot u = (e, r', u') \<Longrightarrow> room_members_ok n r'"
  "room_members_ok n r \<Longrightarrow> room_members_ok n (Room_LeaveUser r slot)"
  by (auto simp: room_members_ok_def room_ops split: if_splits)

lemma NotifyChat_broadcast:
  assumes "um_inv um" and "room_members_ok (length (mUserObjPool um)) r"
    and "0 \<notin> set uid" and "length uid \<le> MAX_USER_ID_LENGTH"
    and "c_str (drop off_Message msg) = Inr m" and "length m \<le> MAX_CHAT_MSG"
  shows "Room_NotifyChat r (mUserObjPool um) i (nul_terminated uid) msg =
    Inr (map (\<lambda>s. (s, 295, ROOM_CHAT_NOTIFY_PACKET uid m)) (mUserList r))"
proof -
  have "strcpy_s (MAX_USER_ID_LENGTH + 1) (nul_terminated uid) = Inr uid"
    using assms(3,4) by (simp add: strcpy_s_eq_Inr)
  moreover have "strcpy_s (MAX_CHAT_MSG + 1) (drop off_Message msg) = Inr m"
    using assms(5,6) by (simp add: strcpy_s_eq_Inr)
  moreover have "\<forall>s \<in> set (mUserList r). s < length (mUserObjPool um) \<and>
      mIndex (mUserObjPool um ! s) = int s"
    using assms(1,2) by (simp add: room_members_ok_def um_inv_def)
  ultimately show ?thesis
    by (simp add: Room_NotifyChat_def Room_SendToAllUser_def Let_def packet_consts
        SendToAll_loop_all)
qed

text \<open>Every send of a room carries a well-formed notification and its size.\<close>

lemma SendToAll_loop_elem:
  "Room_SendToAll_loop pool slots n p k sk = Inr sends \<Longrightarrow> x \<in> set sends \<Longrightarrow>
     \<exists>s \<in> set slots. s < length pool \<and> x = (nat (mIndex (pool ! s)), n, p)"
  by (induction slots arbitrary: sends)
    (auto simp: result_simps User_GetNetConnIndex_def split: if_splits)

lemma NotifyChat_sends:
  assumes "Room_NotifyChat r pool i uid msg = Inr sends" and "(k, n, p) \<in> set sends"
  shows "packet_ok p \<and> n = packet_sizeof p \<and>
    (\<exists>s \<in> set (mUserList r). s < length pool \<and> k = nat (mIndex (pool ! s)))"
proof -
  obtain s m where s: "strcpy_s (MAX_USER_ID_LENGTH + 1) uid = Inr s"
    "strcpy_s (MAX_CHAT_MSG + 1) (drop off_Message msg) = Inr m"
    "Room_SendToAll_loop pool (mUserList r) (packet_sizeof (ROOM_CHAT_NOTIFY_PACKET s m))
      (ROOM_CHAT_NOTIFY_PACKET s m) (int i) False = Inr sends"
    using assms(1) unfolding Room_NotifyChat_def Room_SendToAllUser_def Let_def
    by (elim bindr_InrE) blast
  have "packet_ok (ROOM_CHAT_NOTIFY_PACKET s m)"
    using s(1,2) by (auto simp: strcpy_s_eq_Inr c_str_eq_Inr)
  then show ?thesis using SendToAll_loop_elem [OF s(3) assms(2)] by auto
qed

end
