(* ===== verification/RoomManager.thy ===== *)
theory RoomManager
  imports Room
begin

text \<open>
  \<open>RoomManager.h\<close>: the rooms, numbered consecutively from \<open>mBeginRoomNumber\<close>. A \<open>Room*\<close> is the index
  of the room in \<open>mRoomList\<close>, and \<open>None\<close> is \<open>nullptr\<close>.
\<close>

record RoomManager =
  mRoomList :: "room list"
  mBeginRoomNumber :: int
  mMaxRoomCount :: int
  mEndRoomNumber :: int

definition RoomManager_Init :: "int \<Rightarrow> nat \<Rightarrow> int \<Rightarrow> RoomManager" where
  "RoomManager_Init beginRoomNumber maxRoomCount maxRoomUserCount =
     \<lparr>mRoomList = map (\<lambda>i. Room_Init Room_new (int i + beginRoomNumber) maxRoomUserCount)
        [0..<maxRoomCount],
      mBeginRoomNumber = beginRoomNumber, mMaxRoomCount = int maxRoomCount,
      mEndRoomNumber = beginRoomNumber + int maxRoomCount\<rparr>"

definition RoomManager_GetMaxRoomCount :: "RoomManager \<Rightarrow> int" where
  "RoomManager_GetMaxRoomCount rm = mMaxRoomCount rm"

definition RoomManager_GetRoomByNumber :: "RoomManager \<Rightarrow> int \<Rightarrow> nat option" where
  "RoomManager_GetRoomByNumber rm number =
     (if number < mBeginRoomNumber rm \<or> number \<ge> mEndRoomNumber rm then None
      else Some (nat (number - mBeginRoomNumber rm)))"

definition put_room :: "RoomManager \<Rightarrow> nat \<Rightarrow> room \<Rightarrow> RoomManager" where
  "put_room rm k r = rm\<lparr>mRoomList := (mRoomList rm)[k := r]\<rparr>"

definition RoomManager_EnterUser ::
  "RoomManager \<Rightarrow> int \<Rightarrow> nat \<Rightarrow> user \<Rightarrow> (UINT16 \<times> RoomManager \<times> user) result" where
  "RoomManager_EnterUser rm roomNumber slot u =
     (case RoomManager_GetRoomByNumber rm roomNumber of
        None \<Rightarrow> Inr (error_val ROOM_INVALID_INDEX, rm, u)
      | Some k \<Rightarrow> bindr (vec_at (mRoomList rm) k) (\<lambda>r.
          let (e, r', u') = Room_EnterUser r slot u in Inr (e, put_room rm k r', u')))"

definition RoomManager_LeaveUser ::
  "RoomManager \<Rightarrow> int \<Rightarrow> nat \<Rightarrow> user \<Rightarrow> (UINT16 \<times> RoomManager \<times> user) result" where
  "RoomManager_LeaveUser rm roomNumber slot u =
     (case RoomManager_GetRoomByNumber rm roomNumber of
        None \<Rightarrow> Inr (error_val ROOM_INVALID_INDEX, rm, u)
      | Some k \<Rightarrow> bindr (vec_at (mRoomList rm) k) (\<lambda>r.
          Inr (error_val EC_NONE, put_room rm k (Room_LeaveUser r slot),
               User_SetDomainState u DS_LOGIN)))"

lemma put_room_fields [simp]:
  "mRoomList (put_room rm k r) = (mRoomList rm)[k := r]"
  "mBeginRoomNumber (put_room rm k r) = mBeginRoomNumber rm"
  "mMaxRoomCount (put_room rm k r) = mMaxRoomCount rm"
  "mEndRoomNumber (put_room rm k r) = mEndRoomNumber rm"
  by (simp_all add: put_room_def)

lemma put_room_same [simp]: "put_room rm k (mRoomList rm ! k) = rm"
  by (simp add: put_room_def)

lemma GetRoomByNumber_put_room [simp]:
  "RoomManager_GetRoomByNumber (put_room rm k r) = RoomManager_GetRoomByNumber rm"
  by (simp add: RoomManager_GetRoomByNumber_def fun_eq_iff)

section \<open>Invariant\<close>

text \<open>
  The numbers cover the list, room \<open>k\<close> carries the number \<open>begin + k\<close>, no counter exceeds its limit,
  and the members are slots of a pool of \<open>n\<close> users.
\<close>

definition rm_inv :: "nat \<Rightarrow> RoomManager \<Rightarrow> bool" where
  "rm_inv n rm \<longleftrightarrow>
     mEndRoomNumber rm = mBeginRoomNumber rm + int (length (mRoomList rm)) \<and>
     (\<forall>k < length (mRoomList rm). mRoomNumber (mRoomList rm ! k) = mBeginRoomNumber rm + int k \<and>
        mCurrentUserCount (mRoomList rm ! k) \<le> mMaxUserCount (mRoomList rm ! k) \<and>
        room_members_ok n (mRoomList rm ! k))"

lemma rm_inv_Init: "0 \<le> m \<Longrightarrow> rm_inv n (RoomManager_Init b c m)"
  by (simp add: rm_inv_def RoomManager_Init_def Room_Init_def Room_new_def room_members_ok_def)

lemma GetRoomByNumber_Some:
  "rm_inv n rm \<Longrightarrow> RoomManager_GetRoomByNumber rm number = Some k \<Longrightarrow>
     k < length (mRoomList rm) \<and> mRoomNumber (mRoomList rm ! k) = number"
  by (auto simp: rm_inv_def RoomManager_GetRoomByNumber_def split: if_splits)

lemma GetRoomByNumber_iff:
  "rm_inv n rm \<Longrightarrow> RoomManager_GetRoomByNumber rm number = Some k \<longleftrightarrow>
     k < length (mRoomList rm) \<and> number = mBeginRoomNumber rm + int k"
  by (auto simp: rm_inv_def RoomManager_GetRoomByNumber_def)

lemma GetRoomByNumber_inj:
  "rm_inv n rm \<Longrightarrow> RoomManager_GetRoomByNumber rm a = Some k \<Longrightarrow>
     RoomManager_GetRoomByNumber rm b = Some k \<Longrightarrow> a = b"
  by (simp add: GetRoomByNumber_iff)

lemma rm_inv_put_room:
  assumes "rm_inv n rm" and "k < length (mRoomList rm)"
    and "mRoomNumber r = mRoomNumber (mRoomList rm ! k)"
    and "mCurrentUserCount r \<le> mMaxUserCount r" and "room_members_ok n r"
  shows "rm_inv n (put_room rm k r)"
  using assms by (auto simp: rm_inv_def)

lemma RoomManager_EnterUser_cases:
  assumes "rm_inv n rm" and "RoomManager_EnterUser rm number slot u = Inr (e, rm', u')"
  obtains (invalid) "RoomManager_GetRoomByNumber rm number = None" "e = error_val ROOM_INVALID_INDEX"
    "rm' = rm" "u' = u"
  | (full) k where "RoomManager_GetRoomByNumber rm number = Some k" "k < length (mRoomList rm)"
    "mCurrentUserCount (mRoomList rm ! k) \<ge> mMaxUserCount (mRoomList rm ! k)"
    "e = error_val ENTER_ROOM_FULL_USER" "rm' = rm" "u' = u"
  | (entered) k where "RoomManager_GetRoomByNumber rm number = Some k" "k < length (mRoomList rm)"
    "mCurrentUserCount (mRoomList rm ! k) < mMaxUserCount (mRoomList rm ! k)"
    "e = error_val EC_NONE"
    "rm' = put_room rm k ((mRoomList rm ! k)\<lparr>mUserList := mUserList (mRoomList rm ! k) @ [slot],
       mCurrentUserCount := mCurrentUserCount (mRoomList rm ! k) + 1\<rparr>)"
    "u' = User_EnterRoom u number"
proof (cases "RoomManager_GetRoomByNumber rm number")
  case None
  have "RoomManager_EnterUser rm number slot u = Inr (error_val ROOM_INVALID_INDEX, rm, u)"
    using None by (simp add: RoomManager_EnterUser_def)
  with assms(2) show ?thesis by (intro invalid [OF None]) simp_all
next
  case (Some k)
  have k: "k < length (mRoomList rm)" "mRoomNumber (mRoomList rm ! k) = number"
    using GetRoomByNumber_Some [OF assms(1) Some] by simp_all
  have eq: "RoomManager_EnterUser rm number slot u =
      (case Room_EnterUser (mRoomList rm ! k) slot u of (e, r', u') \<Rightarrow> Inr (e, put_room rm k r', u'))"
    using Some k(1) by (simp add: RoomManager_EnterUser_def)
  show ?thesis
  proof (cases "mCurrentUserCount (mRoomList rm ! k) \<ge> mMaxUserCount (mRoomList rm ! k)")
    case True
    have "RoomManager_EnterUser rm number slot u = Inr (error_val ENTER_ROOM_FULL_USER, rm, u)"
      using True unfolding eq Room_EnterUser_def by (simp del: error_val.simps)
    with assms(2) show ?thesis by (intro full [OF Some k(1) True]) simp_all
  next
    case False
    then have lt: "mCurrentUserCount (mRoomList rm ! k) < mMaxUserCount (mRoomList rm ! k)" by simp
    then have "RoomManager_EnterUser rm number slot u = Inr (error_val EC_NONE,
        put_room rm k ((mRoomList rm ! k)\<lparr>mUserList := mUserList (mRoomList rm ! k) @ [slot],
          mCurrentUserCount := mCurrentUserCount (mRoomList rm ! k) + 1\<rparr>), User_EnterRoom u number)"
      unfolding eq Room_EnterUser_def by (simp add: k(2) del: error_val.simps)
    with assms(2) show ?thesis by (intro entered [OF Some k(1) lt]) simp_all
  qed
qed

lemma RoomManager_LeaveUser_cases:
  assumes "rm_inv n rm" and "RoomManager_LeaveUser rm number slot u = Inr (e, rm', u')"
  obtains (invalid) "RoomManager_GetRoomByNumber rm number = None" "e = error_val ROOM_INVALID_INDEX"
    "rm' = rm" "u' = u"
  | (left) k where "RoomManager_GetRoomByNumber rm number = Some k" "k < length (mRoomList rm)"
    "e = error_val EC_NONE" "rm' = put_room rm k (Room_LeaveUser (mRoomList rm ! k) slot)"
    "u' = u\<lparr>mCurDomainState := DS_LOGIN\<rparr>"
proof (cases "RoomManager_GetRoomByNumber rm number")
  case None
  have "RoomManager_LeaveUser rm number slot u = Inr (error_val ROOM_INVALID_INDEX, rm, u)"
    using None by (simp add: RoomManager_LeaveUser_def)
  with assms(2) show ?thesis by (intro invalid [OF None]) simp_all
next
  case (Some k)
  have k: "k < length (mRoomList rm)" using GetRoomByNumber_Some [OF assms(1) Some] by simp
  have "RoomManager_LeaveUser rm number slot u = Inr (error_val EC_NONE,
      put_room rm k (Room_LeaveUser (mRoomList rm ! k) slot), u\<lparr>mCurDomainState := DS_LOGIN\<rparr>)"
    using Some k by (simp add: RoomManager_LeaveUser_def User_SetDomainState_def)
  with assms(2) show ?thesis by (intro left [OF Some k]) simp_all
qed

lemma RoomManager_no_fault:
  assumes "rm_inv n rm"
  shows "\<exists>e rm' u'. RoomManager_EnterUser rm number slot u = Inr (e, rm', u')"
    and "\<exists>e rm' u'. RoomManager_LeaveUser rm number slot u = Inr (e, rm', u')"
  using GetRoomByNumber_Some [OF assms]
  by (auto simp: RoomManager_EnterUser_def RoomManager_LeaveUser_def split: option.splits prod.splits)

lemma rm_inv_EnterUser:
  assumes "rm_inv n rm" and "slot < n" and "RoomManager_EnterUser rm number slot u = Inr (e, rm', u')"
  shows "rm_inv n rm'"
  using assms(1,3)
proof (cases rule: RoomManager_EnterUser_cases)
  case (entered k)
  then show ?thesis
    using assms(1,2) rm_inv_put_room [OF assms(1) entered(2)]
    by (auto simp: rm_inv_def room_members_ok_def)
qed (use assms(1) in simp_all)

lemma rm_inv_LeaveUser:
  assumes "rm_inv n rm" and "RoomManager_LeaveUser rm number slot u = Inr (e, rm', u')"
  shows "rm_inv n rm'"
  using assms
proof (cases rule: RoomManager_LeaveUser_cases)
  case (left k)
  then show ?thesis
    using assms(1) by (auto simp: rm_inv_def Room_LeaveUser_def room_members_ok_def)
qed (use assms(1) in simp_all)

end
