(* ===== verification/TaskQueue.thy ===== *)
theory TaskQueue
  imports Prelude
begin

text \<open>
  The interface of the request queues of the two database managers: \<open>std::deque\<close> under a mutex, pushed
  at the back by the logic thread and taken from the front by a worker thread. \<open>outcome\<close> says how a
  worker's turn ends: it waits on the condition variable, leaves its loop, or goes on.
\<close>

datatype 'm outcome = Blocked | Exited | Continue 'm

locale task_queue =
  fixes pending :: "'m \<Rightarrow> 't list"
    and push :: "'m \<Rightarrow> 't \<Rightarrow> 'm"
    and take_front :: "'m \<Rightarrow> ('t \<times> 'm) option"
  assumes push_law: "pending (push m t) = pending m @ [t]"
    and take_empty: "pending m = [] \<Longrightarrow> take_front m = None"
    and take_cons: "pending m = t # ts \<Longrightarrow> \<exists>m'. take_front m = Some (t, m') \<and> pending m' = ts"
begin

lemma push_all: "pending (fold (\<lambda>t m. push m t) ts m) = pending m @ ts"
  by (induction ts arbitrary: m) (simp_all add: push_law)

lemma take_Some:
  "take_front m = Some (t, m') \<Longrightarrow> pending m = t # pending m'"
  using take_empty [of m] take_cons [of m] by (cases "pending m") auto

lemma take_None: "take_front m = None \<longleftrightarrow> pending m = []"
  using take_empty [of m] take_cons [of m] by (cases "pending m") auto

text \<open>Taking is first in, first out, also when pushes come in between.\<close>

lemma push_take_commute:
  assumes "take_front m = Some (t, m')"
  shows "\<exists>m2. take_front (push m x) = Some (t, m2) \<and> pending m2 = pending (push m' x)"
  using take_cons [of "push m x" t "pending m' @ [x]"] take_Some [OF assms]
  by (simp add: push_law)

end

end
