(* ===== verification/RedisManager.thy ===== *)
theory RedisManager
  imports TaskQueue Packet
begin

text \<open>
  \<open>RedisTaskDefine.h\<close> and \<open>RedisManager.h\<close>: the login requests the logic thread hands to the Redis
  worker and the responses it takes back. The database itself is the parameter \<open>redis_get\<close>: what
  \<open>CRedisConn::get\<close> finds under a key, \<open>None\<close> when it returns false (the key is absent or the call failed; the code
  does not tell them apart). It is constant over one call; a run passes the same function throughout, so a run describes
  a time in which the accounts do not change. \<open>pad\<close> is the uninitialised rest
  of the response's \<open>UserID\<close> array.
\<close>

section \<open>Tasks\<close>

datatype RedisTaskID =
    RT_INVALID | REQUEST_LOGIN | RESPONSE_LOGIN
  | REQUEST_SET_LOGIN_FLAG | REQUEST_DELETE_LOGIN_FLAG | REQUEST_SET_SESSION | REQUEST_DELETE_SESSION

fun redis_task_val :: "RedisTaskID \<Rightarrow> UINT16" where
  "redis_task_val RT_INVALID = 0"
| "redis_task_val REQUEST_LOGIN = 1001"
| "redis_task_val RESPONSE_LOGIN = 1002"
| "redis_task_val REQUEST_SET_LOGIN_FLAG = 1101"
| "redis_task_val REQUEST_DELETE_LOGIN_FLAG = 1102"
| "redis_task_val REQUEST_SET_SESSION = 1103"
| "redis_task_val REQUEST_DELETE_SESSION = 1104"

record RedisTask =
  R_UserIndex :: nat
  R_TaskID :: RedisTaskID
  R_DataSize :: nat
  R_pData :: "byte list option"

definition RedisTask_default :: RedisTask where
  "RedisTask_default = \<lparr>R_UserIndex = 0, R_TaskID = RT_INVALID, R_DataSize = 0, R_pData = None\<rparr>"

definition RedisTask_release :: "RedisTask \<Rightarrow> RedisTask" where
  "RedisTask_release t = t\<lparr>R_pData := None\<rparr>"

text \<open>The packed structures \<open>RedisLoginReq\<close> (two arrays of 33) and \<open>RedisLoginRes\<close> (a code and 33).\<close>

definition RedisLoginReq_size :: nat where
  "RedisLoginReq_size = (MAX_USER_ID_LENGTH + 1) + (MAX_USER_PW_LENGTH + 1)"

definition RedisLoginRes_size :: nat where
  "RedisLoginRes_size = 2 + (MAX_USER_ID_LENGTH + 1)"

definition RedisLoginRes_bytes :: "(nat \<Rightarrow> byte) \<Rightarrow> UINT16 \<Rightarrow> byte list \<Rightarrow> byte list" where
  "RedisLoginRes_bytes pad res uid =
     put_UINT16 res @ uid @ 0 # map pad [length uid + 1..<MAX_USER_ID_LENGTH + 1]"

section \<open>The manager\<close>

record RedisManager =
  R_mRequestTask :: "RedisTask list"
  R_mResponseTask :: "RedisTask list"
  R_mIsTaskRun :: bool
  R_mTaskThreads :: nat

definition RedisManager_new :: RedisManager where
  "RedisManager_new =
     \<lparr>R_mRequestTask = [], R_mResponseTask = [], R_mIsTaskRun = False, R_mTaskThreads = 0\<rparr>"

definition RedisManager_Run :: "RedisManager \<Rightarrow> nat \<Rightarrow> bool \<times> RedisManager" where
  "RedisManager_Run m threadCount =
     (True, m\<lparr>R_mIsTaskRun := True, R_mTaskThreads := R_mTaskThreads m + threadCount\<rparr>)"

definition RedisManager_PushTask :: "RedisManager \<Rightarrow> RedisTask \<Rightarrow> RedisManager" where
  "RedisManager_PushTask m t = m\<lparr>R_mRequestTask := R_mRequestTask m @ [t]\<rparr>"

definition RedisManager_PushResponse :: "RedisManager \<Rightarrow> RedisTask \<Rightarrow> RedisManager" where
  "RedisManager_PushResponse m t = m\<lparr>R_mResponseTask := R_mResponseTask m @ [t]\<rparr>"

definition RedisManager_TakeResponseTask :: "RedisManager \<Rightarrow> RedisTask \<times> RedisManager" where
  "RedisManager_TakeResponseTask m =
     (case R_mResponseTask m of
        [] \<Rightarrow> (RedisTask_default, m)
      | t # ts \<Rightarrow> (t, m\<lparr>R_mResponseTask := ts\<rparr>))"

definition RedisManager_HasResponseTask :: "RedisManager \<Rightarrow> bool" where
  "RedisManager_HasResponseTask m \<longleftrightarrow> R_mResponseTask m \<noteq> []"

definition RedisManager_TakeRequestTask :: "RedisManager \<Rightarrow> RedisTask \<times> RedisManager" where
  "RedisManager_TakeRequestTask m =
     (case R_mRequestTask m of
        [] \<Rightarrow> (RedisTask_default, m)
      | t # ts \<Rightarrow> (t, m\<lparr>R_mRequestTask := ts\<rparr>))"

text \<open>The critical section of the worker's loop, once its wait is over.\<close>

definition Redis_take_front :: "RedisManager \<Rightarrow> (RedisTask \<times> RedisManager) option" where
  "Redis_take_front m =
     (case R_mRequestTask m of [] \<Rightarrow> None | t # ts \<Rightarrow> Some (t, m\<lparr>R_mRequestTask := ts\<rparr>))"

text \<open>The answer to one login request: the body of \<open>if (task.TaskID == REQUEST_LOGIN)\<close>.\<close>

definition Redis_login_response ::
  "(byte list \<Rightarrow> byte list option) \<Rightarrow> (nat \<Rightarrow> byte) \<Rightarrow> RedisTask \<Rightarrow> RedisTask result" where
  "Redis_login_response redis_get pad task =
     (case R_pData task of
        None \<Rightarrow> Inl NullPointer
      | Some req \<Rightarrow>
          bindr (strcpy_s (MAX_USER_ID_LENGTH + 1) req) (\<lambda>uid.
          bindr (c_str req) (\<lambda>key.
          bindr (case redis_get key of
                   None \<Rightarrow> Inr (error_val LOGIN_USER_INVALID_PW)
                 | Some v \<Rightarrow> bindr (c_str (drop (MAX_USER_ID_LENGTH + 1) req)) (\<lambda>pw.
                     Inr (if v = pw then error_val EC_NONE else error_val LOGIN_USER_INVALID_PW)))
            (\<lambda>res. Inr \<lparr>R_UserIndex = R_UserIndex task, R_TaskID = RESPONSE_LOGIN,
                R_DataSize = RedisLoginRes_size,
                R_pData = Some (RedisLoginRes_bytes pad res uid)\<rparr>))))"

text \<open>One turn of the loop of \<open>TaskProcessThread\<close>.\<close>

definition Redis_turn ::
  "(byte list \<Rightarrow> byte list option) \<Rightarrow> (nat \<Rightarrow> byte) \<Rightarrow> RedisManager \<Rightarrow> RedisManager outcome result" where
  "Redis_turn redis_get pad m =
     (case Redis_take_front m of
        None \<Rightarrow> Inr (if R_mIsTaskRun m then Blocked else Exited)
      | Some (task, m') \<Rightarrow>
          if R_TaskID task = RT_INVALID then Inr (Continue m')
          else if R_TaskID task = REQUEST_LOGIN then
            bindr (Redis_login_response redis_get pad task) (\<lambda>resTask.
              Inr (Continue (RedisManager_PushResponse m' resTask)))
          else Inr (Continue m'))"

text \<open>
  The loop, run until the worker waits or leaves: \<open>True\<close> in the result says that the thread has
  left its loop.
\<close>

function Redis_TaskProcessThread ::
  "(byte list \<Rightarrow> byte list option) \<Rightarrow> (nat \<Rightarrow> byte) \<Rightarrow> RedisManager \<Rightarrow> (bool \<times> RedisManager) result"
  where
  "Redis_TaskProcessThread redis_get pad m =
     (case Redis_turn redis_get pad m of
        Inl e \<Rightarrow> Inl e
      | Inr Blocked \<Rightarrow> Inr (False, m)
      | Inr Exited \<Rightarrow> Inr (True, m)
      | Inr (Continue m') \<Rightarrow> Redis_TaskProcessThread redis_get pad m')"
  by pat_completeness auto
termination
  by (relation "measure (\<lambda>(g, p, m). length (R_mRequestTask m))")
    (auto simp: Redis_turn_def Redis_take_front_def RedisManager_PushResponse_def result_simps
      split: list.splits if_splits)

declare Redis_TaskProcessThread.simps [simp del]

text \<open>
  \<open>End\<close> clears the flag and joins the threads that \<open>Run\<close> has started: the worker's loop runs to its exit, and with no
  thread there is nothing to wait for. The program starts one worker; several would take the requests in the same order.
\<close>

definition RedisManager_End ::
  "(byte list \<Rightarrow> byte list option) \<Rightarrow> (nat \<Rightarrow> byte) \<Rightarrow> RedisManager \<Rightarrow> RedisManager result" where
  "RedisManager_End redis_get pad m =
     (let m1 = m\<lparr>R_mIsTaskRun := False\<rparr> in
      if R_mTaskThreads m1 = 0 then Inr m1
      else bindr (Redis_TaskProcessThread redis_get pad m1) (\<lambda>(left, m'). Inr (m'\<lparr>R_mTaskThreads := 0\<rparr>)))"

interpretation rq: task_queue R_mRequestTask RedisManager_PushTask Redis_take_front
  by unfold_locales (auto simp: RedisManager_PushTask_def Redis_take_front_def)

section \<open>Answers\<close>

text \<open>A request as the logic thread builds it: name and password terminated inside their arrays.\<close>

definition login_request_task :: "nat \<Rightarrow> byte list \<Rightarrow> RedisTask" where
  "login_request_task i req = \<lparr>R_UserIndex = i, R_TaskID = REQUEST_LOGIN,
     R_DataSize = RedisLoginReq_size, R_pData = Some req\<rparr>"

definition redis_verdict :: "(byte list \<Rightarrow> byte list option) \<Rightarrow> byte list \<Rightarrow> byte list \<Rightarrow> ERROR_CODE" where
  "redis_verdict redis_get uid pw =
     (if redis_get uid = Some pw then EC_NONE else LOGIN_USER_INVALID_PW)"

lemma Redis_login_response_ok:
  assumes "0 \<notin> set uid" and "length uid \<le> MAX_USER_ID_LENGTH"
    and "0 \<notin> set pw" and "length pw \<le> MAX_USER_PW_LENGTH"
  shows "Redis_login_response redis_get pad (login_request_task i (char_field 33 uid @ char_field 33 pw)) =
    Inr \<lparr>R_UserIndex = i, R_TaskID = RESPONSE_LOGIN, R_DataSize = RedisLoginRes_size,
      R_pData = Some (RedisLoginRes_bytes pad (error_val (redis_verdict redis_get uid pw)) uid)\<rparr>"
proof -
  have u: "c_str (char_field 33 uid @ char_field 33 pw) = Inr uid"
    using assms(1,2) by (simp add: c_str_char_field packet_consts)
  have s: "strcpy_s 33 (char_field 33 uid @ char_field 33 pw) = Inr uid"
    using u assms(2) by (simp add: strcpy_s_eq_Inr packet_consts)
  have p: "c_str (char_field 33 pw) = Inr pw"
    using assms(3,4) c_str_char_field [of pw 33 "[]"] by (simp add: packet_consts)
  show ?thesis
    using u s p assms(2)
    by (simp add: Redis_login_response_def login_request_task_def redis_verdict_def packet_consts
        split: option.splits)
qed

text \<open>A name that fills its array runs into the invalid-parameter handler.\<close>

lemma Redis_login_response_overlong:
  assumes "R_pData task = Some req" and "c_str req = Inr s" and "MAX_USER_ID_LENGTH < length s"
  shows "Redis_login_response redis_get pad task = Inl InvalidParameter"
  using assms by (simp add: Redis_login_response_def strcpy_s_overflow)

lemma length_RedisLoginRes_bytes:
  "length uid \<le> MAX_USER_ID_LENGTH \<Longrightarrow> length (RedisLoginRes_bytes pad res uid) = RedisLoginRes_size"
  by (simp add: RedisLoginRes_bytes_def RedisLoginRes_size_def packet_consts)

lemma RedisLoginRes_fields:
  assumes "0 \<notin> set uid"
  shows "get_UINT16 (RedisLoginRes_bytes pad res uid) 0 = Inr res"
    and "c_str (drop 2 (RedisLoginRes_bytes pad res uid)) = Inr uid"
proof -
  have "get_UINT16 ([] @ put_UINT16 res @ (uid @ 0 # map pad [length uid + 1..<MAX_USER_ID_LENGTH + 1])) 0 =
      Inr res"
    by (rule get_put_UINT16) simp
  then show "get_UINT16 (RedisLoginRes_bytes pad res uid) 0 = Inr res"
    by (simp add: RedisLoginRes_bytes_def)
  show "c_str (drop 2 (RedisLoginRes_bytes pad res uid)) = Inr uid"
    using assms by (simp add: RedisLoginRes_bytes_def c_str_append_nul)
qed

section \<open>The worker's loop\<close>

lemma Redis_turn_empty:
  "R_mRequestTask m = [] \<Longrightarrow> Redis_turn g pad m = Inr (if R_mIsTaskRun m then Blocked else Exited)"
  by (simp add: Redis_turn_def Redis_take_front_def)

text \<open>
  What the worker adds to the response queue, as a function of the request queue alone: one answer
  per login request, in order, nothing for other tasks.
\<close>

fun redis_responses ::
  "(byte list \<Rightarrow> byte list option) \<Rightarrow> (nat \<Rightarrow> byte) \<Rightarrow> RedisTask list \<Rightarrow> RedisTask list result" where
  "redis_responses g pad [] = Inr []"
| "redis_responses g pad (t # ts) =
     (if R_TaskID t = REQUEST_LOGIN
      then bindr (Redis_login_response g pad t) (\<lambda>r.
             bindr (redis_responses g pad ts) (\<lambda>rs. Inr (r # rs)))
      else redis_responses g pad ts)"

lemma Redis_TaskProcessThread_eq:
  assumes "redis_responses g pad (R_mRequestTask m) = Inr rs"
  shows "Redis_TaskProcessThread g pad m = Inr (\<not> R_mIsTaskRun m,
    m\<lparr>R_mRequestTask := [], R_mResponseTask := R_mResponseTask m @ rs\<rparr>)"
  using assms
proof (induction "R_mRequestTask m" arbitrary: m rs)
  case Nil
  have "m = m\<lparr>R_mRequestTask := [], R_mResponseTask := R_mResponseTask m\<rparr>" using Nil(1) by simp
  then show ?case using Nil
    by (subst Redis_TaskProcessThread.simps) (simp add: Redis_turn_empty [OF Nil(1) [symmetric]])
next
  case (Cons t ts)
  let ?m' = "m\<lparr>R_mRequestTask := ts\<rparr>"
  show ?case
  proof (cases "R_TaskID t = REQUEST_LOGIN")
    case True
    then obtain r rs' where r: "Redis_login_response g pad t = Inr r"
      "redis_responses g pad ts = Inr rs'" "rs = r # rs'"
      using Cons(2) [symmetric] Cons(3) by (auto simp: result_simps)
    have "Redis_turn g pad m = Inr (Continue (RedisManager_PushResponse ?m' r))"
      using Cons(2) [symmetric] True r(1) by (simp add: Redis_turn_def Redis_take_front_def)
    then show ?thesis
      using Cons(1) [of "RedisManager_PushResponse ?m' r" rs'] r(2,3)
      by (subst Redis_TaskProcessThread.simps) (simp add: RedisManager_PushResponse_def)
  next
    case False
    then have "Redis_turn g pad m = Inr (Continue ?m')"
      using Cons(2) [symmetric] by (simp add: Redis_turn_def Redis_take_front_def)
    then show ?thesis
      using Cons(1) [of ?m' rs] Cons(2) [symmetric] Cons(3) False
      by (subst Redis_TaskProcessThread.simps) simp
  qed
qed

text \<open>A queue of login requests: a list of slot, name and password.\<close>

definition login_request_ok :: "nat \<times> byte list \<times> byte list \<Rightarrow> bool" where
  "login_request_ok q \<longleftrightarrow> (case q of (i, uid, pw) \<Rightarrow> 0 \<notin> set uid \<and> length uid \<le> MAX_USER_ID_LENGTH \<and>
     0 \<notin> set pw \<and> length pw \<le> MAX_USER_PW_LENGTH)"

definition login_answer ::
  "(byte list \<Rightarrow> byte list option) \<Rightarrow> (nat \<Rightarrow> byte) \<Rightarrow> nat \<times> byte list \<times> byte list \<Rightarrow> RedisTask" where
  "login_answer g pad q = (case q of (i, uid, pw) \<Rightarrow> \<lparr>R_UserIndex = i, R_TaskID = RESPONSE_LOGIN,
     R_DataSize = RedisLoginRes_size,
     R_pData = Some (RedisLoginRes_bytes pad (error_val (redis_verdict g uid pw)) uid)\<rparr>)"

lemma redis_responses_logins:
  assumes "list_all login_request_ok qs"
  shows "redis_responses g pad (map (\<lambda>(i, uid, pw). login_request_task i (char_field 33 uid @ char_field 33 pw)) qs) =
    Inr (map (login_answer g pad) qs)"
  using assms
proof (induction qs)
  case (Cons q qs)
  obtain i uid pw where q: "q = (i, uid, pw)" by (cases q)
  have "R_TaskID (login_request_task i r) = REQUEST_LOGIN" for r by (simp add: login_request_task_def)
  then show ?case
    using Cons Redis_login_response_ok [of uid pw g pad i] by (simp add: q login_request_ok_def login_answer_def)
qed simp

lemma RedisManager_End_logins:
  assumes "R_mTaskThreads m = 1" and "R_mRequestTask m = map (\<lambda>(i, uid, pw). login_request_task i (char_field 33 uid @ char_field 33 pw)) qs"
    and "list_all login_request_ok qs"
  shows "RedisManager_End g pad m = Inr (m\<lparr>R_mIsTaskRun := False, R_mRequestTask := [],
    R_mResponseTask := R_mResponseTask m @ map (login_answer g pad) qs, R_mTaskThreads := 0\<rparr>)"
  using Redis_TaskProcessThread_eq [of g pad "m\<lparr>R_mIsTaskRun := False\<rparr>" "map (login_answer g pad) qs"]
    redis_responses_logins [OF assms(3), of g pad] assms(1,2)
  by (simp add: RedisManager_End_def Let_def)

text \<open>Without a worker the requests stay in the queue, unanswered.\<close>

lemma RedisManager_End_no_worker:
  "R_mTaskThreads m = 0 \<Longrightarrow> RedisManager_End g pad m = Inr (m\<lparr>R_mIsTaskRun := False\<rparr>)"
  by (simp add: RedisManager_End_def)

end
