(* ===== verification/MySQLManager.thy ===== *)
theory MySQLManager
  imports TaskQueue Packet
begin

text \<open>
  \<open>MySQLTaskDefine.h\<close> and \<open>MysqlManager.h\<close>: the activity records the logic thread hands to the MySQL
  worker, and the worker that inserts them. The MySQL client library is the parameter \<open>mysql_env\<close>:
  the answers of its calls during one turn of the worker. The executed INSERTs are collected as
  \<open>sql_row\<close>s. A handle (connection, prepared statement) is a flag: it is open or a null pointer.
\<close>

section \<open>Tasks\<close>

datatype MySQLTaskID = MT_INVALID | INSERT_LOGIN_EVENT | INSERT_ROOM_EVENT | INSERT_CHAT_MESSAGE

fun mysql_task_val :: "MySQLTaskID \<Rightarrow> UINT16" where
  "mysql_task_val MT_INVALID = 0"
| "mysql_task_val INSERT_LOGIN_EVENT = 2001"
| "mysql_task_val INSERT_ROOM_EVENT = 2002"
| "mysql_task_val INSERT_CHAT_MESSAGE = 2003"

record MySQLTask =
  M_UserIndex :: nat
  M_TaskID :: MySQLTaskID
  M_DataSize :: nat
  M_pData :: "byte list option"

definition MySQLTask_default :: MySQLTask where
  "MySQLTask_default = \<lparr>M_UserIndex = 0, M_TaskID = MT_INVALID, M_DataSize = 0, M_pData = None\<rparr>"

definition MySQLTask_release :: "MySQLTask \<Rightarrow> MySQLTask" where
  "MySQLTask_release t = t\<lparr>M_pData := None\<rparr>"

datatype RoomEventType = ENTER | LEAVE

fun room_event_val :: "RoomEventType \<Rightarrow> UINT8" where
  "room_event_val ENTER = 1" | "room_event_val LEAVE = 2"

text \<open>The packed request structures, value-initialised and then filled.\<close>

definition MySQLLoginEventReq_bytes :: "byte list \<Rightarrow> UINT64 \<Rightarrow> byte list" where
  "MySQLLoginEventReq_bytes uid ts = char_field (MAX_USER_ID_LENGTH + 1) uid @ put_UINT64 ts"

definition MySQLRoomEventReq_bytes :: "byte list \<Rightarrow> int \<Rightarrow> RoomEventType \<Rightarrow> UINT64 \<Rightarrow> byte list" where
  "MySQLRoomEventReq_bytes uid room ev ts =
     char_field (MAX_USER_ID_LENGTH + 1) uid @ put_INT32 room @ [room_event_val ev] @ put_UINT64 ts"

definition MySQLChatMsgReq_bytes :: "byte list \<Rightarrow> int \<Rightarrow> byte list \<Rightarrow> UINT64 \<Rightarrow> byte list" where
  "MySQLChatMsgReq_bytes uid room msg ts =
     char_field (MAX_USER_ID_LENGTH + 1) uid @ put_INT32 room @
     char_field (MAX_CHAT_MSG + 1) msg @ put_UINT64 ts"

section \<open>The manager and its connection\<close>

record mysql_config =
  mHost :: string
  mUser :: string
  mPass :: string
  mDB :: string
  mPort :: nat

record MySQLManager =
  M_mRequestTask :: "MySQLTask list"
  M_mIsTaskRun :: bool
  M_mTaskThreads :: nat
  M_config :: mysql_config

definition rds_config :: mysql_config where
  "rds_config = \<lparr>mHost = ''chatserver-database.cts4w8y0e8qh.ap-northeast-2.rds.amazonaws.com'',
     mUser = ''admin'', mPass = ''12345678'', mDB = ''chatserver-database'', mPort = 3306\<rparr>"

definition MySQLManager_new :: MySQLManager where
  "MySQLManager_new = \<lparr>M_mRequestTask = [], M_mIsTaskRun = False, M_mTaskThreads = 0,
     M_config = \<lparr>mHost = '''', mUser = '''', mPass = '''', mDB = '''', mPort = 0\<rparr>\<rparr>"

text \<open>\<open>None\<close> is a null argument; each has its default.\<close>

definition MySQLManager_configure :: "MySQLManager \<Rightarrow> string option \<Rightarrow> string option \<Rightarrow>
    string option \<Rightarrow> string option \<Rightarrow> nat \<Rightarrow> MySQLManager" where
  "MySQLManager_configure m host user pass db port =
     m\<lparr>M_config := \<lparr>mHost = (case host of Some h \<Rightarrow> h | None \<Rightarrow> mHost rds_config),
       mUser = (case user of Some h \<Rightarrow> h | None \<Rightarrow> mUser rds_config),
       mPass = (case pass of Some h \<Rightarrow> h | None \<Rightarrow> mPass rds_config),
       mDB = (case db of Some h \<Rightarrow> h | None \<Rightarrow> mDB rds_config),
       mPort = (if port \<noteq> 0 then port else 3306)\<rparr>\<rparr>"

definition MySQLManager_Run :: "MySQLManager \<Rightarrow> nat \<Rightarrow> bool \<times> MySQLManager" where
  "MySQLManager_Run m threadCount =
     (True, m\<lparr>M_mIsTaskRun := True, M_mTaskThreads := M_mTaskThreads m + threadCount\<rparr>)"

definition MySQLManager_PushTask :: "MySQLManager \<Rightarrow> MySQLTask \<Rightarrow> MySQLManager" where
  "MySQLManager_PushTask m t = m\<lparr>M_mRequestTask := M_mRequestTask m @ [t]\<rparr>"

definition MySQLManager_TakeRequestTask :: "MySQLManager \<Rightarrow> MySQLTask \<times> MySQLManager" where
  "MySQLManager_TakeRequestTask m =
     (case M_mRequestTask m of
        [] \<Rightarrow> (MySQLTask_default, m)
      | t # ts \<Rightarrow> (t, m\<lparr>M_mRequestTask := ts\<rparr>))"

definition MySQL_take_front :: "MySQLManager \<Rightarrow> (MySQLTask \<times> MySQLManager) option" where
  "MySQL_take_front m =
     (case M_mRequestTask m of [] \<Rightarrow> None | t # ts \<Rightarrow> Some (t, m\<lparr>M_mRequestTask := ts\<rparr>))"

interpretation mq: task_queue M_mRequestTask MySQLManager_PushTask MySQL_take_front
  by unfold_locales (auto simp: MySQLManager_PushTask_def MySQL_take_front_def)

record MySQLConnection =
  connection :: bool
  stmtLogin :: bool
  stmtRoom :: bool
  stmtChat :: bool

definition MySQLConnection_new :: MySQLConnection where
  "MySQLConnection_new =
     \<lparr>connection = False, stmtLogin = False, stmtRoom = False, stmtChat = False\<rparr>"

text \<open>
  The library's answers in one turn: \<open>mysql_init\<close>, \<open>mysql_real_connect\<close> (to a configuration),
  \<open>mysql_ping\<close>, the three table creations, the three \<open>mysql_stmt_init\<close>, the three
  \<open>mysql_stmt_prepare\<close>, and bind and execute of the INSERT.
\<close>

record mysql_env =
  env_init :: bool
  env_connect :: "mysql_config \<Rightarrow> bool"
  env_ping :: bool
  env_create :: "bool \<times> bool \<times> bool"
  env_stmt_init :: "bool \<times> bool \<times> bool"
  env_prepare :: "bool \<times> bool \<times> bool"
  env_bind :: bool
  env_execute :: bool

definition MySQL_InitandConnect ::
  "mysql_env \<Rightarrow> MySQLManager \<Rightarrow> MySQLConnection \<Rightarrow> bool \<times> MySQLManager \<times> MySQLConnection" where
  "MySQL_InitandConnect env m conn =
     (let m' = (if mHost (M_config m) = '''' then m\<lparr>M_config := rds_config\<rparr> else m);
          conn' = conn\<lparr>connection := env_init env\<rparr>
      in if \<not> env_init env then (False, m', conn')
         else if \<not> env_connect env (M_config m') then (False, m', conn')
         else (True, m', conn'))"

definition MySQL_CloseConnection :: "MySQLConnection \<Rightarrow> MySQLConnection" where
  "MySQL_CloseConnection conn = (if connection conn then conn\<lparr>connection := False\<rparr> else conn)"

definition MySQL_CleanupStatements :: "MySQLConnection \<Rightarrow> MySQLConnection" where
  "MySQL_CleanupStatements conn = conn\<lparr>stmtLogin := False, stmtRoom := False, stmtChat := False\<rparr>"

text \<open>\<open>PrepareStatements\<close> hands the connection to the library, which must not be null.\<close>

definition MySQL_PrepareStatements ::
  "mysql_env \<Rightarrow> MySQLConnection \<Rightarrow> (bool \<times> MySQLConnection) result" where
  "MySQL_PrepareStatements env conn =
     (if \<not> connection conn then Inl NullPointer
      else case env_create env of (c1, c2, c3) \<Rightarrow>
        if \<not> c1 then Inr (False, conn)
        else if \<not> c2 then Inr (False, conn)
        else if \<not> c3 then Inr (False, conn)
        else case env_stmt_init env of (s1, s2, s3) \<Rightarrow>
          let conn' = conn\<lparr>stmtLogin := s1, stmtRoom := s2, stmtChat := s3\<rparr> in
          if \<not> s1 \<or> \<not> s2 \<or> \<not> s3 then Inr (False, conn')
          else case env_prepare env of (p1, p2, p3) \<Rightarrow>
            if \<not> p1 then Inr (False, conn')
            else if \<not> p2 then Inr (False, conn')
            else if \<not> p3 then Inr (False, conn')
            else Inr (True, conn'))"

definition MySQL_EnsureConnection :: "mysql_env \<Rightarrow> MySQLManager \<Rightarrow> MySQLConnection \<Rightarrow>
    (bool \<times> MySQLManager \<times> MySQLConnection) result" where
  "MySQL_EnsureConnection env m conn =
     (if connection conn \<and> env_ping env then Inr (True, m, conn)
      else
        (let conn1 = MySQL_CloseConnection (MySQL_CleanupStatements conn);
             (ok, m', conn2) = MySQL_InitandConnect env m conn1
         in if \<not> ok then Inr (False, m', conn2)
            else bindr (MySQL_PrepareStatements env conn2) (\<lambda>(ok', conn3). Inr (ok', m', conn3))))"

section \<open>The inserts\<close>

datatype sql_row =
    LoginRow "byte list" UINT64
  | RoomRow "byte list" int nat UINT64
  | ChatRow "byte list" int "byte list" UINT64

text \<open>\<open>mysql_stmt_bind_param\<close> and \<open>mysql_stmt_execute\<close> on a statement handle.\<close>

definition stmt_insert :: "mysql_env \<Rightarrow> bool \<Rightarrow> sql_row \<Rightarrow> sql_row list result" where
  "stmt_insert env stmt row =
     (if \<not> stmt then Inl NullPointer
      else Inr (if env_bind env \<and> env_execute env then [row] else []))"

definition MySQL_HandleInsertLogin ::
  "mysql_env \<Rightarrow> MySQLConnection \<Rightarrow> MySQLTask \<Rightarrow> sql_row list result" where
  "MySQL_HandleInsertLogin env conn task =
     (case M_pData task of
        None \<Rightarrow> Inl NullPointer
      | Some mem \<Rightarrow>
          bindr (get_UINT64 mem (MAX_USER_ID_LENGTH + 1)) (\<lambda>timestamp.
            stmt_insert env (stmtLogin conn)
              (LoginRow (strn_field (MAX_USER_ID_LENGTH + 1) mem) timestamp)))"

definition MySQL_HandleInsertRoom ::
  "mysql_env \<Rightarrow> MySQLConnection \<Rightarrow> MySQLTask \<Rightarrow> sql_row list result" where
  "MySQL_HandleInsertRoom env conn task =
     (case M_pData task of
        None \<Rightarrow> Inl NullPointer
      | Some mem \<Rightarrow>
          bindr (get_INT32 mem (MAX_USER_ID_LENGTH + 1)) (\<lambda>room.
          bindr (vec_at mem (MAX_USER_ID_LENGTH + 1 + 4)) (\<lambda>event.
          bindr (get_UINT64 mem (MAX_USER_ID_LENGTH + 1 + 4 + 1)) (\<lambda>timestamp.
            stmt_insert env (stmtRoom conn)
              (RoomRow (strn_field (MAX_USER_ID_LENGTH + 1) mem) room (unat event) timestamp)))))"

definition MySQL_HandleInsertChat ::
  "mysql_env \<Rightarrow> MySQLConnection \<Rightarrow> MySQLTask \<Rightarrow> sql_row list result" where
  "MySQL_HandleInsertChat env conn task =
     (case M_pData task of
        None \<Rightarrow> Inl NullPointer
      | Some mem \<Rightarrow>
          bindr (get_INT32 mem (MAX_USER_ID_LENGTH + 1)) (\<lambda>room.
          bindr (get_UINT64 mem (MAX_USER_ID_LENGTH + 1 + 4 + (MAX_CHAT_MSG + 1))) (\<lambda>timestamp.
            stmt_insert env (stmtChat conn)
              (ChatRow (strn_field (MAX_USER_ID_LENGTH + 1) mem) room
                (strn_field (MAX_CHAT_MSG + 1) (drop (MAX_USER_ID_LENGTH + 1 + 4) mem)) timestamp))))"

fun MySQL_dispatch :: "mysql_env \<Rightarrow> MySQLConnection \<Rightarrow> MySQLTask \<Rightarrow> sql_row list result" where
  "MySQL_dispatch env conn task =
     (case M_TaskID task of
        INSERT_LOGIN_EVENT \<Rightarrow> MySQL_HandleInsertLogin env conn task
      | INSERT_ROOM_EVENT \<Rightarrow> MySQL_HandleInsertRoom env conn task
      | INSERT_CHAT_MESSAGE \<Rightarrow> MySQL_HandleInsertChat env conn task
      | MT_INVALID \<Rightarrow> Inr [])"

section \<open>The worker\<close>

type_synonym mysql_state = "MySQLManager \<times> MySQLConnection \<times> sql_row list"

definition MySQL_turn :: "mysql_env \<Rightarrow> mysql_state \<Rightarrow> mysql_state outcome result" where
  "MySQL_turn env st =
     (case st of (m, conn, rows) \<Rightarrow>
      case MySQL_take_front m of
        None \<Rightarrow> Inr (if M_mIsTaskRun m then Blocked else Exited)
      | Some (task, m1) \<Rightarrow>
          if M_TaskID task = MT_INVALID then Inr (Continue (m1, conn, rows))
          else bindr (MySQL_EnsureConnection env m1 conn) (\<lambda>(ok, m2, conn2).
            if \<not> ok then Inr (Continue (m2, conn2, rows))
            else bindr (MySQL_dispatch env conn2 task) (\<lambda>new.
              Inr (Continue (m2, conn2, rows @ new)))))"

lemma InitandConnect_queue:
  "MySQL_InitandConnect env m conn = (ok, m', conn') \<Longrightarrow> M_mRequestTask m' = M_mRequestTask m \<and>
     M_mIsTaskRun m' = M_mIsTaskRun m"
  by (auto simp: MySQL_InitandConnect_def Let_def split: if_splits)

lemma EnsureConnection_queue:
  "MySQL_EnsureConnection env m conn = Inr (ok, m', conn') \<Longrightarrow>
     M_mRequestTask m' = M_mRequestTask m \<and> M_mIsTaskRun m' = M_mIsTaskRun m"
  by (auto simp: MySQL_EnsureConnection_def Let_def result_simps dest: InitandConnect_queue
      split: if_splits prod.splits)

lemma MySQL_turn_Continue:
  "MySQL_turn env (m, conn, rows) = Inr (Continue (m', conn', rows')) \<Longrightarrow>
     \<exists>t. M_mRequestTask m = t # M_mRequestTask m' \<and> M_mIsTaskRun m' = M_mIsTaskRun m"
  by (auto simp: MySQL_turn_def MySQL_take_front_def result_simps dest!: EnsureConnection_queue
      split: list.splits if_splits)

text \<open>The loop from turn \<open>k\<close> on, until the worker waits or leaves; \<open>env k\<close> answers in turn \<open>k\<close>.\<close>

function MySQL_loop :: "(nat \<Rightarrow> mysql_env) \<Rightarrow> nat \<Rightarrow> mysql_state \<Rightarrow> (bool \<times> mysql_state) result" where
  "MySQL_loop env k st =
     (case MySQL_turn (env k) st of
        Inl e \<Rightarrow> Inl e
      | Inr Blocked \<Rightarrow> Inr (False, st)
      | Inr Exited \<Rightarrow> Inr (True, st)
      | Inr (Continue st') \<Rightarrow> MySQL_loop env (Suc k) st')"
  by pat_completeness auto
termination
  by (relation "measure (\<lambda>(env, k, (m, _)). length (M_mRequestTask m))")
    (auto dest!: MySQL_turn_Continue)

declare MySQL_loop.simps [simp del]

text \<open>The rest of the thread from turn \<open>k\<close> on: the loop, and what the thread releases when it has left it.\<close>

definition MySQL_worker :: "(nat \<Rightarrow> mysql_env) \<Rightarrow> nat \<Rightarrow> mysql_state \<Rightarrow> (bool \<times> mysql_state) result" where
  "MySQL_worker env k st =
     bindr (MySQL_loop env k st) (\<lambda>(left, (m, conn, rows)).
       Inr (left, m, if left then MySQL_CloseConnection (MySQL_CleanupStatements conn) else conn, rows))"

text \<open>The whole thread: connect, prepare (both results ignored), loop, release.\<close>

definition MySQL_TaskProcessThread ::
  "(nat \<Rightarrow> mysql_env) \<Rightarrow> MySQLManager \<Rightarrow> (bool \<times> mysql_state) result" where
  "MySQL_TaskProcessThread env m =
     (let (_, m1, conn1) = MySQL_InitandConnect (env 0) m MySQLConnection_new in
      bindr (MySQL_PrepareStatements (env 0) conn1) (\<lambda>(_, conn2).
      MySQL_worker env 1 (m1, conn2, [])))"

text \<open>\<open>End\<close> clears the flag and joins the threads that \<open>Run\<close> has started; with none there is nothing to wait for.\<close>

definition MySQLManager_End ::
  "(nat \<Rightarrow> mysql_env) \<Rightarrow> nat \<Rightarrow> mysql_state \<Rightarrow> mysql_state result" where
  "MySQLManager_End env k st =
     (case st of (m, conn, rows) \<Rightarrow>
      let m1 = m\<lparr>M_mIsTaskRun := False\<rparr> in
      if M_mTaskThreads m1 = 0 then Inr (m1, conn, rows)
      else bindr (MySQL_worker env k (m1, conn, rows)) (\<lambda>(left, (m', conn', rows')).
        Inr (m'\<lparr>M_mTaskThreads := 0\<rparr>, conn', rows')))"

section \<open>What arrives in the tables\<close>

text \<open>Tasks as the logic thread builds them, and the row each stands for.\<close>

datatype activity =
    LoginActivity "byte list" UINT64
  | RoomActivity "byte list" int RoomEventType UINT64
  | ChatActivity "byte list" int "byte list" UINT64

fun task_of :: "nat \<Rightarrow> activity \<Rightarrow> MySQLTask" where
  "task_of i (LoginActivity uid ts) = \<lparr>M_UserIndex = i, M_TaskID = INSERT_LOGIN_EVENT,
     M_DataSize = 41, M_pData = Some (MySQLLoginEventReq_bytes uid ts)\<rparr>"
| "task_of i (RoomActivity uid room ev ts) = \<lparr>M_UserIndex = i, M_TaskID = INSERT_ROOM_EVENT,
     M_DataSize = 46, M_pData = Some (MySQLRoomEventReq_bytes uid room ev ts)\<rparr>"
| "task_of i (ChatActivity uid room msg ts) = \<lparr>M_UserIndex = i, M_TaskID = INSERT_CHAT_MESSAGE,
     M_DataSize = 302, M_pData = Some (MySQLChatMsgReq_bytes uid room msg ts)\<rparr>"

fun row_of :: "activity \<Rightarrow> sql_row" where
  "row_of (LoginActivity uid ts) = LoginRow uid ts"
| "row_of (RoomActivity uid room ev ts) = RoomRow uid room (unat (room_event_val ev)) ts"
| "row_of (ChatActivity uid room msg ts) = ChatRow uid room msg ts"

definition name_ok :: "byte list \<Rightarrow> bool" where
  "name_ok s \<longleftrightarrow> 0 \<notin> set s \<and> length s \<le> MAX_USER_ID_LENGTH"

fun activity_ok :: "activity \<Rightarrow> bool" where
  "activity_ok (LoginActivity uid ts) \<longleftrightarrow> name_ok uid"
| "activity_ok (RoomActivity uid room ev ts) \<longleftrightarrow> name_ok uid \<and> - (2 ^ 31) \<le> room \<and> room < 2 ^ 31"
| "activity_ok (ChatActivity uid room msg ts) \<longleftrightarrow> name_ok uid \<and> - (2 ^ 31) \<le> room \<and> room < 2 ^ 31 \<and>
     0 \<notin> set msg \<and> length msg \<le> MAX_CHAT_MSG"

definition stmts_open :: "MySQLConnection \<Rightarrow> bool" where
  "stmts_open conn \<longleftrightarrow> connection conn \<and> stmtLogin conn \<and> stmtRoom conn \<and> stmtChat conn"

lemma dispatch_row:
  assumes "activity_ok a" and "stmts_open conn"
  shows "MySQL_dispatch env conn (task_of i a) =
    Inr (if env_bind env \<and> env_execute env then [row_of a] else [])"
proof (cases a)
  case (LoginActivity uid ts)
  have "get_UINT64 (char_field 33 uid @ put_UINT64 ts @ []) 33 = Inr ts"
    using assms(1) LoginActivity by (intro get_put_UINT64) (simp add: name_ok_def packet_consts)
  moreover have "strn_field 33 (char_field 33 uid @ put_UINT64 ts) = uid"
    using assms(1) LoginActivity by (intro strn_char_field) (simp_all add: name_ok_def packet_consts)
  ultimately show ?thesis
    using LoginActivity assms(2)
    by (simp add: MySQL_HandleInsertLogin_def MySQLLoginEventReq_bytes_def stmt_insert_def
        stmts_open_def packet_consts)
next
  case (RoomActivity uid room ev ts)
  let ?n = "char_field 33 uid" and ?e = "room_event_val ev"
  have n: "length ?n = 33" using assms(1) RoomActivity by (simp add: name_ok_def packet_consts)
  have "get_INT32 (?n @ put_INT32 room @ ([?e] @ put_UINT64 ts)) 33 = Inr room"
    using assms(1) RoomActivity n by (intro get_put_INT32) simp_all
  moreover have "get_UINT64 ((?n @ put_INT32 room @ [?e]) @ put_UINT64 ts @ []) 38 = Inr ts"
    using n by (intro get_put_UINT64) simp
  moreover have "vec_at ((?n @ put_INT32 room) @ ?e # put_UINT64 ts) 37 = Inr ?e"
    using n by (simp add: vec_at_def nth_append)
  moreover have "strn_field 33 (?n @ (put_INT32 room @ [?e] @ put_UINT64 ts)) = uid"
    using assms(1) RoomActivity by (intro strn_char_field) (simp_all add: name_ok_def packet_consts)
  ultimately show ?thesis
    using RoomActivity assms(2)
    by (simp add: MySQL_HandleInsertRoom_def MySQLRoomEventReq_bytes_def stmt_insert_def
        stmts_open_def packet_consts)
next
  case (ChatActivity uid room msg ts)
  let ?n = "char_field 33 uid" and ?m = "char_field 257 msg"
  have n: "length ?n = 33" "length ?m = 257"
    using assms(1) ChatActivity by (simp_all add: name_ok_def packet_consts)
  have "get_INT32 (?n @ put_INT32 room @ (?m @ put_UINT64 ts)) 33 = Inr room"
    using assms(1) ChatActivity n by (intro get_put_INT32) simp_all
  moreover have "get_UINT64 ((?n @ put_INT32 room @ ?m) @ put_UINT64 ts @ []) 294 = Inr ts"
    using n by (intro get_put_UINT64) simp
  moreover have "strn_field 33 (?n @ (put_INT32 room @ ?m @ put_UINT64 ts)) = uid"
    using assms(1) ChatActivity by (intro strn_char_field) (simp_all add: name_ok_def packet_consts)
  moreover have "strn_field 257 (?m @ put_UINT64 ts) = msg"
    using assms(1) ChatActivity by (intro strn_char_field) (simp_all add: packet_consts)
  ultimately show ?thesis
    using ChatActivity assms(2) n
    by (simp add: MySQL_HandleInsertChat_def MySQLChatMsgReq_bytes_def stmt_insert_def
        stmts_open_def packet_consts)
qed

text \<open>A server that answers: the connection stays alive and inserts are executed.\<close>

definition healthy :: "mysql_env \<Rightarrow> bool" where
  "healthy env \<longleftrightarrow> env_ping env \<and> env_bind env \<and> env_execute env"

lemma healthy_turn:
  assumes "M_mRequestTask m = task_of i a # ts" and "activity_ok a" and "stmts_open conn"
    and "healthy env"
  shows "MySQL_turn env (m, conn, rows) =
    Inr (Continue (m\<lparr>M_mRequestTask := ts\<rparr>, conn, rows @ [row_of a]))"
proof -
  have "M_TaskID (task_of i a) \<noteq> MT_INVALID" by (cases a) simp_all
  moreover have "MySQL_EnsureConnection env (m\<lparr>M_mRequestTask := ts\<rparr>) conn =
      Inr (True, m\<lparr>M_mRequestTask := ts\<rparr>, conn)"
    using assms(3,4) by (simp add: MySQL_EnsureConnection_def stmts_open_def healthy_def)
  moreover have "MySQL_dispatch env conn (task_of i a) = Inr [row_of a]"
    using dispatch_row [OF assms(2,3)] assms(4) by (simp add: healthy_def)
  ultimately show ?thesis
    using assms(1) by (simp add: MySQL_turn_def MySQL_take_front_def del: MySQL_dispatch.simps)
qed

lemma MySQL_turn_empty:
  "M_mRequestTask m = [] \<Longrightarrow> MySQL_turn env (m, conn, rows) =
     Inr (if M_mIsTaskRun m then Blocked else Exited)"
  by (simp add: MySQL_turn_def MySQL_take_front_def)

lemma healthy_loop:
  assumes "M_mRequestTask m = map (\<lambda>(i, a). task_of i a) ias"
    and "list_all (\<lambda>(i, a). activity_ok a) ias" and "stmts_open conn" and "\<And>j. healthy (env j)"
  shows "MySQL_loop env k (m, conn, rows) = Inr (\<not> M_mIsTaskRun m,
    m\<lparr>M_mRequestTask := []\<rparr>, conn, rows @ map (\<lambda>(i, a). row_of a) ias)"
  using assms(1,2)
proof (induction ias arbitrary: m rows k)
  case Nil
  then have m: "m = m\<lparr>M_mRequestTask := []\<rparr>" by simp
  show ?case
    using Nil m by (subst MySQL_loop.simps) (simp add: MySQL_turn_empty)
next
  case (Cons ia ias)
  obtain i a where ia: "ia = (i, a)" by (cases ia)
  have "MySQL_turn (env k) (m, conn, rows) =
      Inr (Continue (m\<lparr>M_mRequestTask := map (\<lambda>(i, a). task_of i a) ias\<rparr>, conn, rows @ [row_of a]))"
    using Cons.prems ia assms(3,4) by (intro healthy_turn) simp_all
  then show ?case
    using Cons.IH [of "m\<lparr>M_mRequestTask := map (\<lambda>(i, a). task_of i a) ias\<rparr>" "Suc k" "rows @ [row_of a]"]
      Cons.prems ia
    by (subst MySQL_loop.simps) simp
qed

section \<open>Failures\<close>

text \<open>
  The worker ignores the result of its first \<open>PrepareStatements\<close>. With a connection that answers the
  ping, \<open>EnsureConnection\<close> then does not prepare the statements again.
\<close>

lemma unprepared_statement:
  assumes "connection conn" and "env_ping env" and "\<not> stmtLogin conn" and "name_ok uid"
    and "M_mRequestTask m = task_of i (LoginActivity uid ts) # rest"
  shows "MySQL_turn env (m, conn, rows) = Inl NullPointer"
proof -
  have "get_UINT64 (MySQLLoginEventReq_bytes uid ts) (MAX_USER_ID_LENGTH + 1) = Inr ts"
    using assms(4) get_put_UINT64 [of "char_field (MAX_USER_ID_LENGTH + 1) uid" _ ts "[]"]
    by (simp add: MySQLLoginEventReq_bytes_def name_ok_def packet_consts)
  then show ?thesis
    using assms by (simp add: MySQL_turn_def MySQL_take_front_def MySQL_EnsureConnection_def
        MySQL_HandleInsertLogin_def stmt_insert_def)
qed

lemma failed_prepare_ends_worker:
  assumes "env_init (env 0)" and "\<And>c. env_connect (env 0) c" and "\<not> fst (env_create (env 0))"
    and "env_ping (env 1)" and "name_ok uid"
    and "M_mRequestTask m = task_of i (LoginActivity uid ts) # rest"
  shows "MySQL_TaskProcessThread env m = Inl NullPointer"
proof -
  obtain m1 where m1: "MySQL_InitandConnect (env 0) m MySQLConnection_new =
      (True, m1, MySQLConnection_new\<lparr>connection := True\<rparr>)"
    using assms(1,2) by (simp add: MySQL_InitandConnect_def)
  have q: "M_mRequestTask m1 = task_of i (LoginActivity uid ts) # rest"
    using InitandConnect_queue [OF m1] assms(6) by simp
  let ?conn = "MySQLConnection_new\<lparr>connection := True\<rparr>"
  have p: "MySQL_PrepareStatements (env 0) ?conn = Inr (False, ?conn)"
    using assms(3) by (cases "env_create (env 0)") (simp add: MySQL_PrepareStatements_def)
  have "MySQL_turn (env 1) (m1, ?conn, []) = Inl NullPointer"
    by (rule unprepared_statement [OF _ assms(4) _ assms(5) q]) (simp_all add: MySQLConnection_new_def)
  then have "MySQL_loop env 1 (m1, ?conn, []) = Inl NullPointer"
    by (subst MySQL_loop.simps) simp
  then show ?thesis by (simp add: MySQL_TaskProcessThread_def MySQL_worker_def m1 p)
qed

text \<open>An activity that comes while the database cannot be reached is dropped.\<close>

lemma outage_drops_task:
  assumes "\<not> connection conn \<or> \<not> env_ping env" and "\<not> env_init env \<or> (\<forall>c. \<not> env_connect env c)"
    and "M_mRequestTask m = t # rest" and "M_TaskID t \<noteq> MT_INVALID"
  shows "\<exists>m' conn'. MySQL_turn env (m, conn, rows) = Inr (Continue (m', conn', rows)) \<and> M_mRequestTask m' = rest"
  using assms
  by (auto simp: MySQL_turn_def MySQL_take_front_def MySQL_EnsureConnection_def MySQL_InitandConnect_def Let_def)

end
