(* ===== verification/PacketManager.thy ===== *)
theory PacketManager
  imports RoomManager RedisManager MySQLManager
begin

text \<open>
  \<open>PacketManager.h/.cpp\<close>: the packet handlers of the logic thread and the operations by which the
  network threads feed it. The record holds the four managers, the double-buffered queues, and two
  fields for the environment: \<open>sent\<close>, the calls of \<open>SendPacketFunc\<close> so far, and \<open>clock\<close>, what
  \<open>time(nullptr)\<close> returns. The handlers are the member functions in the source's order; the loop of
  \<open>ProcessPacket\<close> is in the theory \<open>LogicThread\<close>. Console output is not modelled.
\<close>

section \<open>State\<close>

record PacketTask =
  clientIndex :: nat
  generation :: UINT32

record PacketManager =
  mUserManager :: UserManager
  mRoomManager :: RoomManager
  mRedisManager :: RedisManager
  mMySQLManager :: MySQLManager
  mIsRunProcessThread :: bool
  mSystemWriteBuffer :: "PacketInfo list"
  mSystemReadBuffer :: "PacketInfo list"
  mWriteBuffer :: "PacketTask list"
  mReadBuffer :: "PacketTask list"
  sent :: "send list"
  clock :: UINT64

datatype Handler =
    H_ProcessUserConnect | H_ProcessUserDisconnect | H_ProcessLogin | H_ProcessLoginDBResult
  | H_ProcessEnterRoom | H_ProcessLeaveRoom | H_ProcessRoomChatMessage | H_Pong

text \<open>\<open>RegisterHandlers\<close>: the table \<open>mPacketHandlers\<close>; a lambda is named by what it calls.\<close>

definition mPacketHandlers :: "UINT16 \<Rightarrow> Handler option" where
  "mPacketHandlers = Map.empty
     (packet_id_val SYS_USER_CONNECT \<mapsto> H_ProcessUserConnect,
      packet_id_val SYS_USER_DISCONNECT \<mapsto> H_ProcessUserDisconnect,
      packet_id_val LOGIN_REQUEST \<mapsto> H_ProcessLogin,
      redis_task_val RESPONSE_LOGIN \<mapsto> H_ProcessLoginDBResult,
      packet_id_val ROOM_ENTER_REQUEST \<mapsto> H_ProcessEnterRoom,
      packet_id_val ROOM_LEAVE_REQUEST \<mapsto> H_ProcessLeaveRoom,
      packet_id_val ROOM_CHAT_REQUEST \<mapsto> H_ProcessRoomChatMessage,
      packet_id_val SYS_PONG \<mapsto> H_Pong)"

definition startRoomNumber :: int where "startRoomNumber = 0"
definition maxRoomUserCount :: int where "maxRoomUserCount = 8"
definition maxRoomCount :: nat where "maxRoomCount = 250"

definition PacketManager_CreateComponent :: "user_memory \<Rightarrow> nat \<Rightarrow> UserManager \<times> RoomManager" where
  "PacketManager_CreateComponent mem maxClient =
     (UserManager_Init mem maxClient,
      RoomManager_Init startRoomNumber maxRoomCount maxRoomUserCount)"

definition PacketManager_Init :: "user_memory \<Rightarrow> nat \<Rightarrow> PacketManager" where
  "PacketManager_Init mem maxClient =
     (let (um, rm) = PacketManager_CreateComponent mem maxClient in
      \<lparr>mUserManager = um, mRoomManager = rm,
       mRedisManager = RedisManager_new, mMySQLManager = MySQLManager_new,
       mIsRunProcessThread = False, mSystemWriteBuffer = [], mSystemReadBuffer = [],
       mWriteBuffer = [], mReadBuffer = [], sent = [], clock = 0\<rparr>)"

text \<open>\<open>Run\<close>, in the local configuration (\<open>USE_AMAZON_AWS_DB\<close> is not defined).\<close>

definition PacketManager_Run :: "PacketManager \<Rightarrow> bool \<times> PacketManager" where
  "PacketManager_Run pm =
     (let (ok, red) = RedisManager_Run (mRedisManager pm) 1; pm1 = pm\<lparr>mRedisManager := red\<rparr> in
      if \<not> ok then (False, pm1)
      else
        (let my = MySQLManager_configure (mMySQLManager pm1) (Some ''127.0.0.1'') (Some ''root'')
               (Some ''1234'') (Some ''chatserver_local'') 3306;
             (ok', my') = MySQLManager_Run my 1; pm2 = pm1\<lparr>mMySQLManager := my'\<rparr>
         in if \<not> ok' then (False, pm2) else (True, pm2\<lparr>mIsRunProcessThread := True\<rparr>)))"

section \<open>Access through pointers\<close>

definition deref :: "PacketManager \<Rightarrow> pkt_ptr \<Rightarrow> byte list result" where
  "deref pm p =
     (case p of
        NullPtr \<Rightarrow> Inl NullPointer
      | TempBuf i \<Rightarrow> bindr (UserManager_GetUserByConnIdx (mUserManager pm) i) (\<lambda>u.
          Inr (m_tempPacketBuffer u))
      | HeapBuf bs \<Rightarrow> Inr bs)"

text \<open>
  A store through the pointer. The heap block of a Redis task is freed when its handler returns and
  is not read after the store, so the store into it has no effect here.
\<close>

definition store :: "PacketManager \<Rightarrow> pkt_ptr \<Rightarrow> nat \<Rightarrow> byte list \<Rightarrow> PacketManager result" where
  "store pm p off bs =
     (case p of
        NullPtr \<Rightarrow> Inl NullPointer
      | TempBuf i \<Rightarrow> bindr (UserManager_GetUserByConnIdx (mUserManager pm) i) (\<lambda>u.
          bindr (mem_write (m_tempPacketBuffer u) off bs) (\<lambda>mem.
            Inr (pm\<lparr>mUserManager := put_user (mUserManager pm) i (u\<lparr>m_tempPacketBuffer := mem\<rparr>)\<rparr>)))
      | HeapBuf mem \<Rightarrow> bindr (mem_write mem off bs) (\<lambda>_. Inr pm))"

text \<open>
  \<open>SendPacketFunc\<close> as the handlers call it: the size passed is the size of the packet's structure at every call. The
  broadcast of a room takes the size as an argument, see \<open>Room_SendToAllUser\<close>.
\<close>

definition pm_send :: "PacketManager \<Rightarrow> nat \<Rightarrow> packet \<Rightarrow> PacketManager" where
  "pm_send pm i p = pm\<lparr>sent := sent pm @ [(i, packet_sizeof p, p)]\<rparr>"

definition push_activity :: "PacketManager \<Rightarrow> nat \<Rightarrow> activity \<Rightarrow> PacketManager" where
  "push_activity pm i a =
     pm\<lparr>mMySQLManager := MySQLManager_PushTask (mMySQLManager pm) (task_of i a)\<rparr>"

section \<open>Receiving\<close>

definition PacketManager_EnqueuePacketData :: "PacketManager \<Rightarrow> nat \<Rightarrow> PacketManager result" where
  "PacketManager_EnqueuePacketData pm i =
     bindr (UserManager_GetUserByConnIdx (mUserManager pm) i) (\<lambda>u.
       Inr (pm\<lparr>mWriteBuffer := mWriteBuffer pm @
         [\<lparr>clientIndex = i, generation = User_GetGeneration u\<rparr>]\<rparr>))"

definition PacketManager_ReceivePacketData ::
  "PacketManager \<Rightarrow> nat \<Rightarrow> nat \<Rightarrow> byte list option \<Rightarrow> PacketManager result" where
  "PacketManager_ReceivePacketData pm i dataSize pData =
     bindr (UserManager_GetUserByConnIdx (mUserManager pm) i) (\<lambda>u.
     bindr (User_SetPacketData u dataSize pData) (\<lambda>u'.
       PacketManager_EnqueuePacketData
         (pm\<lparr>mUserManager := put_user (mUserManager pm) i u'\<rparr>) i))"

definition PacketManager_PushSystemPacket :: "PacketManager \<Rightarrow> PacketInfo \<Rightarrow> PacketManager" where
  "PacketManager_PushSystemPacket pm pk = pm\<lparr>mSystemWriteBuffer := mSystemWriteBuffer pm @ [pk]\<rparr>"

section \<open>Connections\<close>

definition PacketManager_ClearConnectionInfo :: "PacketManager \<Rightarrow> nat \<Rightarrow> PacketManager result" where
  "PacketManager_ClearConnectionInfo pm i =
     (let pm1 = pm\<lparr>mWriteBuffer := filter (\<lambda>t. clientIndex t \<noteq> i) (mWriteBuffer pm)\<rparr> in
      bindr (UserManager_GetUserByConnIdx (mUserManager pm1) i) (\<lambda>u.
      bindr (if User_GetDomainState u = DS_ROOM
             then bindr (RoomManager_LeaveUser (mRoomManager pm1) (User_GetRoomIndex u) i u)
               (\<lambda>(_, rm', u'). Inr (pm1\<lparr>mRoomManager := rm',
                  mUserManager := put_user (mUserManager pm1) i u'\<rparr>))
             else Inr pm1) (\<lambda>pm2.
      bindr (UserManager_GetUserByConnIdx (mUserManager pm2) i) (\<lambda>u2.
        if User_GetDomainState u2 \<noteq> DS_NONE
        then bindr (UserManager_DeleteUserInfo (mUserManager pm2) i) (\<lambda>um'.
               Inr (pm2\<lparr>mUserManager := um'\<rparr>))
        else Inr pm2))))"

definition ProcessUserConnect ::
  "PacketManager \<Rightarrow> nat \<Rightarrow> UINT16 \<Rightarrow> pkt_ptr \<Rightarrow> PacketManager result" where
  "ProcessUserConnect pm i packetSize p =
     bindr (UserManager_GetUserByConnIdx (mUserManager pm) i) (\<lambda>_. Inr pm)"

definition ProcessUserDisconnect ::
  "PacketManager \<Rightarrow> nat \<Rightarrow> UINT16 \<Rightarrow> pkt_ptr \<Rightarrow> PacketManager result" where
  "ProcessUserDisconnect pm i packetSize p = PacketManager_ClearConnectionInfo pm i"

section \<open>Login\<close>

text \<open>\<open>strncmp(pUserID, "test_user", 9) == 0\<close>: the load-test prefix that skips authentication.\<close>

definition is_test_user :: "byte list \<Rightarrow> bool" where
  "is_test_user pUserID \<longleftrightarrow> take 9 pUserID = bytes_of_string ''test_user''"

definition ProcessLogin ::
  "PacketManager \<Rightarrow> nat \<Rightarrow> UINT16 \<Rightarrow> pkt_ptr \<Rightarrow> PacketManager result" where
  "ProcessLogin pm i packetSize p =
     (if LOGIN_REQUEST_PACKET_SIZE \<noteq> unat packetSize then Inr pm
      else bindr (deref pm p) (\<lambda>mem.
        let pUserID = drop off_UserID mem; um = mUserManager pm in
        if is_test_user pUserID then
          bindr (UserManager_GetUserByConnIdx um i) (\<lambda>u.
          bindr (User_SetLogin u pUserID) (\<lambda>u'.
          bindr (UserManager_Adduser (put_user um i u') pUserID i) (\<lambda>(_, um').
            Inr (pm_send (pm\<lparr>mUserManager := um'\<rparr>) i (LOGIN_RESPONSE_PACKET (error_val EC_NONE))))))
        else
          bindr (UserManager_FindUserIndexByID um pUserID) (\<lambda>existingIndex.
            if existingIndex \<noteq> -1
            then Inr (pm_send pm i (LOGIN_RESPONSE_PACKET (error_val LOGIN_USER_ALREADY)))
            else if UserManager_GetCurrentUserCnt um \<ge> UserManager_GetMaxUserCnt um
            then Inr (pm_send pm i (LOGIN_RESPONSE_PACKET (error_val LOGIN_USER_USED_ALL_OBJ)))
            else bindr (UserManager_FindUserIndexByID um pUserID) (\<lambda>existingIndex2.
              if existingIndex2 = -1 then
                bindr (mem_read mem off_UserID (MAX_USER_ID_LENGTH + 1)) (\<lambda>uid.
                bindr (mem_read mem off_UserPW (MAX_USER_PW_LENGTH + 1)) (\<lambda>pw.
                  Inr (pm\<lparr>mRedisManager :=
                    RedisManager_PushTask (mRedisManager pm) (login_request_task i (uid @ pw))\<rparr>)))
              else Inr (pm_send pm i (LOGIN_RESPONSE_PACKET (error_val LOGIN_USER_ALREADY)))))))"

text \<open>
  The answer of the database. \<open>pBody\<close> is the pointer seen as a \<open>RedisLoginRes\<close>: a result code and,
  from offset 2, the user name; on a failed \<open>Adduser\<close> the code is overwritten in place.
\<close>

definition ProcessLoginDBResult ::
  "PacketManager \<Rightarrow> nat \<Rightarrow> UINT16 \<Rightarrow> pkt_ptr \<Rightarrow> PacketManager result" where
  "ProcessLoginDBResult pm i packetSize p =
     bindr (deref pm p) (\<lambda>mem.
     bindr (get_UINT16 mem 0) (\<lambda>res.
       if res = error_val EC_NONE then
         bindr (UserManager_Adduser (mUserManager pm) (drop 2 mem) i) (\<lambda>(ec, um).
           let pm1 = pm\<lparr>mUserManager := um\<rparr> in
           if ec \<noteq> EC_NONE then
             bindr (store pm1 p 0 (put_UINT16 (error_val LOGIN_USER_USED_ALL_OBJ))) (\<lambda>pm2.
               Inr (pm_send pm2 i (LOGIN_RESPONSE_PACKET (error_val LOGIN_USER_USED_ALL_OBJ))))
           else
             bindr (UserManager_GetUserByConnIdx um i) (\<lambda>u.
             bindr (strcpy_s (MAX_USER_ID_LENGTH + 1) (nul_terminated (User_GetUserID u))) (\<lambda>uid.
               Inr (pm_send (push_activity
                 (pm1\<lparr>mUserManager := UserManager_IncreaseUserCnt um\<rparr>) i
                 (LoginActivity uid (clock pm))) i (LOGIN_RESPONSE_PACKET res)))))
       else Inr (pm_send pm i (LOGIN_RESPONSE_PACKET res))))"

section \<open>Rooms\<close>

text \<open>The chat packet the server makes up for its own announcements.\<close>

definition tempChatPacket :: "string \<Rightarrow> byte list" where
  "tempChatPacket s = ROOM_CHAT_REQUEST_PACKET 0 (bytes_of_string s)"

definition send_all :: "PacketManager \<Rightarrow> send list \<Rightarrow> PacketManager" where
  "send_all pm sends = pm\<lparr>sent := sent pm @ sends\<rparr>"

text \<open>\<open>pRoom->NotifyChat(clientIndex, name, packet)\<close> on the room with a given index.\<close>

definition notify_room ::
  "PacketManager \<Rightarrow> nat \<Rightarrow> nat \<Rightarrow> byte list \<Rightarrow> byte list \<Rightarrow> PacketManager result" where
  "notify_room pm k i name msg =
     bindr (vec_at (mRoomList (mRoomManager pm)) k) (\<lambda>r.
     bindr (Room_NotifyChat r (mUserObjPool (mUserManager pm)) i (nul_terminated name) msg) (\<lambda>sends.
       Inr (send_all pm sends)))"

definition ProcessEnterRoom ::
  "PacketManager \<Rightarrow> nat \<Rightarrow> UINT16 \<Rightarrow> pkt_ptr \<Rightarrow> PacketManager result" where
  "ProcessEnterRoom pm i packetSize p =
     bindr (UserManager_GetUserByConnIdx (mUserManager pm) i) (\<lambda>u.
       if User_GetDomainState u \<noteq> DS_LOGIN
       then Inr (pm_send pm i (ROOM_ENTER_RESPONSE_PACKET (error_val ENTER_ROOM_INVALID_USER_STATUS)))
       else
         bindr (deref pm p) (\<lambda>mem.
         bindr (ROOM_ENTER_REQUEST_RoomNumber mem) (\<lambda>number.
         bindr (RoomManager_EnterUser (mRoomManager pm) number i u) (\<lambda>(res, rm', u').
           let pm1 = pm\<lparr>mRoomManager := rm', mUserManager := put_user (mUserManager pm) i u'\<rparr> in
           bindr (if res = error_val EC_NONE then
               bindr (strcpy_s (MAX_USER_ID_LENGTH + 1) (nul_terminated (User_GetUserID u'))) (\<lambda>uid.
                 let pm2 = push_activity pm1 i (RoomActivity uid number ENTER (clock pm1)) in
                 case RoomManager_GetRoomByNumber (mRoomManager pm2) number of
                   None \<Rightarrow> Inr pm2
                 | Some k \<Rightarrow>
                     notify_room pm2 k i (User_GetUserID u') (tempChatPacket ''entered the room.''))
             else Inr pm1) (\<lambda>pm3.
           Inr (pm_send pm3 i (ROOM_ENTER_RESPONSE_PACKET res)))))))"

definition ProcessLeaveRoom ::
  "PacketManager \<Rightarrow> nat \<Rightarrow> UINT16 \<Rightarrow> pkt_ptr \<Rightarrow> PacketManager result" where
  "ProcessLeaveRoom pm i packetSize p =
     bindr (UserManager_GetUserByConnIdx (mUserManager pm) i) (\<lambda>u.
       let roomNumber = User_GetRoomIndex u;
           pRoom = RoomManager_GetRoomByNumber (mRoomManager pm) roomNumber in
       bindr (RoomManager_LeaveUser (mRoomManager pm) roomNumber i u) (\<lambda>(res, rm', u').
         let pm1 = pm\<lparr>mRoomManager := rm', mUserManager := put_user (mUserManager pm) i u'\<rparr> in
         bindr (if res = error_val EC_NONE then
             bindr (strcpy_s (MAX_USER_ID_LENGTH + 1) (nul_terminated (User_GetUserID u'))) (\<lambda>uid.
               let pm2 = push_activity pm1 i (RoomActivity uid roomNumber LEAVE (clock pm1)) in
               case pRoom of
                 None \<Rightarrow> Inr pm2
               | Some k \<Rightarrow>
                   notify_room pm2 k i (User_GetUserID u') (tempChatPacket ''has left the room.''))
           else Inr pm1) (\<lambda>pm3.
         Inr (pm_send pm3 i (ROOM_LEAVE_RESPONSE_PACKET res)))))"

definition ProcessRoomChatMessage ::
  "PacketManager \<Rightarrow> nat \<Rightarrow> UINT16 \<Rightarrow> pkt_ptr \<Rightarrow> PacketManager result" where
  "ProcessRoomChatMessage pm i packetSize p =
     bindr (UserManager_GetUserByConnIdx (mUserManager pm) i) (\<lambda>u.
       if User_GetDomainState u \<noteq> DS_ROOM
       then Inr (pm_send pm i (ROOM_CHAT_RESPONSE_PACKET (error_val ENTER_ROOM_INVALID_USER_STATUS)))
       else
         (let roomNum = User_GetRoomIndex u in
          case RoomManager_GetRoomByNumber (mRoomManager pm) roomNum of
            None \<Rightarrow>
              Inr (pm_send pm i (ROOM_CHAT_RESPONSE_PACKET (error_val CHAT_ROOM_INVALID_ROOM_NUMBER)))
          | Some k \<Rightarrow>
              (let pm1 = pm_send pm i (ROOM_CHAT_RESPONSE_PACKET (error_val EC_NONE)) in
               bindr (strcpy_s (MAX_USER_ID_LENGTH + 1) (nul_terminated (User_GetUserID u))) (\<lambda>uid.
               bindr (deref pm1 p) (\<lambda>mem.
               bindr (strcpy_s (MAX_CHAT_MSG + 1) (drop off_Message mem)) (\<lambda>msg.
                 notify_room (push_activity pm1 i (ChatActivity uid roomNum msg (clock pm1)))
                   k i (User_GetUserID u) mem))))))"

section \<open>Dispatch\<close>

fun run_handler ::
  "Handler \<Rightarrow> PacketManager \<Rightarrow> nat \<Rightarrow> UINT16 \<Rightarrow> pkt_ptr \<Rightarrow> PacketManager result" where
  "run_handler H_ProcessUserConnect = ProcessUserConnect"
| "run_handler H_ProcessUserDisconnect = ProcessUserDisconnect"
| "run_handler H_ProcessLogin = ProcessLogin"
| "run_handler H_ProcessLoginDBResult = ProcessLoginDBResult"
| "run_handler H_ProcessEnterRoom = ProcessEnterRoom"
| "run_handler H_ProcessLeaveRoom = ProcessLeaveRoom"
| "run_handler H_ProcessRoomChatMessage = ProcessRoomChatMessage"
| "run_handler H_Pong = (\<lambda>pm i packetSize p. Inr pm)"

definition ProcessRecvPacket ::
  "PacketManager \<Rightarrow> nat \<Rightarrow> UINT16 \<Rightarrow> UINT16 \<Rightarrow> pkt_ptr \<Rightarrow> PacketManager result" where
  "ProcessRecvPacket pm i packetId packetSize p =
     (case mPacketHandlers packetId of
        Some h \<Rightarrow> run_handler h pm i packetSize p
      | None \<Rightarrow> Inr pm)"

section \<open>Frame lemmas of the helpers\<close>

named_theorems pm_frame \<open>fields the helpers leave alone\<close>

lemma pm_send_fields [pm_frame, simp]:
  "mUserManager (pm_send pm i p) = mUserManager pm" "mRoomManager (pm_send pm i p) = mRoomManager pm"
  "mRedisManager (pm_send pm i p) = mRedisManager pm"
  "mMySQLManager (pm_send pm i p) = mMySQLManager pm"
  "mSystemWriteBuffer (pm_send pm i p) = mSystemWriteBuffer pm"
  "mSystemReadBuffer (pm_send pm i p) = mSystemReadBuffer pm"
  "mWriteBuffer (pm_send pm i p) = mWriteBuffer pm" "mReadBuffer (pm_send pm i p) = mReadBuffer pm"
  "sent (pm_send pm i p) = sent pm @ [(i, packet_sizeof p, p)]" "clock (pm_send pm i p) = clock pm"
  by (simp_all add: pm_send_def)

lemma send_all_fields [pm_frame, simp]:
  "mUserManager (send_all pm ss) = mUserManager pm" "mRoomManager (send_all pm ss) = mRoomManager pm"
  "mRedisManager (send_all pm ss) = mRedisManager pm"
  "mMySQLManager (send_all pm ss) = mMySQLManager pm"
  "mSystemWriteBuffer (send_all pm ss) = mSystemWriteBuffer pm"
  "mSystemReadBuffer (send_all pm ss) = mSystemReadBuffer pm"
  "mWriteBuffer (send_all pm ss) = mWriteBuffer pm" "mReadBuffer (send_all pm ss) = mReadBuffer pm"
  "sent (send_all pm ss) = sent pm @ ss" "clock (send_all pm ss) = clock pm"
  by (simp_all add: send_all_def)

lemma push_activity_fields [pm_frame, simp]:
  "mUserManager (push_activity pm i a) = mUserManager pm"
  "mRoomManager (push_activity pm i a) = mRoomManager pm"
  "mRedisManager (push_activity pm i a) = mRedisManager pm"
  "mSystemWriteBuffer (push_activity pm i a) = mSystemWriteBuffer pm"
  "mSystemReadBuffer (push_activity pm i a) = mSystemReadBuffer pm"
  "mWriteBuffer (push_activity pm i a) = mWriteBuffer pm"
  "mReadBuffer (push_activity pm i a) = mReadBuffer pm"
  "sent (push_activity pm i a) = sent pm" "clock (push_activity pm i a) = clock pm"
  "M_mRequestTask (mMySQLManager (push_activity pm i a)) =
     M_mRequestTask (mMySQLManager pm) @ [task_of i a]"
  by (simp_all add: push_activity_def MySQLManager_PushTask_def)

lemma mPacketHandlers_simps [simp]:
  "mPacketHandlers (packet_id_val SYS_USER_CONNECT) = Some H_ProcessUserConnect"
  "mPacketHandlers (packet_id_val SYS_USER_DISCONNECT) = Some H_ProcessUserDisconnect"
  "mPacketHandlers (packet_id_val LOGIN_REQUEST) = Some H_ProcessLogin"
  "mPacketHandlers (redis_task_val RESPONSE_LOGIN) = Some H_ProcessLoginDBResult"
  "mPacketHandlers (packet_id_val ROOM_ENTER_REQUEST) = Some H_ProcessEnterRoom"
  "mPacketHandlers (packet_id_val ROOM_LEAVE_REQUEST) = Some H_ProcessLeaveRoom"
  "mPacketHandlers (packet_id_val ROOM_CHAT_REQUEST) = Some H_ProcessRoomChatMessage"
  "mPacketHandlers (packet_id_val SYS_PONG) = Some H_Pong"
  by (simp_all add: mPacketHandlers_def)

end
