(* ===== verification/PacketManagerInv.thy ===== *)
theory PacketManagerInv
  imports PacketManager
begin

text \<open>
  The invariant of the packet manager and its preservation by every handler. \<open>core\<close> relates the user
  pool and the rooms: both are well formed, and a user whose state is ROOM is on the list of the room
  its \<open>roomIndex\<close> names. \<open>pm_inv\<close> adds that every packet sent so far is well formed, fits the send
  buffer of a session and goes to an existing slot. \<open>handler_frame\<close> and \<open>stream_frame\<close> say what a
  handler leaves alone.
\<close>

section \<open>Users and rooms\<close>

definition member_of_room :: "RoomManager \<Rightarrow> nat \<Rightarrow> user \<Rightarrow> bool" where
  "member_of_room rm i u \<longleftrightarrow>
     (\<exists>k. RoomManager_GetRoomByNumber rm (roomIndex u) = Some k \<and> k < length (mRoomList rm) \<and>
        i \<in> set (mUserList (mRoomList rm ! k)))"

definition core :: "UserManager \<Rightarrow> RoomManager \<Rightarrow> bool" where
  "core um rm \<longleftrightarrow> um_inv um \<and> rm_inv (length (mUserObjPool um)) rm \<and>
     (\<forall>i < length (mUserObjPool um). mCurDomainState (mUserObjPool um ! i) = DS_ROOM \<longrightarrow>
        member_of_room rm i (mUserObjPool um ! i))"

lemma core_um: "core um rm \<Longrightarrow> um_inv um" and core_rm: "core um rm \<Longrightarrow> rm_inv (length (mUserObjPool um)) rm"
  by (simp_all add: core_def)

lemma core_member:
  "core um rm \<Longrightarrow> i < length (mUserObjPool um) \<Longrightarrow> mCurDomainState (mUserObjPool um ! i) = DS_ROOM \<Longrightarrow>
     member_of_room rm i (mUserObjPool um ! i)"
  by (simp add: core_def)

lemma core_Init: "core (UserManager_Init mem n) (RoomManager_Init b c m)" if "0 \<le> m"
  using that by (simp add: core_def um_inv_Init rm_inv_Init)
    (simp add: UserManager_Init_def User_Init_def User_new_def)

text \<open>A user object may be replaced by one that is in no room, or in the room it was in.\<close>

lemma core_put_user:
  assumes "core um rm" and "i < length (mUserObjPool um)" and "user_inv u" and "mIndex u = int i"
    and "mCurDomainState u = DS_ROOM \<Longrightarrow> mCurDomainState (mUserObjPool um ! i) = DS_ROOM \<and>
      roomIndex u = roomIndex (mUserObjPool um ! i)"
  shows "core (put_user um i u) rm"
  using assms um_inv_put_user [OF core_um [OF assms(1)] assms(3,4)]
  by (auto simp: core_def member_of_room_def)

lemma core_Increase: "core um rm \<Longrightarrow> core (UserManager_IncreaseUserCnt um) rm"
  by (simp add: core_def um_inv_Increase)

lemma core_Adduser:
  assumes "core um rm" and "UserManager_Adduser um p i = Inr (e, um')"
  shows "core um' rm"
proof -
  have "um_inv um'" using core_um [OF assms(1)] assms(2) by (rule um_inv_Adduser)
  from assms(2) show ?thesis
  proof (cases rule: Adduser_cases)
    case (new s)
    then show ?thesis
      using \<open>um_inv um'\<close> assms(1) by (auto simp: core_def)
  qed (use assms(1) in simp)
qed

lemma core_Delete:
  assumes "core um rm" and "UserManager_DeleteUserInfo um i = Inr um'"
  shows "core um' rm"
proof -
  have i: "i < length (mUserObjPool um)"
    using assms(2) DeleteUserInfo_fault [of i um] by (cases "i < length (mUserObjPool um)") auto
  have "um_inv um'" using core_um [OF assms(1)] assms(2) by (rule um_inv_DeleteUserInfo)
  then show ?thesis
    using assms i by (auto simp: core_def DeleteUserInfo_eq user_ops)
qed

lemma core_EnterUser:
  assumes "core um rm" and "i < length (mUserObjPool um)"
    and "RoomManager_EnterUser rm number i (mUserObjPool um ! i) = Inr (e, rm', u')"
  shows "core (put_user um i u') rm'"
proof -
  note um = core_um [OF assms(1)] and rm = core_rm [OF assms(1)]
  have u: "user_inv (mUserObjPool um ! i)" "mIndex (mUserObjPool um ! i) = int i"
    using um_inv_user [OF um assms(2)] by simp_all
  have rm': "rm_inv (length (mUserObjPool um)) rm'" using rm_inv_EnterUser [OF rm assms(2,3)] .
  show ?thesis
    using rm assms(3)
  proof (cases rule: RoomManager_EnterUser_cases)
    case (entered k)
    have "um_inv (put_user um i u')"
      using u entered(6) by (intro um_inv_put_user [OF um]) (simp_all add: user_ops)
    moreover have "RoomManager_GetRoomByNumber rm' = RoomManager_GetRoomByNumber rm"
      using entered(5) by (simp add: fun_eq_iff RoomManager_GetRoomByNumber_def)
    moreover have "roomIndex u' = number" using entered(6) by (simp add: user_ops)
    ultimately show ?thesis
      using assms(1) rm' entered(1,2,5,6) by (fastforce simp: core_def member_of_room_def user_ops)
  qed (use assms(1) in simp_all)
qed

lemma core_LeaveUser:
  assumes "core um rm" and "i < length (mUserObjPool um)"
    and "RoomManager_LeaveUser rm number i (mUserObjPool um ! i) = Inr (e, rm', u')"
  shows "core (put_user um i u') rm'"
proof -
  note um = core_um [OF assms(1)] and rm = core_rm [OF assms(1)]
  have u: "user_inv (mUserObjPool um ! i)" "mIndex (mUserObjPool um ! i) = int i"
    using um_inv_user [OF um assms(2)] by simp_all
  have rm': "rm_inv (length (mUserObjPool um)) rm'" using rm_inv_LeaveUser [OF rm assms(3)] .
  show ?thesis
    using rm assms(3)
  proof (cases rule: RoomManager_LeaveUser_cases)
    case (left k)
    have "um_inv (put_user um i u')"
      using u left(5) by (intro um_inv_put_user [OF um]) simp_all
    moreover have "RoomManager_GetRoomByNumber rm' = RoomManager_GetRoomByNumber rm"
      using left(4) by (simp add: fun_eq_iff RoomManager_GetRoomByNumber_def)
    ultimately show ?thesis
      using assms(1) rm' left(2,4,5)
      by (fastforce simp: core_def member_of_room_def Room_LeaveUser_def)
  qed (use assms(1) in simp_all)
qed

section \<open>The invariant\<close>

definition MAX_SOCKBUF :: nat where "MAX_SOCKBUF = 1024"

definition send_ok :: "nat \<Rightarrow> send \<Rightarrow> bool" where
  "send_ok n s \<longleftrightarrow> (case s of (j, m, p) \<Rightarrow>
     j < n \<and> packet_ok p \<and> m = packet_sizeof p \<and> m \<le> MAX_SOCKBUF)"

definition pm_users :: "PacketManager \<Rightarrow> user list" where
  "pm_users pm = mUserObjPool (mUserManager pm)"

definition pm_inv :: "PacketManager \<Rightarrow> bool" where
  "pm_inv pm \<longleftrightarrow> core (mUserManager pm) (mRoomManager pm) \<and>
     list_all (send_ok (length (pm_users pm))) (sent pm)"

lemma pm_inv_Init: "pm_inv (PacketManager_Init mem n)"
  by (simp add: pm_inv_def PacketManager_Init_def PacketManager_CreateComponent_def core_Init
      maxRoomUserCount_def)

lemma pm_inv_core: "pm_inv pm \<Longrightarrow> core (mUserManager pm) (mRoomManager pm)"
  by (simp add: pm_inv_def)

lemma pm_inv_user:
  "pm_inv pm \<Longrightarrow> i < length (pm_users pm) \<Longrightarrow> user_inv (pm_users pm ! i) \<and> mIndex (pm_users pm ! i) = int i"
  by (simp add: pm_inv_def core_def um_inv_def pm_users_def)

lemma send_ok_packet [simp]:
  "send_ok n (j, packet_sizeof p, p) \<longleftrightarrow> j < n \<and> packet_ok p"
  using packet_sizeof_small [of p] by (auto simp: send_ok_def MAX_SOCKBUF_def)

lemma pm_users_frame [simp]:
  "pm_users (pm_send pm i p) = pm_users pm" "pm_users (send_all pm ss) = pm_users pm"
  "pm_users (push_activity pm i a) = pm_users pm"
  by (simp_all add: pm_users_def)

lemma pm_inv_send: "pm_inv pm \<Longrightarrow> i < length (pm_users pm) \<Longrightarrow> packet_ok p \<Longrightarrow> pm_inv (pm_send pm i p)"
  by (simp add: pm_inv_def)

lemma pm_inv_push_activity [simp]: "pm_inv (push_activity pm i a) \<longleftrightarrow> pm_inv pm"
  by (simp add: pm_inv_def)

lemma NotifyChat_sends_ok:
  assumes "core um rm" and "k < length (mRoomList rm)"
    and "Room_NotifyChat (mRoomList rm ! k) (mUserObjPool um) i uid msg = Inr sends"
  shows "list_all (send_ok (length (mUserObjPool um))) sends"
proof -
  have "send_ok (length (mUserObjPool um)) (j, n, p)" if "(j, n, p) \<in> set sends" for j n p
    using NotifyChat_sends [OF assms(3) that] core_um [OF assms(1)]
    by (auto simp: um_inv_def)
  then show ?thesis by (auto simp: list_all_iff)
qed

section \<open>What a handler leaves alone\<close>

text \<open>\<open>handler_frame\<close>: all handlers; \<open>stream_frame\<close>: all handlers but the disconnection.\<close>

definition handler_frame :: "PacketManager \<Rightarrow> PacketManager \<Rightarrow> bool" where
  "handler_frame pm pm' \<longleftrightarrow>
     length (pm_users pm') = length (pm_users pm) \<and>
     mReadBuffer pm' = mReadBuffer pm \<and> mSystemReadBuffer pm' = mSystemReadBuffer pm \<and>
     mSystemWriteBuffer pm' = mSystemWriteBuffer pm \<and>
     mIsRunProcessThread pm' = mIsRunProcessThread pm \<and> clock pm' = clock pm \<and>
     R_mResponseTask (mRedisManager pm') = R_mResponseTask (mRedisManager pm) \<and>
     (\<exists>ss. sent pm' = sent pm @ ss) \<and>
     set (mWriteBuffer pm') \<subseteq> set (mWriteBuffer pm) \<and>
     (\<forall>t \<in> set (R_mRequestTask (mRedisManager pm')). t \<in> set (R_mRequestTask (mRedisManager pm)) \<or>
        R_UserIndex t < length (pm_users pm))"

definition same_stream :: "user \<Rightarrow> user \<Rightarrow> bool" where
  "same_stream u u' \<longleftrightarrow> mPacketDataBuffer u' = mPacketDataBuffer u \<and> mGeneration u' = mGeneration u"

definition stream_frame :: "PacketManager \<Rightarrow> PacketManager \<Rightarrow> bool" where
  "stream_frame pm pm' \<longleftrightarrow> handler_frame pm pm' \<and> mWriteBuffer pm' = mWriteBuffer pm \<and>
     (\<forall>j < length (pm_users pm). same_stream (pm_users pm ! j) (pm_users pm' ! j))"

lemma same_stream_trans: "same_stream a b \<Longrightarrow> same_stream b c \<Longrightarrow> same_stream a c"
  by (simp add: same_stream_def)

lemma same_stream_refl [simp]: "same_stream u u"
  by (simp add: same_stream_def)

lemma handler_frame_refl: "handler_frame pm pm"
  by (simp add: handler_frame_def)

lemma handler_frame_trans: "handler_frame a b \<Longrightarrow> handler_frame b c \<Longrightarrow> handler_frame a c"
  by (auto simp: handler_frame_def)

lemma stream_frame_refl [simp]: "stream_frame pm pm"
  by (simp add: stream_frame_def handler_frame_refl)

lemma stream_frame_trans: "stream_frame a b \<Longrightarrow> stream_frame b c \<Longrightarrow> stream_frame a c"
  unfolding stream_frame_def
  using handler_frame_trans [of a b c] same_stream_trans by (auto simp: handler_frame_def)

lemma stream_frame_helpers:
  "stream_frame pm (pm_send pm i p)" "stream_frame pm (send_all pm ss)"
  "stream_frame pm (push_activity pm i a)"
  "stream_frame pm (pm\<lparr>mRoomManager := rm\<rparr>)"
  by (simp_all add: stream_frame_def handler_frame_def pm_users_def pm_send_def send_all_def
      push_activity_def)

section \<open>Every handler keeps the invariant\<close>

definition ok_step :: "PacketManager \<Rightarrow> PacketManager \<Rightarrow> bool" where
  "ok_step pm pm' \<longleftrightarrow> pm_inv pm' \<and> stream_frame pm pm'"

lemma ok_step_refl [intro]: "pm_inv pm \<Longrightarrow> ok_step pm pm"
  by (simp add: ok_step_def)

lemma ok_step_users: "ok_step pm pm' \<Longrightarrow> length (pm_users pm') = length (pm_users pm)"
  by (simp add: ok_step_def stream_frame_def handler_frame_def)

lemma ok_step_send [intro!]:
  "ok_step pm pm1 \<Longrightarrow> i < length (pm_users pm) \<Longrightarrow> packet_ok p \<Longrightarrow> ok_step pm (pm_send pm1 i p)"
  using ok_step_users [of pm pm1] stream_frame_trans [of pm pm1 "pm_send pm1 i p"]
  by (auto simp: ok_step_def stream_frame_helpers intro: pm_inv_send)

lemma ok_step_activity [intro!]: "ok_step pm pm1 \<Longrightarrow> ok_step pm (push_activity pm1 i a)"
  using stream_frame_trans [of pm pm1 "push_activity pm1 i a"]
  by (simp add: ok_step_def stream_frame_helpers)

text \<open>Replacing the user in one slot by one with the same stream and generation.\<close>

lemma stream_frame_put_user:
  assumes "stream_frame pm pm1" and "same_stream (pm_users pm1 ! i) u"
  shows "stream_frame pm (pm1\<lparr>mUserManager := put_user (mUserManager pm1) i u\<rparr>)"
    and "stream_frame pm (pm1\<lparr>mRoomManager := rm, mUserManager := put_user (mUserManager pm1) i u\<rparr>)"
  using assms
  by (auto simp: stream_frame_def handler_frame_def pm_users_def same_stream_def nth_list_update)

lemma ok_step_core:
  assumes "ok_step pm pm1" and "core (put_user (mUserManager pm1) i u) rm"
    and "same_stream (pm_users pm1 ! i) u"
  shows "ok_step pm (pm1\<lparr>mRoomManager := rm, mUserManager := put_user (mUserManager pm1) i u\<rparr>)"
proof -
  have "stream_frame pm (pm1\<lparr>mRoomManager := rm, mUserManager := put_user (mUserManager pm1) i u\<rparr>)"
    by (rule stream_frame_put_user) (use assms in \<open>simp_all add: ok_step_def\<close>)
  then show ?thesis using assms by (simp add: ok_step_def pm_inv_def pm_users_def)
qed

lemma ensures_GetUser [ensures_rules]:
  "(i < length (mUserObjPool um) \<Longrightarrow> P (mUserObjPool um ! i)) \<Longrightarrow>
     ensures (UserManager_GetUserByConnIdx um i) P"
  by (simp add: UserManager_GetUserByConnIdx_def ensures_vec_at)

text \<open>Registering a name changes the dictionary and, for a new name, one user's state and name.\<close>

definition um_frame :: "UserManager \<Rightarrow> UserManager \<Rightarrow> bool" where
  "um_frame um um' \<longleftrightarrow> length (mUserObjPool um') = length (mUserObjPool um) \<and>
     (\<forall>j < length (mUserObjPool um). same_stream (mUserObjPool um ! j) (mUserObjPool um' ! j))"

lemma um_frame_Adduser: "UserManager_Adduser um p i = Inr (e, um') \<Longrightarrow> um_frame um um'"
  by (erule Adduser_cases) (auto simp: um_frame_def same_stream_def)

lemma ok_step_um:
  assumes "ok_step pm pm1" and "core um (mRoomManager pm1)" and "um_frame (mUserManager pm1) um"
  shows "ok_step pm (pm1\<lparr>mUserManager := um\<rparr>)"
proof -
  have "stream_frame pm1 (pm1\<lparr>mUserManager := um\<rparr>)"
    using assms(3) by (simp add: stream_frame_def handler_frame_def pm_users_def um_frame_def)
  then have "stream_frame pm (pm1\<lparr>mUserManager := um\<rparr>)"
    using assms(1) stream_frame_trans by (auto simp: ok_step_def)
  then show ?thesis
    using assms by (simp add: ok_step_def pm_inv_def pm_users_def um_frame_def)
qed

lemma ensures_notify_room [ensures_rules]:
  assumes "ok_step pm pm1" and "\<And>pm2. ok_step pm pm2 \<Longrightarrow> P pm2"
  shows "ensures (notify_room pm1 k i name msg) P"
proof (rule ensuresI)
  fix pm2 assume "notify_room pm1 k i name msg = Inr pm2"
  then obtain sends where s: "k < length (mRoomList (mRoomManager pm1))" "pm2 = send_all pm1 sends"
    "Room_NotifyChat (mRoomList (mRoomManager pm1) ! k) (mUserObjPool (mUserManager pm1)) i
       (nul_terminated name) msg = Inr sends"
    by (auto simp: notify_room_def result_simps)
  have inv: "pm_inv pm1" using assms(1) by (simp add: ok_step_def)
  have "list_all (send_ok (length (pm_users pm1))) sends"
    using NotifyChat_sends_ok [OF pm_inv_core [OF inv] s(1,3)] by (simp add: pm_users_def)
  then have "pm_inv pm2" using inv s(2) by (simp add: pm_inv_def)
  moreover have "stream_frame pm pm2"
    unfolding s(2) using assms(1) stream_frame_helpers(2) stream_frame_trans ok_step_def by blast
  ultimately show "P pm2" by (intro assms(2)) (simp add: ok_step_def)
qed

lemma ensures_store [ensures_rules]:
  assumes "ok_step pm pm1" and "\<And>pm2. ok_step pm pm2 \<Longrightarrow> P pm2"
  shows "ensures (store pm1 p off bs) P"
proof (rule ensuresI)
  fix pm2 assume st: "store pm1 p off bs = Inr pm2"
  have inv: "pm_inv pm1" using assms(1) by (simp add: ok_step_def)
  show "P pm2"
  proof (cases p)
    case (TempBuf j)
    let ?um = "mUserManager pm1"
    obtain mem where m: "j < length (mUserObjPool ?um)"
      "mem_write (m_tempPacketBuffer (mUserObjPool ?um ! j)) off bs = Inr mem"
      "pm2 = pm1\<lparr>mUserManager := put_user ?um j ((mUserObjPool ?um ! j)\<lparr>m_tempPacketBuffer := mem\<rparr>)\<rparr>"
      using st TempBuf by (auto simp: store_def result_simps UserManager_GetUserByConnIdx_def)
    have u: "user_inv (mUserObjPool ?um ! j)" "mIndex (mUserObjPool ?um ! j) = int j"
      using um_inv_user [OF core_um [OF pm_inv_core [OF inv]] m(1)] by simp_all
    have "core (put_user ?um j ((mUserObjPool ?um ! j)\<lparr>m_tempPacketBuffer := mem\<rparr>)) (mRoomManager pm1)"
      using u m(1) mem_write_length [OF m(2)]
      by (intro core_put_user [OF pm_inv_core [OF inv]]) (simp_all add: user_inv_def)
    then have "ok_step pm (pm1\<lparr>mUserManager := put_user ?um j
        ((mUserObjPool ?um ! j)\<lparr>m_tempPacketBuffer := mem\<rparr>)\<rparr>)"
      by (intro ok_step_um [OF assms(1)])
        (auto simp: um_frame_def same_stream_def nth_list_update)
    then show ?thesis using assms(2) m(3) by simp
  qed (use st assms in \<open>auto simp: store_def result_simps\<close>)
qed

lemma ensures_EnterUser:
  assumes "ok_step pm pm1" and "i < length (pm_users pm1)" and "u = mUserObjPool (mUserManager pm1) ! i"
    and "\<And>e rm' u'. ok_step pm (pm1\<lparr>mRoomManager := rm', mUserManager := put_user (mUserManager pm1) i u'\<rparr>) \<Longrightarrow>
      mUserID u' = mUserID u \<Longrightarrow> P (e, rm', u')"
  shows "ensures (RoomManager_EnterUser (mRoomManager pm1) number i u) P"
proof (rule ensuresI, clarify)
  fix e rm' u' assume en: "RoomManager_EnterUser (mRoomManager pm1) number i u = Inr (e, rm', u')"
  have c: "core (mUserManager pm1) (mRoomManager pm1)"
    using assms(1) by (simp add: ok_step_def pm_inv_core)
  have f: "same_stream u u' \<and> mUserID u' = mUserID u"
    by (rule RoomManager_EnterUser_cases [OF core_rm [OF c] en]) (auto simp: user_ops same_stream_def)
  have "core (put_user (mUserManager pm1) i u') rm'"
    using core_EnterUser [OF c] assms(2,3) en by (simp add: pm_users_def)
  then have "ok_step pm (pm1\<lparr>mRoomManager := rm', mUserManager := put_user (mUserManager pm1) i u'\<rparr>)"
    by (rule ok_step_core [OF assms(1)]) (use f assms(3) in \<open>simp add: pm_users_def\<close>)
  then show "P (e, rm', u')" using f by (intro assms(4)) simp_all
qed

lemma ensures_LeaveUser:
  assumes "ok_step pm pm1" and "i < length (pm_users pm1)" and "u = mUserObjPool (mUserManager pm1) ! i"
    and "\<And>e rm' u'. ok_step pm (pm1\<lparr>mRoomManager := rm', mUserManager := put_user (mUserManager pm1) i u'\<rparr>) \<Longrightarrow>
      mUserID u' = mUserID u \<Longrightarrow> P (e, rm', u')"
  shows "ensures (RoomManager_LeaveUser (mRoomManager pm1) number i u) P"
proof (rule ensuresI, clarify)
  fix e rm' u' assume le: "RoomManager_LeaveUser (mRoomManager pm1) number i u = Inr (e, rm', u')"
  have c: "core (mUserManager pm1) (mRoomManager pm1)"
    using assms(1) by (simp add: ok_step_def pm_inv_core)
  have f: "same_stream u u' \<and> mUserID u' = mUserID u"
    by (rule RoomManager_LeaveUser_cases [OF core_rm [OF c] le]) (auto simp: same_stream_def)
  have "core (put_user (mUserManager pm1) i u') rm'"
    using core_LeaveUser [OF c] assms(2,3) le by (simp add: pm_users_def)
  then have "ok_step pm (pm1\<lparr>mRoomManager := rm', mUserManager := put_user (mUserManager pm1) i u'\<rparr>)"
    by (rule ok_step_core [OF assms(1)]) (use f assms(3) in \<open>simp add: pm_users_def\<close>)
  then show "P (e, rm', u')" using f by (intro assms(4)) simp_all
qed

lemma ProcessUserConnect_ok:
  "pm_inv pm \<Longrightarrow> ensures (ProcessUserConnect pm i sz p) (ok_step pm)"
  unfolding ProcessUserConnect_def by (intro ensures_rules) auto

lemma ProcessRoomChatMessage_ok:
  assumes "pm_inv pm" and "i < length (pm_users pm)"
  shows "ensures (ProcessRoomChatMessage pm i sz p) (ok_step pm)"
  unfolding ProcessRoomChatMessage_def Let_def
  by (intro ensures_rules ensuresI [of "strcpy_s _ _"] ensuresI [of "deref _ _"])
    (use assms in auto)

lemma ProcessEnterRoom_ok:
  assumes "pm_inv pm" and "i < length (pm_users pm)"
  shows "ensures (ProcessEnterRoom pm i sz p) (ok_step pm)"
  unfolding ProcessEnterRoom_def Let_def
  by (intro ensures_rules ensures_EnterUser ensuresI [of "strcpy_s _ _"] ensuresI [of "deref _ _"]
      ensuresI [of "ROOM_ENTER_REQUEST_RoomNumber _"])
    (use assms in auto)

lemma ProcessLeaveRoom_ok:
  assumes "pm_inv pm" and "i < length (pm_users pm)"
  shows "ensures (ProcessLeaveRoom pm i sz p) (ok_step pm)"
  unfolding ProcessLeaveRoom_def Let_def
  by (intro ensures_rules ensures_LeaveUser ensuresI [of "strcpy_s _ _"])
    (use assms in auto)

lemma um_frame_trans: "um_frame a b \<Longrightarrow> um_frame b c \<Longrightarrow> um_frame a c"
  unfolding um_frame_def by (auto intro: same_stream_trans)

lemma um_frame_refl [simp]: "um_frame um um"
  by (simp add: um_frame_def)

text \<open>The login handlers change the user manager by \<open>SetLogin\<close> and \<open>Adduser\<close> only.\<close>

lemma core_SetLogin:
  assumes "core um rm" and "i < length (mUserObjPool um)" and "User_SetLogin (mUserObjPool um ! i) p = Inr u"
  shows "core (put_user um i u) rm" and "um_frame um (put_user um i u)"
proof -
  have u: "user_inv (mUserObjPool um ! i)" "mIndex (mUserObjPool um ! i) = int i"
    using um_inv_user [OF core_um [OF assms(1)] assms(2)] by simp_all
  show "core (put_user um i u) rm"
    using assms(3) u
    by (intro core_put_user [OF assms(1,2)]) (auto simp: User_SetLogin_def result_simps)
  show "um_frame um (put_user um i u)"
    using assms(3) by (auto simp: User_SetLogin_def result_simps um_frame_def same_stream_def)
qed

lemma ensures_Adduser:
  assumes "core um rm" and "\<And>e um'. core um' rm \<Longrightarrow> um_frame um um' \<Longrightarrow> P (e, um')"
  shows "ensures (UserManager_Adduser um p i) P"
  using assms by (auto intro!: ensuresI core_Adduser um_frame_Adduser)

lemma ProcessLogin_ok:
  assumes "pm_inv pm" and "i < length (pm_users pm)"
  shows "ensures (ProcessLogin pm i sz p) (ok_step pm)"
proof -
  have redis: "ok_step pm (pm\<lparr>mRedisManager :=
      RedisManager_PushTask (mRedisManager pm) (login_request_task i req)\<rparr>)" for req
    using assms
    by (simp add: ok_step_def pm_inv_def stream_frame_def handler_frame_def pm_users_def
        RedisManager_PushTask_def login_request_task_def)
  have login: "ok_step pm (pm\<lparr>mUserManager := um'\<rparr>)"
    if "User_SetLogin (mUserObjPool (mUserManager pm) ! i) q = Inr u" "core um' (mRoomManager pm)"
      "um_frame (put_user (mUserManager pm) i u) um'" for q u um'
    using core_SetLogin(2) [OF pm_inv_core [OF assms(1)] _ that(1)] that(2,3) assms
    by (intro ok_step_um) (auto simp: pm_users_def intro: um_frame_trans)
  show ?thesis
    unfolding ProcessLogin_def Let_def
    by (intro ensures_rules ensures_Adduser [where rm = "mRoomManager pm"]
        ensuresI [of "deref _ _"] ensuresI [of "mem_read _ _ _"] ensuresI [of "User_SetLogin _ _"]
        ensuresI [of "UserManager_FindUserIndexByID _ _"])
      (use assms redis login pm_inv_core [OF assms(1)] core_SetLogin(1) in \<open>auto simp: pm_users_def\<close>)
qed

lemma ProcessLoginDBResult_ok:
  assumes "pm_inv pm" and "i < length (pm_users pm)"
  shows "ensures (ProcessLoginDBResult pm i sz p) (ok_step pm)"
proof -
  have login: "ok_step pm (pm\<lparr>mUserManager := um'\<rparr>)"
    if "core um' (mRoomManager pm)" "um_frame (mUserManager pm) um'" for um'
    using that assms by (intro ok_step_um) auto
  have count: "ok_step pm (pm\<lparr>mUserManager := UserManager_IncreaseUserCnt um'\<rparr>)"
    if "core um' (mRoomManager pm)" "um_frame (mUserManager pm) um'" for um'
    using that by (intro login core_Increase) (simp_all add: um_frame_def)
  show ?thesis
    unfolding ProcessLoginDBResult_def Let_def
    by (intro ensures_rules ensures_Adduser [where rm = "mRoomManager pm"]
        ensuresI [of "deref _ _"] ensuresI [of "get_UINT16 _ _"] ensuresI [of "strcpy_s _ _"])
      (use assms login count pm_inv_core [OF assms(1)] in auto)
qed

section \<open>Disconnection\<close>

text \<open>
  \<open>ClearConnectionInfo\<close> on a well-formed state never faults: the waiting tasks of the slot are
  removed, and a slot whose user had logged in is emptied, with the next generation.
\<close>

definition left_rooms :: "RoomManager \<Rightarrow> nat \<Rightarrow> user \<Rightarrow> RoomManager" where
  "left_rooms rm i u =
     (if mCurDomainState u = DS_ROOM
      then case RoomManager_GetRoomByNumber rm (roomIndex u) of
          None \<Rightarrow> rm | Some k \<Rightarrow> put_room rm k (Room_LeaveUser (mRoomList rm ! k) i)
      else rm)"

definition cleared_users :: "UserManager \<Rightarrow> nat \<Rightarrow> UserManager" where
  "cleared_users um i =
     (let u = mUserObjPool um ! i in
      UserManager_DecreaseUserCnt (put_user
        (um\<lparr>mUserIDDictionary := (mUserIDDictionary um)(mUserID u := None)\<rparr>) i
        (User_IncrementGeneration (User_Clear u))))"

definition without_tasks :: "PacketManager \<Rightarrow> nat \<Rightarrow> PacketManager" where
  "without_tasks pm i = pm\<lparr>mWriteBuffer := filter (\<lambda>t. clientIndex t \<noteq> i) (mWriteBuffer pm)\<rparr>"

lemma put_user_put_user [simp]: "put_user (put_user um i u) i v = put_user um i v"
  by (simp add: put_user_def)

lemma cleared_users_state:
  "cleared_users (put_user um i (u\<lparr>mCurDomainState := d\<rparr>)) i = cleared_users (put_user um i u) i"
  if "i < length (mUserObjPool um)"
  using that by (simp add: cleared_users_def Let_def user_ops put_user_def)

lemma ClearConnectionInfo_eq:
  assumes "pm_inv pm" and "i < length (pm_users pm)"
  shows "PacketManager_ClearConnectionInfo pm i = Inr
    (if mCurDomainState (pm_users pm ! i) = DS_NONE then without_tasks pm i
     else (without_tasks pm i)\<lparr>mRoomManager := left_rooms (mRoomManager pm) i (pm_users pm ! i),
            mUserManager := cleared_users (mUserManager pm) i\<rparr>)"
proof -
  let ?um = "mUserManager pm" and ?rm = "mRoomManager pm"
  let ?u = "mUserObjPool ?um ! i"
  have i: "i < length (mUserObjPool ?um)" using assms(2) by (simp add: pm_users_def)
  have c: "core ?um ?rm" using assms(1) by (rule pm_inv_core)
  note defs = PacketManager_ClearConnectionInfo_def Let_def UserManager_GetUserByConnIdx_def
    User_GetDomainState_def User_GetRoomIndex_def without_tasks_def left_rooms_def pm_users_def
  show ?thesis
  proof (cases "mCurDomainState ?u = DS_ROOM")
    case True
    then obtain k where k: "RoomManager_GetRoomByNumber ?rm (roomIndex ?u) = Some k"
      "k < length (mRoomList ?rm)"
      using core_member [OF c i] by (auto simp: member_of_room_def)
    then have leave: "RoomManager_LeaveUser ?rm (roomIndex ?u) i ?u =
        Inr (error_val EC_NONE, put_room ?rm k (Room_LeaveUser (mRoomList ?rm ! k) i),
          ?u\<lparr>mCurDomainState := DS_LOGIN\<rparr>)"
      by (simp add: RoomManager_LeaveUser_def User_SetDomainState_def)
    have "UserManager_DeleteUserInfo (put_user ?um i (?u\<lparr>mCurDomainState := DS_LOGIN\<rparr>)) i =
        Inr (cleared_users ?um i)"
      using i cleared_users_state [OF i, of DS_LOGIN ?u]
      by (simp add: DeleteUserInfo_eq cleared_users_def Let_def)
    then show ?thesis using True i k leave by (simp add: defs)
  next
    case False
    then show ?thesis
      using i by (cases "mCurDomainState ?u = DS_NONE")
        (simp_all add: defs DeleteUserInfo_eq cleared_users_def)
  qed
qed

lemma cleared_users_fields [simp]:
  "length (mUserObjPool (cleared_users um i)) = length (mUserObjPool um)"
  "mUserIDDictionary (cleared_users um i) =
     (mUserIDDictionary um)(mUserID (mUserObjPool um ! i) := None)"
  "j < length (mUserObjPool um) \<Longrightarrow> mUserObjPool (cleared_users um i) ! j =
     (if j = i then User_IncrementGeneration (User_Clear (mUserObjPool um ! i))
      else mUserObjPool um ! j)"
  by (auto simp: cleared_users_def Let_def)

lemma core_cleared:
  assumes "core um rm" and "i < length (mUserObjPool um)"
  shows "core (cleared_users um i) (left_rooms rm i (mUserObjPool um ! i))"
proof -
  let ?u = "mUserObjPool um ! i"
  have del: "UserManager_DeleteUserInfo um i = Inr (cleared_users um i)"
    using assms(2) by (simp add: DeleteUserInfo_eq cleared_users_def Let_def)
  show ?thesis
  proof (cases "mCurDomainState ?u = DS_ROOM")
    case True
    then obtain k where k: "RoomManager_GetRoomByNumber rm (roomIndex ?u) = Some k"
      "k < length (mRoomList rm)"
      using core_member [OF assms] by (auto simp: member_of_room_def)
    then have "RoomManager_LeaveUser rm (roomIndex ?u) i ?u =
        Inr (error_val EC_NONE, left_rooms rm i ?u, ?u\<lparr>mCurDomainState := DS_LOGIN\<rparr>)"
      using True by (simp add: RoomManager_LeaveUser_def User_SetDomainState_def left_rooms_def)
    then have "core (put_user um i (?u\<lparr>mCurDomainState := DS_LOGIN\<rparr>)) (left_rooms rm i ?u)"
      using core_LeaveUser [OF assms] by blast
    moreover have "UserManager_DeleteUserInfo (put_user um i (?u\<lparr>mCurDomainState := DS_LOGIN\<rparr>)) i =
        Inr (cleared_users um i)"
      using assms(2) cleared_users_state [OF assms(2), of DS_LOGIN ?u]
      by (simp add: DeleteUserInfo_eq cleared_users_def Let_def)
    ultimately show ?thesis by (rule core_Delete)
  next
    case False
    then show ?thesis using core_Delete [OF assms(1) del] by (simp add: left_rooms_def)
  qed
qed

text \<open>What all handlers guarantee; a client may send the identifier of the disconnection, too.\<close>

definition recv_ok :: "nat \<Rightarrow> UINT16 \<Rightarrow> PacketManager \<Rightarrow> PacketManager \<Rightarrow> bool" where
  "recv_ok i packetId pm pm' \<longleftrightarrow> pm_inv pm' \<and> handler_frame pm pm' \<and>
     (packetId \<noteq> packet_id_val SYS_USER_DISCONNECT \<longrightarrow> stream_frame pm pm') \<and>
     (\<forall>j < length (pm_users pm). j \<noteq> i \<longrightarrow> same_stream (pm_users pm ! j) (pm_users pm' ! j))"

lemma ok_step_recv: "ok_step pm pm' \<Longrightarrow> recv_ok i packetId pm pm'"
  by (simp add: ok_step_def recv_ok_def stream_frame_def)

lemma ClearConnectionInfo_inv:
  assumes "pm_inv pm" and "i < length (pm_users pm)"
    and "PacketManager_ClearConnectionInfo pm i = Inr pm'"
  shows "pm_inv pm'" and "handler_frame pm pm'"
    and "\<forall>j < length (pm_users pm). j \<noteq> i \<longrightarrow> pm_users pm' ! j = pm_users pm ! j"
proof -
  have pm': "pm' = (if mCurDomainState (pm_users pm ! i) = DS_NONE then without_tasks pm i
     else (without_tasks pm i)\<lparr>mRoomManager := left_rooms (mRoomManager pm) i (pm_users pm ! i),
            mUserManager := cleared_users (mUserManager pm) i\<rparr>)"
    using ClearConnectionInfo_eq [OF assms(1,2)] assms(3) by simp
  show "pm_inv pm'"
    unfolding pm' using assms(1,2) core_cleared [OF pm_inv_core [OF assms(1)]]
    by (auto simp: pm_inv_def pm_users_def without_tasks_def)
  show "handler_frame pm pm'"
    unfolding pm' by (simp add: handler_frame_def pm_users_def without_tasks_def)
  show "\<forall>j < length (pm_users pm). j \<noteq> i \<longrightarrow> pm_users pm' ! j = pm_users pm ! j"
    unfolding pm' by (simp add: pm_users_def without_tasks_def)
qed

lemma ProcessUserDisconnect_ok:
  assumes "pm_inv pm" and "i < length (pm_users pm)"
  shows "ensures (ProcessUserDisconnect pm i sz p) (recv_ok i (packet_id_val SYS_USER_DISCONNECT) pm)"
  using ClearConnectionInfo_inv [OF assms]
  by (auto intro!: ensuresI simp: ProcessUserDisconnect_def recv_ok_def)

lemma mPacketHandlers_Disconnect:
  "mPacketHandlers packetId = Some H_ProcessUserDisconnect \<longleftrightarrow>
     packetId = packet_id_val SYS_USER_DISCONNECT"
  by (auto simp: mPacketHandlers_def split: if_splits)

lemma ProcessRecvPacket_ok:
  assumes "pm_inv pm" and "i < length (pm_users pm)"
  shows "ensures (ProcessRecvPacket pm i packetId sz p) (recv_ok i packetId pm)"
proof (cases "mPacketHandlers packetId")
  case None
  then show ?thesis
    using assms(1) by (auto simp: ProcessRecvPacket_def intro!: ensures_basic ok_step_recv)
next
  case (Some h)
  show ?thesis
  proof (cases "h = H_ProcessUserDisconnect")
    case True
    then show ?thesis
      using Some ProcessUserDisconnect_ok [OF assms] mPacketHandlers_Disconnect [of packetId]
      by (simp add: ProcessRecvPacket_def)
  next
    case False
    have "ensures (run_handler h pm i sz p) (ok_step pm)"
      using False assms
      by (cases h) (auto intro: ProcessUserConnect_ok ProcessLogin_ok ProcessLoginDBResult_ok
          ProcessEnterRoom_ok ProcessLeaveRoom_ok ProcessRoomChatMessage_ok ensures_basic)
    then show ?thesis
      using Some by (auto simp: ProcessRecvPacket_def intro: ensures_mono ok_step_recv)
  qed
qed

end
