(* ===== verification/Handlers.thy ===== *)
theory Handlers
  imports PacketManagerInv
begin

text \<open>
  What each handler does, branch by branch: the response it sends and to whom, the notification the
  room receives, the record that goes to MySQL, and the new state of user and room. The states are
  those of the invariant \<open>pm_inv\<close>; requests are read through \<open>deref\<close>.
\<close>

section \<open>Announcements\<close>

definition entered_msg :: "byte list" where
  "entered_msg = bytes_of_string ''entered the room.''"

definition left_msg :: "byte list" where
  "left_msg = bytes_of_string ''has left the room.''"

lemma announcement_texts:
  "0 \<notin> set entered_msg \<and> length entered_msg = 17" "0 \<notin> set left_msg \<and> length left_msg = 18"
  by (simp_all add: entered_msg_def left_msg_def bytes_of_string_def)

lemma tempChatPacket_Message:
  "c_str (drop off_Message (tempChatPacket ''entered the room.'')) = Inr entered_msg"
  "c_str (drop off_Message (tempChatPacket ''has left the room.'')) = Inr left_msg"
  using chat_request_Message [of entered_msg 0 "[]"] chat_request_Message [of left_msg 0 "[]"]
    announcement_texts
  by (simp_all add: tempChatPacket_def entered_msg_def left_msg_def packet_consts)

text \<open>The sends of a notification to a list of members.\<close>

definition notify_all :: "nat list \<Rightarrow> byte list \<Rightarrow> byte list \<Rightarrow> send list" where
  "notify_all slots uid msg = map (\<lambda>s. (s, 295, ROOM_CHAT_NOTIFY_PACKET uid msg)) slots"

lemma notify_room_eq:
  assumes "core (mUserManager pm) (mRoomManager pm)" and "k < length (mRoomList (mRoomManager pm))"
    and "name_ok uid" and "c_str (drop off_Message msg) = Inr m" and "length m \<le> MAX_CHAT_MSG"
  shows "notify_room pm k i uid msg =
    Inr (send_all pm (notify_all (mUserList (mRoomList (mRoomManager pm) ! k)) uid m))"
proof -
  have "room_members_ok (length (mUserObjPool (mUserManager pm))) (mRoomList (mRoomManager pm) ! k)"
    using core_rm [OF assms(1)] assms(2) by (simp add: rm_inv_def)
  then have "Room_NotifyChat (mRoomList (mRoomManager pm) ! k) (mUserObjPool (mUserManager pm)) i
      (nul_terminated uid) msg =
      Inr (notify_all (mUserList (mRoomList (mRoomManager pm) ! k)) uid m)"
    using assms(3) NotifyChat_broadcast [OF core_um [OF assms(1)] _ _ _ assms(4,5)]
    by (simp add: name_ok_def notify_all_def)
  then show ?thesis using assms(2) by (simp add: notify_room_def)
qed

lemma strcpy_name: "name_ok uid \<Longrightarrow> strcpy_s (MAX_USER_ID_LENGTH + 1) (nul_terminated uid) = Inr uid"
  by (simp add: name_ok_def strcpy_s_eq_Inr)

section \<open>Entering a room\<close>

lemmas enter_defs = ProcessEnterRoom_def Let_def UserManager_GetUserByConnIdx_def pm_users_def
  User_GetDomainState_def

lemma EnterRoom_wrong_state:
  "i < length (pm_users pm) \<Longrightarrow> mCurDomainState (pm_users pm ! i) \<noteq> DS_LOGIN \<Longrightarrow>
     ProcessEnterRoom pm i sz p =
       Inr (pm_send pm i (ROOM_ENTER_RESPONSE_PACKET (error_val ENTER_ROOM_INVALID_USER_STATUS)))"
  by (simp add: enter_defs)

lemma pm_same: "pm\<lparr>mRoomManager := mRoomManager pm, mUserManager := mUserManager pm\<rparr> = pm"
  by simp

lemma EnterRoom_no_room:
  assumes "i < length (pm_users pm)" and "mCurDomainState (pm_users pm ! i) = DS_LOGIN"
    and "deref pm p = Inr mem" and "ROOM_ENTER_REQUEST_RoomNumber mem = Inr number"
    and "RoomManager_GetRoomByNumber (mRoomManager pm) number = None"
  shows "ProcessEnterRoom pm i sz p =
    Inr (pm_send pm i (ROOM_ENTER_RESPONSE_PACKET (error_val ROOM_INVALID_INDEX)))"
  using assms by (simp add: enter_defs RoomManager_EnterUser_def)

lemma EnterRoom_full:
  assumes "i < length (pm_users pm)" and "mCurDomainState (pm_users pm ! i) = DS_LOGIN"
    and "deref pm p = Inr mem" and "ROOM_ENTER_REQUEST_RoomNumber mem = Inr number"
    and "RoomManager_GetRoomByNumber (mRoomManager pm) number = Some k"
    and "k < length (mRoomList (mRoomManager pm))"
    and "mMaxUserCount (mRoomList (mRoomManager pm) ! k) \<le> mCurrentUserCount (mRoomList (mRoomManager pm) ! k)"
  shows "ProcessEnterRoom pm i sz p =
    Inr (pm_send pm i (ROOM_ENTER_RESPONSE_PACKET (error_val ENTER_ROOM_FULL_USER)))"
  using assms by (simp add: enter_defs RoomManager_EnterUser_def Room_EnterUser_def)

definition entered :: "room \<Rightarrow> nat \<Rightarrow> room" where
  "entered r i = r\<lparr>mUserList := mUserList r @ [i], mCurrentUserCount := mCurrentUserCount r + 1\<rparr>"

lemma EnterRoom_success:
  assumes "pm_inv pm" and "i < length (pm_users pm)"
    and "mCurDomainState (pm_users pm ! i) = DS_LOGIN" and "name_ok (mUserID (pm_users pm ! i))"
    and "deref pm p = Inr mem" and "ROOM_ENTER_REQUEST_RoomNumber mem = Inr number"
    and "RoomManager_GetRoomByNumber (mRoomManager pm) number = Some k"
    and "mCurrentUserCount (mRoomList (mRoomManager pm) ! k) < mMaxUserCount (mRoomList (mRoomManager pm) ! k)"
  shows "ProcessEnterRoom pm i sz p = Inr (pm_send (send_all (push_activity
      (pm\<lparr>mRoomManager := put_room (mRoomManager pm) k (entered (mRoomList (mRoomManager pm) ! k) i),
          mUserManager := put_user (mUserManager pm) i (User_EnterRoom (pm_users pm ! i) number)\<rparr>) i
      (RoomActivity (mUserID (pm_users pm ! i)) number ENTER (clock pm)))
      (notify_all (mUserList (mRoomList (mRoomManager pm) ! k) @ [i]) (mUserID (pm_users pm ! i)) entered_msg))
      i (ROOM_ENTER_RESPONSE_PACKET (error_val EC_NONE)))"
proof -
  let ?um = "mUserManager pm" and ?rm = "mRoomManager pm"
  let ?u = "mUserObjPool ?um ! i" and ?r = "mRoomList (mRoomManager pm) ! k"
  have i: "i < length (mUserObjPool ?um)" and u: "pm_users pm ! i = ?u"
    using assms(2) by (simp_all add: pm_users_def)
  have c: "core ?um ?rm" using assms(1) by (rule pm_inv_core)
  have k: "k < length (mRoomList ?rm)" "mRoomNumber ?r = number"
    using GetRoomByNumber_Some [OF core_rm [OF c] assms(7)] by simp_all
  have en: "RoomManager_EnterUser ?rm number i ?u =
      Inr (error_val EC_NONE, put_room ?rm k (entered ?r i), User_EnterRoom ?u number)"
    using assms(7,8) k by (simp add: RoomManager_EnterUser_def Room_EnterUser_def entered_def)
  let ?pm1 = "pm\<lparr>mRoomManager := put_room ?rm k (entered ?r i),
      mUserManager := put_user ?um i (User_EnterRoom ?u number)\<rparr>"
  let ?pm2 = "push_activity ?pm1 i (RoomActivity (mUserID ?u) number ENTER (clock pm))"
  have "core (mUserManager ?pm2) (mRoomManager ?pm2)"
    using core_EnterUser [OF c i en] by simp
  then have "notify_room ?pm2 k i (mUserID ?u) (tempChatPacket ''entered the room.'') =
      Inr (send_all ?pm2 (notify_all (mUserList ?r @ [i]) (mUserID ?u) entered_msg))"
    using notify_room_eq [of ?pm2 k "mUserID ?u" _ entered_msg i] k assms(4) u
      tempChatPacket_Message(1) announcement_texts(1)
    by (simp add: entered_def packet_consts)
  then show ?thesis
    using i u assms(3-7) en strcpy_name [of "mUserID ?u"]
    by (simp add: enter_defs User_GetUserID_def user_ops)
qed

section \<open>Leaving a room\<close>

lemma LeaveRoom_no_room:
  assumes "i < length (pm_users pm)"
    and "RoomManager_GetRoomByNumber (mRoomManager pm) (roomIndex (pm_users pm ! i)) = None"
  shows "ProcessLeaveRoom pm i sz p =
    Inr (pm_send pm i (ROOM_LEAVE_RESPONSE_PACKET (error_val ROOM_INVALID_INDEX)))"
  using assms
  by (simp add: ProcessLeaveRoom_def Let_def UserManager_GetUserByConnIdx_def pm_users_def
      RoomManager_LeaveUser_def User_GetRoomIndex_def)

text \<open>
  The state of the user is not tested: the effect below needs only a \<open>roomIndex\<close> that names a room.
\<close>

lemma LeaveRoom_success:
  assumes "pm_inv pm" and "i < length (pm_users pm)" and "name_ok (mUserID (pm_users pm ! i))"
    and "RoomManager_GetRoomByNumber (mRoomManager pm) (roomIndex (pm_users pm ! i)) = Some k"
  shows "ProcessLeaveRoom pm i sz p = Inr (pm_send (send_all (push_activity
      (pm\<lparr>mRoomManager := put_room (mRoomManager pm) k (Room_LeaveUser (mRoomList (mRoomManager pm) ! k) i),
          mUserManager := put_user (mUserManager pm) i ((pm_users pm ! i)\<lparr>mCurDomainState := DS_LOGIN\<rparr>)\<rparr>) i
      (RoomActivity (mUserID (pm_users pm ! i)) (roomIndex (pm_users pm ! i)) LEAVE (clock pm)))
      (notify_all (removeAll i (mUserList (mRoomList (mRoomManager pm) ! k)))
        (mUserID (pm_users pm ! i)) left_msg))
      i (ROOM_LEAVE_RESPONSE_PACKET (error_val EC_NONE)))"
proof -
  let ?um = "mUserManager pm" and ?rm = "mRoomManager pm"
  let ?u = "mUserObjPool ?um ! i" and ?r = "mRoomList (mRoomManager pm) ! k"
  have i: "i < length (mUserObjPool ?um)" and u: "pm_users pm ! i = ?u"
    using assms(2) by (simp_all add: pm_users_def)
  have c: "core ?um ?rm" using assms(1) by (rule pm_inv_core)
  have k: "k < length (mRoomList ?rm)"
    using GetRoomByNumber_Some [OF core_rm [OF c] assms(4)] by simp
  have le: "RoomManager_LeaveUser ?rm (roomIndex ?u) i ?u =
      Inr (error_val EC_NONE, put_room ?rm k (Room_LeaveUser ?r i), ?u\<lparr>mCurDomainState := DS_LOGIN\<rparr>)"
    using assms(4) k u by (simp add: RoomManager_LeaveUser_def User_SetDomainState_def)
  let ?pm1 = "pm\<lparr>mRoomManager := put_room ?rm k (Room_LeaveUser ?r i),
      mUserManager := put_user ?um i (?u\<lparr>mCurDomainState := DS_LOGIN\<rparr>)\<rparr>"
  let ?pm2 = "push_activity ?pm1 i (RoomActivity (mUserID ?u) (roomIndex ?u) LEAVE (clock pm))"
  have "core (mUserManager ?pm2) (mRoomManager ?pm2)"
    using core_LeaveUser [OF c i le] by simp
  then have "notify_room ?pm2 k i (mUserID ?u) (tempChatPacket ''has left the room.'') =
      Inr (send_all ?pm2 (notify_all (removeAll i (mUserList ?r)) (mUserID ?u) left_msg))"
    using notify_room_eq [of ?pm2 k "mUserID ?u" _ left_msg i] k assms(3) u
      tempChatPacket_Message(2) announcement_texts(2)
    by (simp add: Room_LeaveUser_def packet_consts)
  then show ?thesis
    using i u assms(3,4) le strcpy_name [of "mUserID ?u"]
    by (simp add: ProcessLeaveRoom_def Let_def UserManager_GetUserByConnIdx_def pm_users_def
        User_GetUserID_def User_GetRoomIndex_def)
qed

section \<open>Chat\<close>

lemmas chat_defs = ProcessRoomChatMessage_def Let_def UserManager_GetUserByConnIdx_def pm_users_def
  User_GetDomainState_def User_GetRoomIndex_def User_GetUserID_def

lemma Chat_not_in_room:
  "i < length (pm_users pm) \<Longrightarrow> mCurDomainState (pm_users pm ! i) \<noteq> DS_ROOM \<Longrightarrow>
     ProcessRoomChatMessage pm i sz p =
       Inr (pm_send pm i (ROOM_CHAT_RESPONSE_PACKET (error_val ENTER_ROOM_INVALID_USER_STATUS)))"
  by (simp add: chat_defs)

lemma Chat_success:
  assumes "pm_inv pm" and "i < length (pm_users pm)"
    and "mCurDomainState (pm_users pm ! i) = DS_ROOM" and "name_ok (mUserID (pm_users pm ! i))"
    and "deref pm p = Inr mem" and "c_str (drop off_Message mem) = Inr msg" and "length msg \<le> MAX_CHAT_MSG"
  shows "\<exists>k. RoomManager_GetRoomByNumber (mRoomManager pm) (roomIndex (pm_users pm ! i)) = Some k \<and>
    i \<in> set (mUserList (mRoomList (mRoomManager pm) ! k)) \<and>
    ProcessRoomChatMessage pm i sz p = Inr (send_all (push_activity
      (pm_send pm i (ROOM_CHAT_RESPONSE_PACKET (error_val EC_NONE))) i
      (ChatActivity (mUserID (pm_users pm ! i)) (roomIndex (pm_users pm ! i)) msg (clock pm)))
      (notify_all (mUserList (mRoomList (mRoomManager pm) ! k)) (mUserID (pm_users pm ! i)) msg))"
proof -
  let ?um = "mUserManager pm" and ?rm = "mRoomManager pm"
  let ?u = "mUserObjPool ?um ! i"
  have i: "i < length (mUserObjPool ?um)" and u: "pm_users pm ! i = ?u"
    using assms(2) by (simp_all add: pm_users_def)
  have c: "core ?um ?rm" using assms(1) by (rule pm_inv_core)
  obtain k where k: "RoomManager_GetRoomByNumber ?rm (roomIndex ?u) = Some k"
    "k < length (mRoomList ?rm)" "i \<in> set (mUserList (mRoomList ?rm ! k))"
    using core_member [OF c i] assms(3) u by (auto simp: member_of_room_def)
  let ?pm1 = "pm_send pm i (ROOM_CHAT_RESPONSE_PACKET (error_val EC_NONE))"
  let ?pm2 = "push_activity ?pm1 i (ChatActivity (mUserID ?u) (roomIndex ?u) msg (clock pm))"
  have "notify_room ?pm2 k i (mUserID ?u) mem =
      Inr (send_all ?pm2 (notify_all (mUserList (mRoomList ?rm ! k)) (mUserID ?u) msg))"
    using notify_room_eq [of ?pm2 k "mUserID ?u" mem msg i] c k assms(4,6,7) u by simp
  moreover have "deref ?pm1 p = Inr mem"
    using assms(5) by (simp add: deref_def split: pkt_ptr.splits)
  moreover have "strcpy_s (MAX_CHAT_MSG + 1) (drop off_Message mem) = Inr msg"
    using assms(6,7) by (simp add: strcpy_s_eq_Inr)
  ultimately show ?thesis
    using i u k assms(3,4) strcpy_name [of "mUserID ?u"]
    by (simp add: chat_defs)
qed

text \<open>A message without a NUL in its 257 bytes ends in the invalid-parameter handler.\<close>

lemma Chat_overlong:
  assumes "i < length (pm_users pm)" and "pm_inv pm" and "mCurDomainState (pm_users pm ! i) = DS_ROOM"
    and "name_ok (mUserID (pm_users pm ! i))"
    and "deref pm p = Inr mem" and "c_str (drop off_Message mem) = Inr msg" and "MAX_CHAT_MSG < length msg"
  shows "ProcessRoomChatMessage pm i sz p = Inl InvalidParameter"
proof -
  obtain k where k: "RoomManager_GetRoomByNumber (mRoomManager pm) (roomIndex (pm_users pm ! i)) = Some k"
    using core_member [OF pm_inv_core [OF assms(2)], of i] assms(1,3)
    by (auto simp: member_of_room_def pm_users_def)
  have "deref (pm_send pm i (ROOM_CHAT_RESPONSE_PACKET (error_val EC_NONE))) p = Inr mem"
    using assms(5) by (simp add: deref_def split: pkt_ptr.splits)
  moreover have "strcpy_s (MAX_CHAT_MSG + 1) (drop off_Message mem) = Inl InvalidParameter"
    using assms(6,7) by (intro strcpy_s_overflow) auto
  ultimately show ?thesis
    using assms(1,3,4) k strcpy_name [of "mUserID (pm_users pm ! i)"] by (simp add: chat_defs)
qed

section \<open>Login\<close>

lemma Login_wrong_size:
  "unat sz \<noteq> 71 \<Longrightarrow> ProcessLogin pm i sz p = Inr pm"
  by (simp add: ProcessLogin_def packet_consts)

text \<open>The three branches of an ordinary login; \<open>sz\<close> is the size of the request.\<close>

definition login_fields :: "byte list \<Rightarrow> byte list" where
  "login_fields mem = take 33 (drop 5 mem) @ take 33 (drop 38 mem)"

definition login_branch :: "PacketManager \<Rightarrow> nat \<Rightarrow> byte list \<Rightarrow> byte list \<Rightarrow> PacketManager" where
  "login_branch pm i uid mem =
     (if mUserIDDictionary (mUserManager pm) uid \<noteq> None
      then pm_send pm i (LOGIN_RESPONSE_PACKET (error_val LOGIN_USER_ALREADY))
      else if mMaxUserCnt (mUserManager pm) \<le> mCurrentUserCnt (mUserManager pm)
      then pm_send pm i (LOGIN_RESPONSE_PACKET (error_val LOGIN_USER_USED_ALL_OBJ))
      else pm\<lparr>mRedisManager := RedisManager_PushTask (mRedisManager pm)
             (login_request_task i (login_fields mem))\<rparr>)"

lemma Login_ordinary:
  assumes "pm_inv pm" and "deref pm p = Inr mem" and "71 \<le> length mem"
    and "c_str (drop off_UserID mem) = Inr uid" and "\<not> is_test_user (drop off_UserID mem)"
  shows "ProcessLogin pm i 71 p = Inr (login_branch pm i uid mem)"
proof -
  have um: "um_inv (mUserManager pm)" using assms(1) pm_inv_core core_um by blast
  have f: "UserManager_FindUserIndexByID (mUserManager pm) (drop off_UserID mem) =
      Inr (case mUserIDDictionary (mUserManager pm) uid of Some k \<Rightarrow> k | None \<Rightarrow> -1)"
    using assms(4) by (simp add: UserManager_FindUserIndexByID_def)
  have r: "mem_read mem off_UserID (MAX_USER_ID_LENGTH + 1) = Inr (take 33 (drop 5 mem))"
    "mem_read mem off_UserPW (MAX_USER_PW_LENGTH + 1) = Inr (take 33 (drop 38 mem))"
    using assms(3) by (simp_all add: packet_consts)
  have "k \<noteq> -1" if "mUserIDDictionary (mUserManager pm) uid = Some k" for k
    using um that by (force simp: um_inv_def)
  then show ?thesis
    using assms(2,5) f r
    by (cases "mUserIDDictionary (mUserManager pm) uid")
      (auto simp: ProcessLogin_def Let_def login_branch_def login_fields_def packet_consts
        UserManager_GetCurrentUserCnt_def UserManager_GetMaxUserCnt_def)
qed

text \<open>
  The load-test branch: the user is logged in under the requested name whatever the dictionary says,
  the counter does not move, and the answer is always success.
\<close>

lemma Login_test_user:
  assumes "i < length (pm_users pm)" and "deref pm p = Inr mem"
    and "c_str (drop off_UserID mem) = Inr uid" and "is_test_user (drop off_UserID mem)"
  shows "\<exists>d. ProcessLogin pm i 71 p = Inr (pm_send (pm\<lparr>mUserManager :=
      put_user (mUserManager pm\<lparr>mUserIDDictionary := d\<rparr>) i
        ((pm_users pm ! i)\<lparr>mCurDomainState := DS_LOGIN, mUserID := uid\<rparr>)\<rparr>) i
      (LOGIN_RESPONSE_PACKET (error_val EC_NONE))) \<and>
    d = (if mUserIDDictionary (mUserManager pm) uid = None
         then (mUserIDDictionary (mUserManager pm))(uid \<mapsto> int i) else mUserIDDictionary (mUserManager pm))"
  using assms
  by (cases "mUserIDDictionary (mUserManager pm) uid")
    (simp_all add: ProcessLogin_def Let_def packet_consts UserManager_GetUserByConnIdx_def
      User_SetLogin_def pm_users_def Adduser_taken Adduser_new put_user_def)

section \<open>The database's answer\<close>

lemma DBResult_refused:
  assumes "deref pm p = Inr mem" and "get_UINT16 mem 0 = Inr res" and "res \<noteq> error_val EC_NONE"
  shows "ProcessLoginDBResult pm i sz p = Inr (pm_send pm i (LOGIN_RESPONSE_PACKET res))"
  using assms by (simp add: ProcessLoginDBResult_def)

lemma DBResult_logged_in:
  assumes "i < length (pm_users pm)" and "deref pm p = Inr mem" and "get_UINT16 mem 0 = Inr 0"
    and "c_str (drop 2 mem) = Inr uid" and "name_ok uid" and "mUserIDDictionary (mUserManager pm) uid = None"
  shows "ProcessLoginDBResult pm i sz p = Inr (pm_send (push_activity
    (pm\<lparr>mUserManager := UserManager_IncreaseUserCnt (put_user
        (mUserManager pm\<lparr>mUserIDDictionary := (mUserIDDictionary (mUserManager pm))(uid \<mapsto> int i)\<rparr>) i
        ((pm_users pm ! i)\<lparr>mCurDomainState := DS_LOGIN, mUserID := uid\<rparr>))\<rparr>) i
    (LoginActivity uid (clock pm))) i (LOGIN_RESPONSE_PACKET (error_val EC_NONE)))"
  using assms strcpy_name [of uid]
  by (simp add: ProcessLoginDBResult_def Let_def Adduser_new pm_users_def
      UserManager_GetUserByConnIdx_def User_GetUserID_def)

lemma DBResult_name_taken:
  assumes "get_UINT16 mem 0 = Inr 0"
    and "c_str (drop 2 mem) = Inr uid" and "mUserIDDictionary (mUserManager pm) uid = Some k"
    and "2 \<le> length mem"
  shows "ProcessLoginDBResult pm i sz (HeapBuf mem) =
    Inr (pm_send pm i (LOGIN_RESPONSE_PACKET (error_val LOGIN_USER_USED_ALL_OBJ)))"
  using assms
  by (simp add: ProcessLoginDBResult_def Let_def deref_def Adduser_taken store_def mem_write_def)

text \<open>The code is overwritten in place, wherever the answer lies: what could be read can be written.\<close>

lemma store_total:
  assumes "deref pm p = Inr mem" and "off + length bs \<le> length mem"
  shows "\<exists>pm'. store pm p off bs = Inr pm'"
  using assms
  by (auto simp: deref_def store_def mem_write_def result_simps split: pkt_ptr.splits)

lemma DBResult_taken_total:
  assumes "deref pm p = Inr mem" and "get_UINT16 mem 0 = Inr 0" and "c_str (drop 2 mem) = Inr uid"
    and "mUserIDDictionary (mUserManager pm) uid = Some k" and "2 \<le> length mem"
  shows "\<exists>pm'. ProcessLoginDBResult pm i sz p = Inr pm'"
proof -
  have "length (put_UINT16 w) = 2" for w by (simp add: put_UINT16_def)
  then obtain pm' where "store pm p 0 (put_UINT16 (error_val LOGIN_USER_USED_ALL_OBJ)) = Inr pm'"
    using store_total [OF assms(1)] assms(5) by (metis add_0)
  then show ?thesis using assms by (simp add: ProcessLoginDBResult_def Let_def Adduser_taken)
qed

text \<open>The answer the Redis worker builds is read back as it was meant.\<close>

lemma Redis_answer_fields:
  assumes "name_ok uid"
  shows "get_UINT16 (RedisLoginRes_bytes pad res uid) 0 = Inr res"
    and "c_str (drop 2 (RedisLoginRes_bytes pad res uid)) = Inr uid"
    and "2 \<le> length (RedisLoginRes_bytes pad res uid)"
  using assms RedisLoginRes_fields [of uid pad res] length_RedisLoginRes_bytes [of uid pad res]
  by (simp_all add: name_ok_def RedisLoginRes_size_def)

end
