(* ===== verification/LoginNames.thy ===== *)
theory LoginNames
  imports Handlers
begin

text \<open>
  Properties of the user manager alone that the handlers keep. The locale \<open>user_property\<close> lists what
  the handlers do to it - registering a name, deleting a user, changing anything of a user but the
  name - and proves once that a predicate closed under these steps is kept by every handler. It is
  interpreted for the uniqueness of names and for the bound on their length; the second gives that no
  well-formed request makes a handler fault.
\<close>

section \<open>The scheme\<close>

text \<open>
  \<open>login_admitted\<close>: what a packet may bring in as a name. The load-test branch of the login is left
  out; an answer that grants a login carries an admitted name.
\<close>

definition login_admitted :: "(byte list \<Rightarrow> bool) \<Rightarrow> PacketManager \<Rightarrow> UINT16 \<Rightarrow> pkt_ptr \<Rightarrow> bool" where
  "login_admitted admit pm packetId p \<longleftrightarrow> (\<forall>mem. deref pm p = Inr mem \<longrightarrow>
     (packetId = packet_id_val LOGIN_REQUEST \<longrightarrow> \<not> is_test_user (drop off_UserID mem)) \<and>
     (packetId = redis_task_val RESPONSE_LOGIN \<longrightarrow> get_UINT16 mem 0 = Inr 0 \<longrightarrow>
        (\<forall>s. c_str (drop 2 mem) = Inr s \<longrightarrow> admit s)))"

locale user_property =
  fixes admit :: "byte list \<Rightarrow> bool" and J :: "UserManager \<Rightarrow> bool"
  assumes J_put_user: "J um \<Longrightarrow> i < length (mUserObjPool um) \<Longrightarrow>
      mUserID u = mUserID (mUserObjPool um ! i) \<Longrightarrow> J (put_user um i u)"
    and J_Adduser: "J um \<Longrightarrow> c_str p = Inr s \<Longrightarrow> admit s \<Longrightarrow>
      UserManager_Adduser um p i = Inr (e, um') \<Longrightarrow> J um'"
    and J_Delete: "J um \<Longrightarrow> UserManager_DeleteUserInfo um i = Inr um' \<Longrightarrow> J um'"
    and J_Increase: "J um \<Longrightarrow> J (UserManager_IncreaseUserCnt um)"
begin

lemma J_notify_room:
  "J (mUserManager pm) \<Longrightarrow> (\<And>pm'. J (mUserManager pm') \<Longrightarrow> P pm') \<Longrightarrow> ensures (notify_room pm k i name msg) P"
  by (auto simp: notify_room_def result_simps intro!: ensuresI)

lemma J_store:
  assumes "J (mUserManager pm)" and "\<And>pm'. J (mUserManager pm') \<Longrightarrow> P pm'"
  shows "ensures (store pm p off bs) P"
proof (rule ensuresI)
  fix pm' assume "store pm p off bs = Inr pm'"
  then have "J (mUserManager pm')"
    using assms(1) by (auto simp: store_def result_simps UserManager_GetUserByConnIdx_def
        intro!: J_put_user split: pkt_ptr.splits)
  then show "P pm'" by (rule assms(2))
qed

lemma J_Enter:
  assumes "J um" and "i < length (mUserObjPool um)" and "rm_inv n rm"
    and "\<And>e rm' u'. J (put_user um i u') \<Longrightarrow> P (e, rm', u')"
  shows "ensures (RoomManager_EnterUser rm number i (mUserObjPool um ! i)) P"
proof (rule ensuresI, clarify)
  fix e rm' u' assume en: "RoomManager_EnterUser rm number i (mUserObjPool um ! i) = Inr (e, rm', u')"
  have "mUserID u' = mUserID (mUserObjPool um ! i)"
    by (rule RoomManager_EnterUser_cases [OF assms(3) en]) (auto simp: user_ops)
  then show "P (e, rm', u')" using assms by (intro assms(4) J_put_user)
qed

lemma J_Leave:
  assumes "J um" and "i < length (mUserObjPool um)" and "rm_inv n rm"
    and "\<And>e rm' u'. J (put_user um i u') \<Longrightarrow> P (e, rm', u')"
  shows "ensures (RoomManager_LeaveUser rm number i (mUserObjPool um ! i)) P"
proof (rule ensuresI, clarify)
  fix e rm' u' assume le: "RoomManager_LeaveUser rm number i (mUserObjPool um ! i) = Inr (e, rm', u')"
  have "mUserID u' = mUserID (mUserObjPool um ! i)"
    by (rule RoomManager_LeaveUser_cases [OF assms(3) le]) auto
  then show "P (e, rm', u')" using assms by (intro assms(4) J_put_user)
qed

lemma J_Add:
  assumes "J um" and "\<And>s. c_str p = Inr s \<Longrightarrow> admit s"
    and "\<And>e um'. J um' \<Longrightarrow> P (e, um')"
  shows "ensures (UserManager_Adduser um p i) P"
proof (rule ensuresI, clarify)
  fix e um' assume a: "UserManager_Adduser um p i = Inr (e, um')"
  then obtain s where "c_str p = Inr s" by (cases rule: Adduser_cases)
  then show "P (e, um')" using assms J_Adduser a by blast
qed

abbreviation Jpm :: "PacketManager \<Rightarrow> bool" where "Jpm pm \<equiv> J (mUserManager pm)"

lemmas J_rules = ensures_rules J_notify_room J_store ensuresI [of "strcpy_s _ _"]
  ensuresI [of "deref _ _"] ensuresI [of "ROOM_ENTER_REQUEST_RoomNumber _"]
  ensuresI [of "get_UINT16 _ _"] ensuresI [of "mem_read _ _ _"]
  ensuresI [of "UserManager_FindUserIndexByID _ _"]

lemma J_ClearConnectionInfo:
  assumes "Jpm pm" and "rm_inv n (mRoomManager pm)"
  shows "ensures (PacketManager_ClearConnectionInfo pm i) Jpm"
  unfolding PacketManager_ClearConnectionInfo_def Let_def
  by (intro ensures_rules J_Leave [where n = n] ensuresI [of "UserManager_DeleteUserInfo _ _"])
    (use assms in \<open>auto intro: J_Delete\<close>)

lemma J_Chat: "Jpm pm \<Longrightarrow> ensures (ProcessRoomChatMessage pm i sz p) Jpm"
  unfolding ProcessRoomChatMessage_def Let_def by (intro J_rules) auto

lemma J_EnterRoom:
  assumes "Jpm pm" and "rm_inv n (mRoomManager pm)"
  shows "ensures (ProcessEnterRoom pm i sz p) Jpm"
  unfolding ProcessEnterRoom_def Let_def by (intro J_rules J_Enter [where n = n]) (use assms in auto)

lemma J_LeaveRoom:
  assumes "Jpm pm" and "rm_inv n (mRoomManager pm)"
  shows "ensures (ProcessLeaveRoom pm i sz p) Jpm"
  unfolding ProcessLeaveRoom_def Let_def by (intro J_rules J_Leave [where n = n]) (use assms in auto)

lemma J_Login:
  assumes "Jpm pm" and "\<And>mem. deref pm p = Inr mem \<Longrightarrow> \<not> is_test_user (drop off_UserID mem)"
  shows "ensures (ProcessLogin pm i sz p) Jpm"
proof -
  have "ensures (ProcessLogin pm i sz p) (\<lambda>pm'. mUserManager pm' = mUserManager pm)"
    unfolding ProcessLogin_def Let_def
    by (intro J_rules ensuresI [of "User_SetLogin _ _"] ensuresI [of "UserManager_Adduser _ _ _"])
      (use assms(2) in auto)
  then show ?thesis using assms(1) by (auto elim: ensures_mono)
qed

lemma J_DBResult:
  assumes "Jpm pm" and "\<And>mem s. deref pm p = Inr mem \<Longrightarrow> get_UINT16 mem 0 = Inr 0 \<Longrightarrow> c_str (drop 2 mem) = Inr s \<Longrightarrow> admit s"
  shows "ensures (ProcessLoginDBResult pm i sz p) Jpm"
  unfolding ProcessLoginDBResult_def Let_def
  by (intro J_rules J_Add) (use assms in \<open>auto intro: J_Increase\<close>)

text \<open>The lemma the locale is for.\<close>

lemma J_ProcessRecvPacket:
  assumes "Jpm pm" and "pm_inv pm" and "login_admitted admit pm packetId p"
  shows "ensures (ProcessRecvPacket pm i packetId sz p) Jpm"
proof (cases "mPacketHandlers packetId")
  case None
  then show ?thesis using assms(1) by (simp add: ProcessRecvPacket_def ensures_basic)
next
  case (Some h)
  note rm = core_rm [OF pm_inv_core [OF assms(2)]]
  have ids: "h = H_ProcessLogin \<Longrightarrow> packetId = packet_id_val LOGIN_REQUEST"
    "h = H_ProcessLoginDBResult \<Longrightarrow> packetId = redis_task_val RESPONSE_LOGIN"
    using Some by (auto simp: mPacketHandlers_def split: if_splits)
  have "ensures (run_handler h pm i sz p) Jpm"
  proof (cases h)
    case H_ProcessUserConnect
    then show ?thesis
      using assms(1) by (auto simp: ProcessUserConnect_def intro!: ensures_rules)
  next
    case H_ProcessUserDisconnect
    then show ?thesis
      using J_ClearConnectionInfo [OF assms(1) rm] by (simp add: ProcessUserDisconnect_def)
  next
    case H_ProcessLogin
    then show ?thesis
      using assms(1,3) ids by (auto simp: login_admitted_def intro: J_Login)
  next
    case H_ProcessLoginDBResult
    then show ?thesis
      using assms(1,3) ids by (auto simp: login_admitted_def intro: J_DBResult)
  qed (use assms(1) rm J_Chat J_EnterRoom J_LeaveRoom in \<open>auto intro: ensures_basic\<close>)
  then show ?thesis using Some by (simp add: ProcessRecvPacket_def)
qed

end

section \<open>Names are unique\<close>

text \<open>The name of a slot is registered for that slot.\<close>

definition names_inv :: "UserManager \<Rightarrow> bool" where
  "names_inv um \<longleftrightarrow> (\<forall>i < length (mUserObjPool um). mUserID (mUserObjPool um ! i) \<noteq> [] \<longrightarrow>
     mUserIDDictionary um (mUserID (mUserObjPool um ! i)) = Some (int i))"

lemma names_inv_unique:
  "names_inv um \<Longrightarrow> i < length (mUserObjPool um) \<Longrightarrow> j < length (mUserObjPool um) \<Longrightarrow>
     mUserID (mUserObjPool um ! i) \<noteq> [] \<Longrightarrow>
     mUserID (mUserObjPool um ! i) = mUserID (mUserObjPool um ! j) \<Longrightarrow> i = j"
  unfolding names_inv_def by (metis option.inject of_nat_eq_iff)

interpretation nm: user_property "\<lambda>_. True" names_inv
proof unfold_locales
  fix um p s i e um'
  assume J: "names_inv um" and a: "UserManager_Adduser um p i = Inr (e, um')"
  from a show "names_inv um'"
  proof (cases rule: Adduser_cases)
    case (new s)
    then show ?thesis using J by (auto simp: names_inv_def nth_list_update)
  qed (use J in simp)
next
  fix um i um'
  assume J: "names_inv um" and d: "UserManager_DeleteUserInfo um i = Inr um'"
  have i: "i < length (mUserObjPool um)"
    using d DeleteUserInfo_fault [of i um] by (cases "i < length (mUserObjPool um)") auto
  show "names_inv um'"
    using J d i names_inv_unique [OF J]
    by (fastforce simp: names_inv_def DeleteUserInfo_eq user_ops nth_list_update)
qed (auto simp: names_inv_def nth_list_update)

section \<open>Names fit their fields\<close>

definition names_ok :: "UserManager \<Rightarrow> bool" where
  "names_ok um \<longleftrightarrow> (\<forall>u \<in> set (mUserObjPool um). name_ok (mUserID u))"

lemma names_ok_nth: "names_ok um \<Longrightarrow> i < length (mUserObjPool um) \<Longrightarrow> name_ok (mUserID (mUserObjPool um ! i))"
  by (simp add: names_ok_def)

lemma names_ok_put_user:
  "names_ok um \<Longrightarrow> name_ok (mUserID u) \<Longrightarrow> names_ok (put_user um i u)"
  by (auto simp: names_ok_def dest: set_update_subset_insert [THEN subsetD])

interpretation nl: user_property name_ok names_ok
proof unfold_locales
  fix um p s i e um'
  assume J: "names_ok um" "c_str p = Inr s" "name_ok s" and a: "UserManager_Adduser um p i = Inr (e, um')"
  from a show "names_ok um'"
  proof (cases rule: Adduser_cases)
    case (new s')
    have "names_ok (um\<lparr>mUserIDDictionary := (mUserIDDictionary um)(s' \<mapsto> int i)\<rparr>)"
      using J(1) by (simp add: names_ok_def)
    then show ?thesis using J(2,3) new by (auto intro: names_ok_put_user)
  qed (use J in simp)
next
  fix um i um'
  assume J: "names_ok um" and d: "UserManager_DeleteUserInfo um i = Inr um'"
  have i: "i < length (mUserObjPool um)"
    using d DeleteUserInfo_fault [of i um] by (cases "i < length (mUserObjPool um)") auto
  have "names_ok (put_user (um\<lparr>mUserIDDictionary := d'\<rparr>) i (User_IncrementGeneration (User_Clear u)))" for d' u
    using J by (intro names_ok_put_user) (simp_all add: names_ok_def user_ops name_ok_def)
  then show "names_ok um'" using d i by (auto simp: DeleteUserInfo_eq names_ok_def)
next
  fix um i and u :: user
  assume "names_ok um" "i < length (mUserObjPool um)" "mUserID u = mUserID (mUserObjPool um ! i)"
  then show "names_ok (put_user um i u)" using names_ok_nth by (intro names_ok_put_user) auto
qed (auto simp: names_ok_def)

section \<open>No request makes a handler fault\<close>

text \<open>
  What a request must be for the handlers to be safe: its structure is complete and its strings end inside the memory
  that is read. A name that is stored (by the load-test branch, or by an answer that grants a login, whoever sent
  it) must have at most 32 bytes besides; see \<open>long_test_name_faults\<close> for one that has more.
\<close>

definition request_ok :: "PacketManager \<Rightarrow> UINT16 \<Rightarrow> pkt_ptr \<Rightarrow> bool" where
  "request_ok pm packetId p \<longleftrightarrow>
     (packetId = packet_id_val LOGIN_REQUEST \<longrightarrow> (\<exists>mem uid. deref pm p = Inr mem \<and> 71 \<le> length mem \<and>
        c_str (drop off_UserID mem) = Inr uid \<and> (is_test_user (drop off_UserID mem) \<longrightarrow> name_ok uid))) \<and>
     (packetId = redis_task_val RESPONSE_LOGIN \<longrightarrow> (\<exists>mem. deref pm p = Inr mem \<and> 2 \<le> length mem \<and>
        (get_UINT16 mem 0 = Inr 0 \<longrightarrow> (\<exists>uid. c_str (drop 2 mem) = Inr uid \<and> name_ok uid)))) \<and>
     (packetId = packet_id_val ROOM_ENTER_REQUEST \<longrightarrow> (\<exists>mem. deref pm p = Inr mem \<and> 9 \<le> length mem)) \<and>
     (packetId = packet_id_val ROOM_CHAT_REQUEST \<longrightarrow> (\<exists>mem msg. deref pm p = Inr mem \<and>
        c_str (drop off_Message mem) = Inr msg \<and> length msg \<le> MAX_CHAT_MSG))"

text \<open>The load-test branch is the one request that stores a name and is not admitted by the scheme.\<close>

definition load_test_login :: "PacketManager \<Rightarrow> UINT16 \<Rightarrow> pkt_ptr \<Rightarrow> bool" where
  "load_test_login pm packetId p \<longleftrightarrow> packetId = packet_id_val LOGIN_REQUEST \<and>
     (\<exists>mem. deref pm p = Inr mem \<and> is_test_user (drop off_UserID mem))"

lemma request_ok_admitted:
  "request_ok pm packetId p \<Longrightarrow> \<not> load_test_login pm packetId p \<Longrightarrow> login_admitted name_ok pm packetId p"
  by (auto simp: request_ok_def login_admitted_def load_test_login_def)

lemma Enter_no_fault:
  assumes "pm_inv pm" and "i < length (pm_users pm)" and "name_ok (mUserID (pm_users pm ! i))"
    and "deref pm p = Inr mem" and "9 \<le> length mem"
  shows "\<exists>pm'. ProcessEnterRoom pm i sz p = Inr pm'"
proof (cases "mCurDomainState (pm_users pm ! i) = DS_LOGIN")
  case False
  then show ?thesis using EnterRoom_wrong_state [OF assms(2)] by blast
next
  case True
  obtain number where n: "ROOM_ENTER_REQUEST_RoomNumber mem = Inr number"
    using assms(5)
    by (simp add: ROOM_ENTER_REQUEST_RoomNumber_def get_INT32_def get_UINT32_def packet_consts)
  show ?thesis
  proof (cases "RoomManager_GetRoomByNumber (mRoomManager pm) number")
    case None
    then show ?thesis using EnterRoom_no_room [OF assms(2) True assms(4) n] by blast
  next
    case (Some k)
    have "k < length (mRoomList (mRoomManager pm))"
      using GetRoomByNumber_Some [OF core_rm [OF pm_inv_core [OF assms(1)]] Some] by simp
    then show ?thesis
      using EnterRoom_full [OF assms(2) True assms(4) n Some]
        EnterRoom_success [OF assms(1,2) True assms(3,4) n Some] by (meson not_le)
  qed
qed

lemma Leave_no_fault:
  assumes "pm_inv pm" and "i < length (pm_users pm)" and "name_ok (mUserID (pm_users pm ! i))"
  shows "\<exists>pm'. ProcessLeaveRoom pm i sz p = Inr pm'"
  using LeaveRoom_no_room [OF assms(2)] LeaveRoom_success [OF assms]
  by (cases "RoomManager_GetRoomByNumber (mRoomManager pm) (roomIndex (pm_users pm ! i))") blast+

lemma DBResult_no_fault:
  assumes "i < length (pm_users pm)" and d: "deref pm p = Inr mem"
    and "2 \<le> length mem" and "get_UINT16 mem 0 = Inr 0 \<longrightarrow> (\<exists>uid. c_str (drop 2 mem) = Inr uid \<and> name_ok uid)"
  shows "\<exists>pm'. ProcessLoginDBResult pm i sz p = Inr pm'"
proof -
  obtain res where r: "get_UINT16 mem 0 = Inr res"
    using assms(3) by (simp add: get_UINT16_def)
  show ?thesis
  proof (cases "res = 0")
    case False
    then show ?thesis using DBResult_refused [OF d r] by auto
  next
    case True
    with r have r0: "get_UINT16 mem 0 = Inr 0" by simp
    then obtain uid where u: "c_str (drop 2 mem) = Inr uid" "name_ok uid" using assms(4) by blast
    show ?thesis
      using DBResult_logged_in [OF assms(1) d r0 u] DBResult_taken_total [OF d r0 u(1) _ assms(3)]
      by (cases "mUserIDDictionary (mUserManager pm) uid") blast+
  qed
qed

lemma login_size: "unat (sz :: UINT16) = 71 \<Longrightarrow> sz = 71"
proof -
  assume "unat sz = 71"
  then have "unat sz = unat (71 :: UINT16)" by simp
  then show "sz = 71" by (simp only: word_unat_eq_iff)
qed

lemma Login_no_fault:
  assumes "pm_inv pm" and "i < length (pm_users pm)" and "deref pm p = Inr mem" and "71 \<le> length mem"
    and "c_str (drop off_UserID mem) = Inr uid"
  shows "\<exists>pm'. ProcessLogin pm i sz p = Inr pm'"
proof (cases "unat sz = 71")
  case True
  then show ?thesis
    using Login_ordinary [OF assms(1,3-5)] Login_test_user [OF assms(2,3,5)] login_size
    by (cases "is_test_user (drop off_UserID mem)") blast+
qed (use Login_wrong_size in blast)

lemma Login_test_user_names:
  assumes "names_ok (mUserManager pm)" and "i < length (pm_users pm)" and "deref pm p = Inr mem"
    and "c_str (drop off_UserID mem) = Inr uid" and "is_test_user (drop off_UserID mem)" and "name_ok uid"
    and "ProcessLogin pm i sz p = Inr pm'"
  shows "names_ok (mUserManager pm')"
proof (cases "unat sz = 71")
  case True
  obtain d where "ProcessLogin pm i 71 p = Inr (pm_send (pm\<lparr>mUserManager :=
      put_user (mUserManager pm\<lparr>mUserIDDictionary := d\<rparr>) i
        ((pm_users pm ! i)\<lparr>mCurDomainState := DS_LOGIN, mUserID := uid\<rparr>)\<rparr>) i
      (LOGIN_RESPONSE_PACKET (error_val EC_NONE)))" (is "_ = Inr ?pm1")
    using Login_test_user [OF assms(2-5)] by blast
  then have e: "pm' = ?pm1" using assms(7) login_size [OF True] by simp
  have "names_ok (put_user (mUserManager pm\<lparr>mUserIDDictionary := d\<rparr>) i
      ((pm_users pm ! i)\<lparr>mCurDomainState := DS_LOGIN, mUserID := uid\<rparr>))"
    using assms(1,6) by (intro names_ok_put_user) (simp_all add: names_ok_def)
  then show ?thesis unfolding e by simp
qed (use assms(1,7) Login_wrong_size in simp)

text \<open>
  A load-test name of more than 32 bytes, which runs on into the field of the password, is stored as it is; the next
  request of the client that copies it into a field of 33 bytes stops the process.
\<close>

lemma EnterRoom_long_name:
  assumes inv: "pm_inv pm" and "i < length (pm_users pm)" and "mCurDomainState (pm_users pm ! i) = DS_LOGIN"
    and "0 \<notin> set (mUserID (pm_users pm ! i))" and "MAX_USER_ID_LENGTH < length (mUserID (pm_users pm ! i))"
    and "deref pm q = Inr mem" and "ROOM_ENTER_REQUEST_RoomNumber mem = Inr number"
    and "RoomManager_GetRoomByNumber (mRoomManager pm) number = Some k"
    and "mCurrentUserCount (mRoomList (mRoomManager pm) ! k) < mMaxUserCount (mRoomList (mRoomManager pm) ! k)"
  shows "ProcessEnterRoom pm i sz q = Inl InvalidParameter"
proof -
  have "strcpy_s (MAX_USER_ID_LENGTH + 1) (nul_terminated (mUserID (pm_users pm ! i))) = Inl InvalidParameter"
    using assms(4,5) by (intro strcpy_s_overflow) auto
  moreover have "RoomManager_EnterUser (mRoomManager pm) number i (pm_users pm ! i) =
      Inr (error_val EC_NONE, put_room (mRoomManager pm) k (entered (mRoomList (mRoomManager pm) ! k) i),
        User_EnterRoom (pm_users pm ! i) number)"
    using assms(8,9) GetRoomByNumber_Some [OF core_rm [OF pm_inv_core [OF inv]] assms(8)]
    by (simp add: RoomManager_EnterUser_def Room_EnterUser_def entered_def)
  ultimately show ?thesis
    using assms(2,3,6,7) by (simp add: enter_defs User_GetUserID_def User_EnterRoom_def)
qed

lemma long_test_name_faults:
  assumes "pm_inv pm" and "i < length (pm_users pm)" and "deref pm p = Inr mem"
    and "c_str (drop off_UserID mem) = Inr uid" and "is_test_user (drop off_UserID mem)" and "MAX_USER_ID_LENGTH < length uid"
  shows "\<exists>pm1. ProcessLogin pm i 71 p = Inr pm1 \<and> mUserID (pm_users pm1 ! i) = uid \<and>
    sent pm1 = sent pm @ [(i, 7, LOGIN_RESPONSE_PACKET (error_val EC_NONE))] \<and>
    (\<forall>q mem' number k sz. deref pm1 q = Inr mem' \<and> ROOM_ENTER_REQUEST_RoomNumber mem' = Inr number \<and>
       RoomManager_GetRoomByNumber (mRoomManager pm) number = Some k \<and>
       mCurrentUserCount (mRoomList (mRoomManager pm) ! k) < mMaxUserCount (mRoomList (mRoomManager pm) ! k) \<longrightarrow>
       ProcessEnterRoom pm1 i sz q = Inl InvalidParameter)"
proof -
  obtain d where l: "ProcessLogin pm i 71 p = Inr (pm_send (pm\<lparr>mUserManager :=
      put_user (mUserManager pm\<lparr>mUserIDDictionary := d\<rparr>) i
        ((pm_users pm ! i)\<lparr>mCurDomainState := DS_LOGIN, mUserID := uid\<rparr>)\<rparr>) i
      (LOGIN_RESPONSE_PACKET (error_val EC_NONE)))" (is "_ = Inr ?pm1")
    using Login_test_user [OF assms(2-5)] by blast
  have u: "pm_users ?pm1 ! i = (pm_users pm ! i)\<lparr>mCurDomainState := DS_LOGIN, mUserID := uid\<rparr>" "i < length (pm_users ?pm1)"
    using assms(2) by (simp_all add: pm_users_def)
  moreover have "0 \<notin> set uid" using assms(4) by (simp add: c_str_eq_Inr)
  moreover have "ensures (ProcessLogin pm i 71 p) (ok_step pm)"
    using assms(1,2) by (rule ProcessLogin_ok)
  then have "pm_inv ?pm1" using l by (auto simp: ok_step_def dest: ensuresD)
  ultimately show ?thesis
    using l assms(6) EnterRoom_long_name [of ?pm1 i] by (intro exI [of _ ?pm1]) (auto simp: packet_consts)
qed

lemma ProcessRecvPacket_total:
  assumes "pm_inv pm" and "names_ok (mUserManager pm)" and "i < length (pm_users pm)"
    and "request_ok pm packetId p"
  shows "\<exists>pm'. ProcessRecvPacket pm i packetId sz p = Inr pm' \<and> pm_inv pm' \<and> names_ok (mUserManager pm')"
proof -
  have nm: "name_ok (mUserID (pm_users pm ! i))"
    using assms(2,3) by (simp add: pm_users_def names_ok_nth)
  have "\<exists>pm'. ProcessRecvPacket pm i packetId sz p = Inr pm'"
  proof (cases "mPacketHandlers packetId")
    case None
    then show ?thesis by (simp add: ProcessRecvPacket_def)
  next
    case (Some h)
    have ids: "h = H_ProcessLogin \<Longrightarrow> packetId = packet_id_val LOGIN_REQUEST"
      "h = H_ProcessLoginDBResult \<Longrightarrow> packetId = redis_task_val RESPONSE_LOGIN"
      "h = H_ProcessEnterRoom \<Longrightarrow> packetId = packet_id_val ROOM_ENTER_REQUEST"
      "h = H_ProcessRoomChatMessage \<Longrightarrow> packetId = packet_id_val ROOM_CHAT_REQUEST"
      using Some by (auto simp: mPacketHandlers_def split: if_splits)
    have "\<exists>pm'. run_handler h pm i sz p = Inr pm'"
    proof (cases h)
      case H_ProcessUserConnect
      then show ?thesis
        using assms(3) by (simp add: ProcessUserConnect_def UserManager_GetUserByConnIdx_def pm_users_def)
    next
      case H_ProcessUserDisconnect
      then show ?thesis
        using ClearConnectionInfo_eq [OF assms(1,3)] by (simp add: ProcessUserDisconnect_def)
    next
      case H_ProcessLogin
      then show ?thesis
        using assms(4) ids(1) Login_no_fault [OF assms(1,3)] by (auto simp: request_ok_def)
    next
      case H_ProcessLoginDBResult
      then show ?thesis
        using assms(4) ids(2) DBResult_no_fault [OF assms(3)] by (auto simp: request_ok_def)
    next
      case H_ProcessEnterRoom
      then show ?thesis
        using assms(4) ids(3) Enter_no_fault [OF assms(1,3) nm] by (auto simp: request_ok_def)
    next
      case H_ProcessLeaveRoom
      then show ?thesis using Leave_no_fault [OF assms(1,3) nm] by simp
    next
      case H_ProcessRoomChatMessage
      then obtain mem msg where m: "deref pm p = Inr mem" "c_str (drop off_Message mem) = Inr msg"
        "length msg \<le> MAX_CHAT_MSG"
        using assms(4) ids(4) by (auto simp: request_ok_def)
      then show ?thesis
        using H_ProcessRoomChatMessage Chat_not_in_room [OF assms(3)] Chat_success [OF assms(1,3) _ nm m]
        by (cases "mCurDomainState (pm_users pm ! i) = DS_ROOM") auto
    qed simp
    then show ?thesis using Some by (simp add: ProcessRecvPacket_def)
  qed
  then obtain pm' where r: "ProcessRecvPacket pm i packetId sz p = Inr pm'" by blast
  have "names_ok (mUserManager pm')"
  proof (cases "load_test_login pm packetId p")
    case True
    then obtain mem uid where m: "deref pm p = Inr mem" "c_str (drop off_UserID mem) = Inr uid"
      "is_test_user (drop off_UserID mem)" "name_ok uid" and id: "packetId = packet_id_val LOGIN_REQUEST"
      using assms(4) by (auto simp: load_test_login_def request_ok_def)
    have "mPacketHandlers packetId = Some H_ProcessLogin" by (simp add: id mPacketHandlers_def)
    then have "ProcessLogin pm i sz p = Inr pm'" using r by (simp add: ProcessRecvPacket_def)
    then show ?thesis by (rule Login_test_user_names [OF assms(2,3) m])
  next
    case False
    then show ?thesis
      using ensuresD [OF nl.J_ProcessRecvPacket [OF assms(2,1) request_ok_admitted [OF assms(4)]] r] by simp
  qed
  then show ?thesis
    using r ensuresD [OF ProcessRecvPacket_ok [OF assms(1,3)] r] by (auto simp: recv_ok_def)
qed

end
