(* ===== verification/LogicThread.thy ===== *)
theory LogicThread
  imports LoginNames
begin

text \<open>
  \<open>PacketManager::ProcessPacket\<close>, the loop of the logic thread, twice: as a function from state to
  state (one batch, and the thread until it waits or ends), and as a step relation in which the
  network threads and the Redis worker interleave with it. The loops may run forever: they are partial
  functions, \<open>None\<close> is "does not return".
\<close>

section \<open>The loops of one batch\<close>

definition bindo :: "'a result option \<Rightarrow> ('a \<Rightarrow> 'b result option) \<Rightarrow> 'b result option" where
  "bindo m f = (case m of None \<Rightarrow> None | Some (Inl e) \<Rightarrow> Some (Inl e) | Some (Inr x) \<Rightarrow> f x)"

lemma bindo_simps [simp]:
  "bindo None f = None" "bindo (Some (Inl e)) f = Some (Inl e)" "bindo (Some (Inr x)) f = f x"
  by (simp_all add: bindo_def)

text \<open>\<open>pUser->GetPacket()\<close> on the user of a slot.\<close>

definition GetPacket_at :: "PacketManager \<Rightarrow> nat \<Rightarrow> (PacketManager \<times> PacketInfo) result" where
  "GetPacket_at pm i =
     bindr (UserManager_GetUserByConnIdx (mUserManager pm) i) (\<lambda>u.
     bindr (User_GetPacket u) (\<lambda>(u', pk).
       Inr (pm\<lparr>mUserManager := put_user (mUserManager pm) i u'\<rparr>, pk)))"

text \<open>The call \<open>ProcessRecvPacket(ClientIndex, PacketId, DataSize, pDataPtr)\<close> narrows both numbers.\<close>

definition recv :: "PacketManager \<Rightarrow> nat \<Rightarrow> PacketInfo \<Rightarrow> PacketManager result" where
  "recv pm i pk = ProcessRecvPacket pm i (ucast (PacketId pk)) (ucast (DataSize pk)) (pDataPtr pk)"

fun process_systems :: "PacketManager \<Rightarrow> PacketInfo list \<Rightarrow> PacketManager result" where
  "process_systems pm [] = Inr pm"
| "process_systems pm (pk # pks) = bindr (recv pm (ClientIndex pk) pk) (\<lambda>pm'. process_systems pm' pks)"

text \<open>The inner \<open>while (true)\<close>: the packets left in the user's ring buffer.\<close>

partial_function (option) drain :: "PacketManager \<Rightarrow> nat \<Rightarrow> PacketManager result option" where
  "drain pm i =
     (case GetPacket_at pm i of
        Inl e \<Rightarrow> Some (Inl e)
      | Inr (pm1, pk) \<Rightarrow>
          if PacketId pk = 0 then Some (Inr pm1)
          else (case recv pm1 i pk of
                  Inl e \<Rightarrow> Some (Inl e)
                | Inr pm2 \<Rightarrow> drain pm2 i))"

text \<open>One element of \<open>mReadBuffer\<close>: the generation test, the first packet, then the inner loop.\<close>

definition process_task :: "PacketManager \<Rightarrow> PacketTask \<Rightarrow> PacketManager result option" where
  "process_task pm t =
     (case UserManager_GetUserByConnIdx (mUserManager pm) (clientIndex t) of
        Inl e \<Rightarrow> Some (Inl e)
      | Inr u \<Rightarrow>
          if User_GetGeneration u \<noteq> generation t then Some (Inr pm)
          else (case GetPacket_at pm (clientIndex t) of
                  Inl e \<Rightarrow> Some (Inl e)
                | Inr (pm1, pk) \<Rightarrow>
                    if PacketId pk = 0 then Some (Inr pm1)
                    else (case recv pm1 (clientIndex t) pk of
                            Inl e \<Rightarrow> Some (Inl e)
                          | Inr pm2 \<Rightarrow> drain pm2 (clientIndex t))))"

fun process_tasks :: "PacketManager \<Rightarrow> PacketTask list \<Rightarrow> PacketManager result option" where
  "process_tasks pm [] = Some (Inr pm)"
| "process_tasks pm (t # ts) = bindo (process_task pm t) (\<lambda>pm'. process_tasks pm' ts)"

text \<open>The loop over the Redis responses; the heap block of a task is released after its handler.\<close>

definition response_ptr :: "RedisTask \<Rightarrow> pkt_ptr" where
  "response_ptr t = (case R_pData t of None \<Rightarrow> NullPtr | Some bs \<Rightarrow> HeapBuf bs)"

definition take_response :: "PacketManager \<Rightarrow> RedisTask \<times> PacketManager" where
  "take_response pm =
     (let (t, red) = RedisManager_TakeResponseTask (mRedisManager pm) in (t, pm\<lparr>mRedisManager := red\<rparr>))"

definition handle_response :: "PacketManager \<Rightarrow> RedisTask \<Rightarrow> PacketManager result" where
  "handle_response pm t = ProcessRecvPacket pm (R_UserIndex t) (redis_task_val (R_TaskID t))
     (of_nat (R_DataSize t)) (response_ptr t)"

partial_function (option) process_responses :: "PacketManager \<Rightarrow> PacketManager result option" where
  "process_responses pm =
     (case take_response pm of (t, pm1) \<Rightarrow>
        if R_TaskID t = RT_INVALID then Some (Inr pm1)
        else (case handle_response pm1 t of
                Inl e \<Rightarrow> Some (Inl e)
              | Inr pm2 \<Rightarrow> process_responses pm2))"

section \<open>The thread\<close>

text \<open>The predicate of the wait on \<open>mPacketEventCV\<close>.\<close>

definition wake_up :: "PacketManager \<Rightarrow> bool" where
  "wake_up pm \<longleftrightarrow> \<not> mIsRunProcessThread pm \<or> mSystemWriteBuffer pm \<noteq> [] \<or> mWriteBuffer pm \<noteq> [] \<or>
     RedisManager_HasResponseTask (mRedisManager pm)"

definition swap_buffers :: "PacketManager \<Rightarrow> PacketManager" where
  "swap_buffers pm = pm\<lparr>mSystemWriteBuffer := mSystemReadBuffer pm,
     mSystemReadBuffer := mSystemWriteBuffer pm,
     mWriteBuffer := mReadBuffer pm, mReadBuffer := mWriteBuffer pm\<rparr>"

text \<open>What follows the swap: system packets, tasks, responses, each buffer cleared after its loop.\<close>

definition ProcessPacket_batch :: "PacketManager \<Rightarrow> PacketManager result option" where
  "ProcessPacket_batch pm =
     (let pm1 = swap_buffers pm in
      bindo (Some (process_systems pm1 (mSystemReadBuffer pm1))) (\<lambda>pm2.
      let pm3 = pm2\<lparr>mSystemReadBuffer := []\<rparr> in
      bindo (process_tasks pm3 (mReadBuffer pm3)) (\<lambda>pm4.
      process_responses (pm4\<lparr>mReadBuffer := []\<rparr>))))"

text \<open>The thread, run until it waits (\<open>False\<close>) or has ended (\<open>True\<close>).\<close>

partial_function (option) ProcessPacket :: "PacketManager \<Rightarrow> (bool \<times> PacketManager) result option" where
  "ProcessPacket pm =
     (if \<not> mIsRunProcessThread pm then Some (Inr (True, pm))
      else if \<not> wake_up pm then Some (Inr (False, pm))
      else (case ProcessPacket_batch pm of
              None \<Rightarrow> None
            | Some r \<Rightarrow> (case r of Inl e \<Rightarrow> Some (Inl e) | Inr pm' \<Rightarrow> ProcessPacket pm')))"

text \<open>\<open>End\<close>: the logic thread leaves its loop, then both database workers finish their queues.\<close>

definition PacketManager_End ::
  "(byte list \<Rightarrow> byte list option) \<Rightarrow> (nat \<Rightarrow> byte) \<Rightarrow> (nat \<Rightarrow> mysql_env) \<Rightarrow> nat \<Rightarrow>
     MySQLConnection \<Rightarrow> sql_row list \<Rightarrow> PacketManager \<Rightarrow>
     (PacketManager \<times> MySQLConnection \<times> sql_row list) result option" where
  "PacketManager_End redis_get pad env k conn rows pm =
     bindo (ProcessPacket (pm\<lparr>mIsRunProcessThread := False\<rparr>)) (\<lambda>(_, pm1).
     Some (bindr (RedisManager_End redis_get pad (mRedisManager pm1)) (\<lambda>red.
     bindr (MySQLManager_End env k (mMySQLManager pm1, conn, rows)) (\<lambda>(my, conn', rows').
       Inr (pm1\<lparr>mRedisManager := red, mMySQLManager := my\<rparr>, conn', rows')))))"

lemma process_task_drain:
  "process_task pm t =
     (case UserManager_GetUserByConnIdx (mUserManager pm) (clientIndex t) of
        Inl e \<Rightarrow> Some (Inl e)
      | Inr u \<Rightarrow> if User_GetGeneration u \<noteq> generation t then Some (Inr pm) else drain pm (clientIndex t))"
  by (subst drain.simps) (simp add: process_task_def)

text \<open>A task of an earlier connection on the slot is skipped.\<close>

lemma process_task_stale:
  "clientIndex t < length (pm_users pm) \<Longrightarrow> mGeneration (pm_users pm ! clientIndex t) \<noteq> generation t \<Longrightarrow>
     process_task pm t = Some (Inr pm)"
  by (simp add: process_task_def UserManager_GetUserByConnIdx_def User_GetGeneration_def pm_users_def)

lemma process_task_current:
  "clientIndex t < length (pm_users pm) \<Longrightarrow> mGeneration (pm_users pm ! clientIndex t) = generation t \<Longrightarrow>
     process_task pm t = drain pm (clientIndex t)"
  by (simp add: process_task_drain UserManager_GetUserByConnIdx_def User_GetGeneration_def pm_users_def)

end
