(* ===== verification/Framing.thy ===== *)
theory Framing
  imports LogicThread
begin

text \<open>
  From received segments to handled packets. \<open>drain_trace\<close> is the loop \<open>drain\<close> with a log of the
  packets it hands to the handlers. For the packets of well-behaved clients the loop ends, hands over
  exactly the packets \<open>split_stream\<close> finds in the buffered bytes, and leaves the incomplete rest; so the
  packets handled do not depend on how the network cut the stream. A header that announces length 0
  makes the loop run forever.
\<close>

section \<open>Packets of well-behaved clients\<close>

definition client_packet :: "byte list \<Rightarrow> bool" where
  "client_packet p \<longleftrightarrow> wf_packet p \<and>
     frame_id p \<noteq> packet_id_val SYS_USER_DISCONNECT \<and> frame_id p \<noteq> redis_task_val RESPONSE_LOGIN \<and>
     (frame_id p = packet_id_val LOGIN_REQUEST \<longrightarrow> 71 \<le> length p \<and> 0 \<in> set (drop off_UserID p) \<and>
        \<not> is_test_user (drop off_UserID p)) \<and>
     (frame_id p = packet_id_val ROOM_ENTER_REQUEST \<longrightarrow> 9 \<le> length p) \<and>
     (frame_id p = packet_id_val ROOM_CHAT_REQUEST \<longrightarrow> 0 \<in> set (take 257 (drop off_Message p)))"

lemma c_str_append: "c_str xs = Inr s \<Longrightarrow> c_str (xs @ ys) = Inr s"
  by (auto simp: c_str_eq_Inr)

lemma c_str_short: "0 \<in> set (take n xs) \<Longrightarrow> \<exists>s. c_str xs = Inr s \<and> length s < n"
proof (induction xs arbitrary: n)
  case (Cons x xs)
  then show ?case by (cases n) (auto simp: result_simps, fastforce)
qed simp

lemma client_packet_request_ok:
  assumes "client_packet p" and "deref pm q = Inr (p @ t)"
  shows "request_ok pm (frame_id p) q"
proof -
  have five: "5 \<le> length p" using assms(1) by (simp add: client_packet_def wf_packet_def packet_consts)
  have d: "drop 5 (p @ t) = drop 5 p @ t" using five by simp
  have login: "\<exists>uid. c_str (drop 5 p @ t) = Inr uid" if "0 \<in> set (drop 5 p)"
    using c_str_defined [OF that] c_str_append by blast
  have chat: "\<exists>msg. c_str (drop 5 p @ t) = Inr msg \<and> length msg \<le> 256" if z: "0 \<in> set (take 257 (drop 5 p))"
  proof -
    obtain msg where "c_str (drop 5 p) = Inr msg" "length msg < 257" using c_str_short [OF z] by blast
    then show ?thesis using c_str_append [of "drop 5 p" msg t] by auto
  qed
  have test: "is_test_user (drop 5 p @ t) = is_test_user (drop 5 p)" if "71 \<le> length p"
    using that by (simp add: is_test_user_def)
  show ?thesis
    using assms login chat test five
    by (auto simp: request_ok_def client_packet_def packet_consts d)
qed

section \<open>GetPacket on a slot\<close>

definition slot_bytes :: "PacketManager \<Rightarrow> nat \<Rightarrow> byte list" where
  "slot_bytes pm i = user_bytes (pm_users pm ! i)"

lemma stream_frame_bytes:
  "stream_frame pm pm' \<Longrightarrow> i < length (pm_users pm) \<Longrightarrow> slot_bytes pm' i = slot_bytes pm i"
  by (simp add: slot_bytes_def user_bytes_def stream_frame_def same_stream_def)

text \<open>What \<open>GetPacket\<close> and a handler leave alone together: everything but the stream of slot \<open>i\<close>.\<close>

definition task_frame :: "nat \<Rightarrow> PacketManager \<Rightarrow> PacketManager \<Rightarrow> bool" where
  "task_frame i pm pm' \<longleftrightarrow> handler_frame pm pm' \<and> mWriteBuffer pm' = mWriteBuffer pm \<and>
     (\<forall>j < length (pm_users pm). j \<noteq> i \<longrightarrow> same_stream (pm_users pm ! j) (pm_users pm' ! j)) \<and>
     (i < length (pm_users pm) \<longrightarrow> mGeneration (pm_users pm' ! i) = mGeneration (pm_users pm ! i) \<and>
        BufferSize (mPacketDataBuffer (pm_users pm' ! i)) = BufferSize (mPacketDataBuffer (pm_users pm ! i)))"

lemma task_frame_refl [simp]: "task_frame i pm pm"
  by (simp add: task_frame_def handler_frame_refl)

lemma task_frame_trans: "task_frame i a b \<Longrightarrow> task_frame i b c \<Longrightarrow> task_frame i a c"
  unfolding task_frame_def using handler_frame_trans [of a b c]
  by (auto simp: handler_frame_def intro: same_stream_trans)

lemma stream_frame_task: "stream_frame pm pm' \<Longrightarrow> task_frame i pm pm'"
  by (auto simp: task_frame_def stream_frame_def same_stream_def)

lemma GetPacket_at_incomplete:
  assumes "pm_inv pm" and "i < length (pm_users pm)"
    and "length (slot_bytes pm i) < PACKET_HEADER_LENGTH \<or>
         length (slot_bytes pm i) < frame_length (slot_bytes pm i)"
  shows "GetPacket_at pm i = Inr (pm, PacketInfo_default)"
proof -
  have "User_GetPacket (pm_users pm ! i) = Inr (pm_users pm ! i, PacketInfo_default)"
    using pm_inv_user [OF assms(1,2)] assms(3) by (intro GetPacket_incomplete) (simp_all add: slot_bytes_def)
  then show ?thesis
    using assms(2) by (simp add: GetPacket_at_def UserManager_GetUserByConnIdx_def pm_users_def)
qed

lemma GetPacket_at_complete:
  assumes "pm_inv pm" and "i < length (pm_users pm)" and "bs = slot_bytes pm i"
    and "PACKET_HEADER_LENGTH \<le> length bs" and "frame_length bs \<le> length bs"
  shows "\<exists>pm1 t. GetPacket_at pm i = Inr (pm1, \<lparr>ClientIndex = 0, PacketId = ucast (frame_id bs),
      DataSize = of_nat (frame_length bs), pDataPtr = TempBuf i\<rparr>) \<and>
    deref pm1 (TempBuf i) = Inr (take (frame_length bs) bs @ t) \<and>
    pm_inv pm1 \<and> task_frame i pm pm1 \<and> slot_bytes pm1 i = drop (frame_length bs) bs \<and>
    (names_ok (mUserManager pm) \<longrightarrow> names_ok (mUserManager pm1)) \<and>
    (\<exists>rb tb. pm1 = pm\<lparr>mUserManager := put_user (mUserManager pm) i
       ((pm_users pm ! i)\<lparr>mPacketDataBuffer := rb, m_tempPacketBuffer := tb\<rparr>)\<rparr>)"
proof -
  let ?um = "mUserManager pm" and ?u = "pm_users pm ! i" and ?n = "frame_length bs"
  have i: "i < length (mUserObjPool ?um)" and u: "?u = mUserObjPool ?um ! i"
    using assms(2) by (simp_all add: pm_users_def)
  have ui: "user_inv ?u" "mIndex ?u = int i" using pm_inv_user [OF assms(1,2)] by simp_all
  have bs: "user_bytes ?u = bs" using assms(3) by (simp add: slot_bytes_def)
  obtain u' where u': "User_GetPacket ?u = Inr (u', \<lparr>ClientIndex = 0, PacketId = ucast (frame_id bs),
      DataSize = of_nat ?n, pDataPtr = TempBuf i\<rparr>)"
    "user_inv u'" "user_bytes u' = drop ?n bs"
    "m_tempPacketBuffer u' = take ?n bs @ drop ?n (m_tempPacketBuffer ?u)"
    "\<exists>rb t. u' = ?u\<lparr>mPacketDataBuffer := rb, m_tempPacketBuffer := t\<rparr>"
    "BufferSize (mPacketDataBuffer u') = BufferSize (mPacketDataBuffer ?u)"
    using GetPacket_complete [OF ui(1)] assms(4,5) ui(2) unfolding bs by auto
  let ?pm1 = "pm\<lparr>mUserManager := put_user ?um i u'\<rparr>"
  have same: "mUserID u' = mUserID ?u" "mIndex u' = mIndex ?u" "mCurDomainState u' = mCurDomainState ?u"
    "roomIndex u' = roomIndex ?u" "mGeneration u' = mGeneration ?u"
    using u'(5) by auto
  have "core (put_user ?um i u') (mRoomManager pm)"
    using u'(2) ui(2) same u by (intro core_put_user [OF pm_inv_core [OF assms(1)] i]) simp_all
  then have "pm_inv ?pm1" using assms(1) by (simp add: pm_inv_def pm_users_def)
  moreover have "task_frame i pm ?pm1"
    using u'(6) same(5) i u
    by (simp add: task_frame_def handler_frame_def pm_users_def)
  moreover have "GetPacket_at pm i = Inr (?pm1, \<lparr>ClientIndex = 0, PacketId = ucast (frame_id bs),
      DataSize = of_nat ?n, pDataPtr = TempBuf i\<rparr>)"
    using u'(1) i u by (simp add: GetPacket_at_def UserManager_GetUserByConnIdx_def)
  moreover have "deref ?pm1 (TempBuf i) = Inr (take ?n bs @ drop ?n (m_tempPacketBuffer ?u))"
    using u'(4) i by (simp add: deref_def UserManager_GetUserByConnIdx_def)
  moreover have "slot_bytes ?pm1 i = drop ?n bs"
    using u'(3) i by (simp add: slot_bytes_def pm_users_def)
  moreover have "names_ok ?um \<longrightarrow> names_ok (mUserManager ?pm1)"
    using nl.J_put_user [of ?um i u'] i u same(1) by simp
  moreover have "\<exists>rb tb. ?pm1 = pm\<lparr>mUserManager := put_user ?um i
      (?u\<lparr>mPacketDataBuffer := rb, m_tempPacketBuffer := tb\<rparr>)\<rparr>"
    using u'(5) by auto
  ultimately show ?thesis by blast
qed

section \<open>The packets handed to the handlers\<close>

definition delivered :: "PacketManager \<Rightarrow> PacketInfo \<Rightarrow> byte list" where
  "delivered pm pk = (case deref pm (pDataPtr pk) of Inl _ \<Rightarrow> [] | Inr mem \<Rightarrow> take (unat (DataSize pk)) mem)"

partial_function (option) drain_trace ::
  "PacketManager \<Rightarrow> nat \<Rightarrow> byte list list \<Rightarrow> (byte list list \<times> PacketManager) result option" where
  "drain_trace pm i log =
     (case GetPacket_at pm i of
        Inl e \<Rightarrow> Some (Inl e)
      | Inr (pm1, pk) \<Rightarrow>
          if PacketId pk = 0 then Some (Inr (log, pm1))
          else (case recv pm1 i pk of
                  Inl e \<Rightarrow> Some (Inl e)
                | Inr pm2 \<Rightarrow> drain_trace pm2 i (log @ [delivered pm1 pk])))"

text \<open>Without the log it is the loop of the code.\<close>

lemma drain_trace_drain:
  assumes "drain_trace pm i log = Some r"
  shows "drain pm i = Some (map_sum id snd r)"
proof (rule drain_trace.raw_induct [OF _ assms, where P = "\<lambda>pm i log r. drain pm i = Some (map_sum id snd r)"])
  fix f pm i log r
  assume "\<And>pm i log r. f pm i log = Some r \<Longrightarrow> drain pm i = Some (map_sum id snd r)"
    and "(case GetPacket_at pm i of Inl e \<Rightarrow> Some (Inl e)
      | Inr (pm1, pk) \<Rightarrow> if PacketId pk = 0 then Some (Inr (log, pm1))
          else (case recv pm1 i pk of Inl e \<Rightarrow> Some (Inl e)
                | Inr pm2 \<Rightarrow> f pm2 i (log @ [delivered pm1 pk]))) = Some r"
  then show "drain pm i = Some (map_sum id snd r)"
    by (subst drain.simps) (auto split: sum.splits prod.splits if_splits)
qed

lemma ucast_UINT32 [simp]: "(ucast (ucast (w :: UINT16) :: UINT32) :: UINT16) = w"
  by transfer simp

lemma ucast_UINT32_zero [simp]: "(ucast (w :: UINT16) :: UINT32) = 0 \<longleftrightarrow> w = 0"
proof
  assume z: "(ucast w :: UINT32) = 0"
  have "w = ucast (ucast w :: UINT32)" by simp
  also have "\<dots> = 0" by (simp only: z) simp
  finally show "w = 0" .
qed simp

lemma recv_frame:
  "recv pm i \<lparr>ClientIndex = c, PacketId = ucast (pid :: UINT16), DataSize = n, pDataPtr = p\<rparr> =
     ProcessRecvPacket pm i pid (ucast n) p"
  by (simp add: recv_def)

section \<open>The loop on a well-formed stream\<close>

text \<open>One turn of the loop on a complete packet of a well-behaved client.\<close>

lemma drain_turn:
  assumes "pm_inv pm" and "names_ok (mUserManager pm)" and "i < length (pm_users pm)"
    and "slot_bytes pm i = p @ rest" and "client_packet p"
  shows "\<exists>pm2. drain_trace pm i log = drain_trace pm2 i (log @ [p]) \<and> pm_inv pm2 \<and>
    names_ok (mUserManager pm2) \<and> task_frame i pm pm2 \<and> slot_bytes pm2 i = rest"
proof -
  have p: "PACKET_HEADER_LENGTH \<le> length p" "frame_length p = length p" "frame_id p \<noteq> 0"
    using assms(5) by (simp_all add: client_packet_def wf_packet_def)
  have f: "frame_length (p @ rest) = length p" "frame_id (p @ rest) = frame_id p"
    using p frame_append by simp_all
  let ?pk = "\<lparr>ClientIndex = 0, PacketId = ucast (frame_id p), DataSize = of_nat (length p),
      pDataPtr = TempBuf i\<rparr>"
  obtain pm1 t where g: "GetPacket_at pm i = Inr (pm1, ?pk)" "deref pm1 (TempBuf i) = Inr (p @ t)"
    "pm_inv pm1" "task_frame i pm pm1" "slot_bytes pm1 i = rest" "names_ok (mUserManager pm1)"
    using GetPacket_at_complete [OF assms(1,3) assms(4) [symmetric]] p f assms(2) by auto
  have i1: "i < length (pm_users pm1)"
    using g(4) assms(3) by (simp add: task_frame_def handler_frame_def)
  obtain pm2 where h: "recv pm1 i ?pk = Inr pm2" "pm_inv pm2" "names_ok (mUserManager pm2)"
    using ProcessRecvPacket_total [OF g(3,6) i1 client_packet_request_ok [OF assms(5) g(2)]]
    unfolding recv_frame by blast
  have "recv_ok i (frame_id p) pm1 pm2"
    using ensuresD [OF ProcessRecvPacket_ok [OF g(3) i1]] h(1) unfolding recv_frame by blast
  then have s: "stream_frame pm1 pm2"
    using assms(5) by (simp add: recv_ok_def client_packet_def)
  have "unat (of_nat (length p) :: UINT32) = length p"
    using frame_length_bound [of p] p(2) by (simp add: unat_of_nat)
  then have "delivered pm1 ?pk = p" using g(2) by (simp add: delivered_def)
  then have "drain_trace pm i log = drain_trace pm2 i (log @ [p])"
    by (subst drain_trace.simps) (use g(1) h(1) p(3) in simp)
  then show ?thesis
    using h(2,3) task_frame_trans [OF g(4) stream_frame_task [OF s]] stream_frame_bytes [OF s i1] g(5)
    by auto
qed

text \<open>A rest that is not yet a packet.\<close>

definition incomplete :: "byte list \<Rightarrow> bool" where
  "incomplete bs \<longleftrightarrow> length bs < PACKET_HEADER_LENGTH \<or> length bs < frame_length bs"

lemma drain_packets:
  assumes "pm_inv pm" and "names_ok (mUserManager pm)" and "i < length (pm_users pm)"
    and "slot_bytes pm i = concat ps @ rest" and "list_all client_packet ps" and "incomplete rest"
  shows "\<exists>pm'. drain_trace pm i log = Some (Inr (log @ ps, pm')) \<and> pm_inv pm' \<and>
    names_ok (mUserManager pm') \<and> task_frame i pm pm' \<and> slot_bytes pm' i = rest"
  using assms(1-5)
proof (induction ps arbitrary: pm log)
  case Nil
  then have "GetPacket_at pm i = Inr (pm, PacketInfo_default)"
    using assms(6) by (intro GetPacket_at_incomplete) (simp_all add: incomplete_def)
  then have "drain_trace pm i log = Some (Inr (log, pm))"
    by (subst drain_trace.simps) (simp add: PacketInfo_default_def)
  then show ?case using Nil by simp
next
  case (Cons p ps)
  obtain pm2 where t: "drain_trace pm i log = drain_trace pm2 i (log @ [p])" "pm_inv pm2"
    "names_ok (mUserManager pm2)" "task_frame i pm pm2" "slot_bytes pm2 i = concat ps @ rest"
    using drain_turn [OF Cons.prems(1-3), of p "concat ps @ rest" log] Cons.prems(4,5) by auto
  have "i < length (pm_users pm2)"
    using t(4) Cons.prems(3) by (simp add: task_frame_def handler_frame_def)
  then show ?case
    using Cons.IH [OF t(2,3) _ t(5), of "log @ [p]"] Cons.prems(5) t(1,4) task_frame_trans by fastforce
qed

section \<open>Zero length\<close>

text \<open>
  A header that announces length 0, with an identifier that has no handler (or the PONG one): the loop
  reads nothing, handles nothing, and is back where it was.
\<close>

lemma drain_stuck:
  assumes "GetPacket_at pm i = Inr (pm, pk)" and "PacketId pk \<noteq> 0" and "recv pm i pk = Inr pm"
  shows "drain pm i = None"
proof -
  have False if d: "drain pm i = Some r" for r
  proof -
    have "(pm, i) \<noteq> (pm, i)"
    proof (rule drain.raw_induct [OF _ d, where P = "\<lambda>q j r. (q, j) \<noteq> (pm, i)"])
      fix f q j r
      assume IH: "\<And>q j r. f q j = Some r \<Longrightarrow> (q, j) \<noteq> (pm, i)"
        and body: "(case GetPacket_at q j of Inl e \<Rightarrow> Some (Inl e)
          | Inr (pm1, pk) \<Rightarrow> if PacketId pk = 0 then Some (Inr pm1)
              else (case recv pm1 j pk of Inl e \<Rightarrow> Some (Inl e) | Inr pm2 \<Rightarrow> f pm2 j)) = Some r"
      show "(q, j) \<noteq> (pm, i)"
      proof
        assume "(q, j) = (pm, i)"
        then have "f pm i = Some r" using body assms by simp
        then show False using IH by blast
      qed
    qed
    then show False by simp
  qed
  then show ?thesis by (cases "drain pm i") auto
qed

lemma GetPacket_zero:
  assumes "user_inv u" and "PACKET_HEADER_LENGTH \<le> length (user_bytes u)"
    and "frame_length (user_bytes u) = 0"
  shows "User_GetPacket u = Inr (u, \<lparr>ClientIndex = 0, PacketId = ucast (frame_id (user_bytes u)),
    DataSize = 0, pDataPtr = TempBuf (nat (mIndex u))\<rparr>)"
proof -
  have "peek_header (mPacketDataBuffer u) 0 PACKET_HEADER_LENGTH =
      Some (take PACKET_HEADER_LENGTH (user_bytes u))"
    using assms(1,2) by (simp add: peek_header_eq length_user_bytes user_bytes_def user_inv_def)
  moreover have "\<not> RingBuffer_Size (mPacketDataBuffer u) < PACKET_HEADER_LENGTH"
    using assms(2) by (simp add: length_user_bytes)
  moreover have "u\<lparr>mPacketDataBuffer := mPacketDataBuffer u, m_tempPacketBuffer := m_tempPacketBuffer u\<rparr> = u"
    by simp
  ultimately show ?thesis
    using assms(2,3)
    by (simp add: User_GetPacket_def Let_def PACKET_HEADER_of_frame RingBuffer_Read_def)
qed

text \<open>Identifiers whose handlers do nothing for a packet of size 0.\<close>

definition idle_id :: "UINT16 \<Rightarrow> bool" where
  "idle_id pid \<longleftrightarrow> mPacketHandlers pid \<in> {None, Some H_Pong, Some H_ProcessUserConnect, Some H_ProcessLogin}"

lemma idle_recv:
  "idle_id pid \<Longrightarrow> i < length (pm_users pm) \<Longrightarrow> ProcessRecvPacket pm i pid 0 p = Inr pm"
  by (auto simp: idle_id_def ProcessRecvPacket_def ProcessUserConnect_def UserManager_GetUserByConnIdx_def
      pm_users_def ProcessLogin_def packet_consts)

lemma drain_zero_length:
  assumes "pm_inv pm" and "i < length (pm_users pm)" and "PACKET_HEADER_LENGTH \<le> length (slot_bytes pm i)"
    and "frame_length (slot_bytes pm i) = 0" and "frame_id (slot_bytes pm i) \<noteq> 0"
    and "idle_id (frame_id (slot_bytes pm i))"
  shows "drain pm i = None"
proof (rule drain_stuck)
  let ?pk = "\<lparr>ClientIndex = 0, PacketId = ucast (frame_id (slot_bytes pm i)), DataSize = 0,
    pDataPtr = TempBuf i\<rparr>"
  have "User_GetPacket (pm_users pm ! i) = Inr (pm_users pm ! i, ?pk)"
    using GetPacket_zero [of "pm_users pm ! i"] pm_inv_user [OF assms(1,2)] assms(3,4)
    by (simp add: slot_bytes_def)
  then show "GetPacket_at pm i = Inr (pm, ?pk)"
    using assms(2) by (simp add: GetPacket_at_def UserManager_GetUserByConnIdx_def pm_users_def)
  show "PacketId ?pk \<noteq> 0" using assms(5) by simp
  show "recv pm i ?pk = Inr pm"
    unfolding recv_frame using idle_recv [OF assms(6,2)] by simp
qed

section \<open>Any segmentation\<close>

text \<open>A prefix of a stream of packets: whole packets, then an incomplete one.\<close>

lemma packets_prefix:
  assumes "list_all wf_packet ps" and "xs @ ys = concat ps"
  shows "\<exists>ps1 ps2 r. ps = ps1 @ ps2 \<and> xs = concat ps1 @ r \<and> r @ ys = concat ps2 \<and> incomplete r \<and>
    (r = [] \<or> (\<exists>p \<in> set ps. length r < length p))"
  using assms
proof (induction ps arbitrary: xs)
  case Nil
  then show ?case by (auto simp: incomplete_def packet_consts)
next
  case (Cons p ps)
  have w: "wf_packet p" using Cons.prems(1) by simp
  show ?case
  proof (cases "length p \<le> length xs")
    case True
    then obtain xs' where xs: "xs = p @ xs'"
      using Cons.prems(2) by (auto simp: append_eq_append_conv2)
    then obtain ps1 ps2 r where r: "ps = ps1 @ ps2" "xs' = concat ps1 @ r" "r @ ys = concat ps2"
      "incomplete r" "r = [] \<or> (\<exists>p \<in> set ps. length r < length p)"
    proof -
      have "list_all wf_packet ps" "xs' @ ys = concat ps" using Cons.prems xs by simp_all
      from Cons.IH [OF this] show ?thesis using that by blast
    qed
    show ?thesis
      by (rule exI [of _ "p # ps1"], rule exI [of _ ps2], rule exI [of _ r]) (use r xs in auto)
  next
    case False
    then obtain p' where p': "p = xs @ p'" "p' \<noteq> []"
      using Cons.prems(2) by (auto simp: append_eq_append_conv2)
    have "incomplete xs"
    proof (cases "PACKET_HEADER_LENGTH \<le> length xs")
      case True
      then have "frame_length xs = length p"
        using w frame_append(1) [OF True, of p'] p'(1) by (simp add: wf_packet_def)
      then show ?thesis using False by (simp add: incomplete_def)
    qed (simp add: incomplete_def)
    then show ?thesis
      by (intro exI [of _ "[]"] exI [of _ "p # ps"] exI [of _ xs])
        (use False Cons.prems(2) in auto)
  qed
qed

lemma ReceivePacketData_bytes:
  assumes "pm_inv pm" and "i < length (pm_users pm)"
    and "length (slot_bytes pm i) + length seg \<le> BufferSize (mPacketDataBuffer (pm_users pm ! i))"
  shows "\<exists>pm1. PacketManager_ReceivePacketData pm i (length seg) (Some seg) = Inr pm1 \<and> pm_inv pm1 \<and>
    (names_ok (mUserManager pm) \<longrightarrow> names_ok (mUserManager pm1)) \<and>
    slot_bytes pm1 i = slot_bytes pm i @ seg \<and> length (pm_users pm1) = length (pm_users pm) \<and>
    BufferSize (mPacketDataBuffer (pm_users pm1 ! i)) = BufferSize (mPacketDataBuffer (pm_users pm ! i)) \<and>
    mGeneration (pm_users pm1 ! i) = mGeneration (pm_users pm ! i) \<and>
    mWriteBuffer pm1 = mWriteBuffer pm @ [\<lparr>clientIndex = i, generation = mGeneration (pm_users pm ! i)\<rparr>]"
   
proof -
  let ?um = "mUserManager pm" and ?u = "pm_users pm ! i"
  have i: "i < length (mUserObjPool ?um)" and u: "?u = mUserObjPool ?um ! i"
    using assms(2) by (simp_all add: pm_users_def)
  have ui: "user_inv ?u" "mIndex ?u = int i" using pm_inv_user [OF assms(1,2)] by simp_all
  obtain rb where rb: "User_SetPacketData ?u (length seg) (Some seg) = Inr (?u\<lparr>mPacketDataBuffer := rb\<rparr>)"
    "user_inv (?u\<lparr>mPacketDataBuffer := rb\<rparr>)" "BufferSize rb = BufferSize (mPacketDataBuffer ?u)"
    "RingBuffer_list rb = user_bytes ?u @ take (user_free ?u) seg"
    using SetPacketData_refines [OF ui(1) refl] by blast
  have "length seg \<le> user_free ?u"
    using assms(3) by (simp add: user_free_def slot_bytes_def length_user_bytes)
  then have joined: "user_bytes (?u\<lparr>mPacketDataBuffer := rb\<rparr>) = user_bytes ?u @ seg"
    using rb(4) by (simp add: user_bytes_def)
  have c: "core (put_user ?um i (?u\<lparr>mPacketDataBuffer := rb\<rparr>)) (mRoomManager pm)"
    using rb(2) ui(2) u by (intro core_put_user [OF pm_inv_core [OF assms(1)] i]) simp_all
  have "names_ok ?um \<longrightarrow> names_ok (put_user ?um i (?u\<lparr>mPacketDataBuffer := rb\<rparr>))"
    using nl.J_put_user [of ?um i "?u\<lparr>mPacketDataBuffer := rb\<rparr>"] i u by simp
  then show ?thesis
    using rb(1,3) joined c i u assms(1)
    by (auto simp: PacketManager_ReceivePacketData_def PacketManager_EnqueuePacketData_def
        UserManager_GetUserByConnIdx_def User_GetGeneration_def pm_inv_def pm_users_def slot_bytes_def)
qed

text \<open>Segments arrive one after another, each followed by the processing of its task.\<close>

fun feed :: "PacketManager \<Rightarrow> nat \<Rightarrow> byte list list \<Rightarrow> byte list list \<Rightarrow>
    (byte list list \<times> PacketManager) result option" where
  "feed pm i [] log = Some (Inr (log, pm))"
| "feed pm i (seg # segs) log =
     bindo (Some (PacketManager_ReceivePacketData pm i (length seg) (Some seg))) (\<lambda>pm1.
     bindo (drain_trace pm1 i log) (\<lambda>(log', pm2). feed pm2 i segs log'))"

lemma feed_packets:
  assumes "pm_inv pm" and "names_ok (mUserManager pm)" and "i < length (pm_users pm)"
    and "slot_bytes pm i @ concat segs = concat ps" and "list_all client_packet ps"
    and "\<forall>seg \<in> set segs. length seg \<le> m"
    and "\<forall>p \<in> set ps. length p + m \<le> BufferSize (mPacketDataBuffer (pm_users pm ! i))"
    and "length (slot_bytes pm i) + m \<le> BufferSize (mPacketDataBuffer (pm_users pm ! i))"
    and "incomplete (slot_bytes pm i)"
  shows "\<exists>pm'. feed pm i segs log = Some (Inr (log @ ps, pm')) \<and> pm_inv pm' \<and>
    names_ok (mUserManager pm') \<and> slot_bytes pm' i = []"
  using assms
proof (induction segs arbitrary: pm ps log)
  case Nil
  have "ps = []"
  proof (cases ps)
    case (Cons p ps')
    then have p: "wf_packet p" using Nil.prems(5) by (simp add: client_packet_def)
    then have "\<not> incomplete (p @ concat ps')"
      using frame_append(1) [of p "concat ps'"] by (simp add: incomplete_def wf_packet_def)
    then show ?thesis using Nil.prems(4,9) Cons by simp
  qed
  then show ?case using Nil.prems(1,2,4) by simp
next
  case (Cons seg segs)
  let ?cap = "BufferSize (mPacketDataBuffer (pm_users pm ! i))"
  have "length (slot_bytes pm i) + length seg \<le> ?cap" using Cons.prems(6,8) by simp
  then obtain pm1 where r: "PacketManager_ReceivePacketData pm i (length seg) (Some seg) = Inr pm1"
    "pm_inv pm1" "names_ok (mUserManager pm1)" "slot_bytes pm1 i = slot_bytes pm i @ seg"
    "length (pm_users pm1) = length (pm_users pm)"
    "BufferSize (mPacketDataBuffer (pm_users pm1 ! i)) = ?cap"
    using ReceivePacketData_bytes [OF Cons.prems(1,3)] Cons.prems(2) by blast
  have wf: "list_all wf_packet ps"
    using Cons.prems(5) by (auto simp: list_all_iff client_packet_def)
  have "(slot_bytes pm i @ seg) @ concat segs = concat ps" using Cons.prems(4) by simp
  from packets_prefix [OF wf this] obtain ps1 ps2 rest where s: "ps = ps1 @ ps2"
    "slot_bytes pm i @ seg = concat ps1 @ rest" "rest @ concat segs = concat ps2" "incomplete rest"
    "rest = [] \<or> (\<exists>p \<in> set ps. length rest < length p)" by blast
  have i1: "i < length (pm_users pm1)" using r(5) Cons.prems(3) by simp
  obtain pm2 where d: "drain_trace pm1 i log = Some (Inr (log @ ps1, pm2))" "pm_inv pm2"
    "names_ok (mUserManager pm2)" "task_frame i pm1 pm2" "slot_bytes pm2 i = rest"
    using drain_packets [OF r(2,3) i1 _ _ s(4), of ps1 log] r(4) s(1,2) Cons.prems(5) by auto
  have cap2: "BufferSize (mPacketDataBuffer (pm_users pm2 ! i)) = ?cap" "i < length (pm_users pm2)"
    using d(4) r(6) i1 by (simp_all add: task_frame_def handler_frame_def)
  have "length rest + m \<le> ?cap" using s(5) Cons.prems(7,8) by fastforce
  then obtain pm' where f: "feed pm2 i segs (log @ ps1) = Some (Inr ((log @ ps1) @ ps2, pm'))"
    "pm_inv pm'" "names_ok (mUserManager pm')" "slot_bytes pm' i = []"
    using Cons.IH [OF d(2,3) cap2(2), of ps2 "log @ ps1"] d(5) s(1,3,4) cap2(1) Cons.prems(5-7) by auto
  then show ?case using r(1) d(1) s(1) by simp
qed

end
