(* ===== verification/ServerSteps.thy ===== *)
theory ServerSteps
  imports Framing
begin

text \<open>
  The logic thread among the other threads, as a step relation. Atomic steps are the critical sections
  of the code: one swap under \<open>mLock\<close>, one \<open>GetPacket\<close> under the user's mutex, one handler (only the
  logic thread runs handlers), one push into a queue, one turn of the Redis worker, one task taken by
  the MySQL worker. \<open>ReceivePacketData\<close> is two steps, the write into the ring buffer and the enqueueing,
  because other threads may come in between. \<open>pc\<close> is where the logic thread is; the lists in it are the
  rest of the buffer it iterates over.
\<close>

section \<open>Steps\<close>

datatype pc =
    Waiting
  | Systems "PacketInfo list"
  | Tasks "PacketTask list"
  | InTask nat "PacketTask list"
  | Handling nat PacketInfo "PacketTask list"
  | Responses
  | Ended

type_synonym server = "PacketManager \<times> pc"

text \<open>The network threads and the database workers.\<close>

inductive env_step ::
  "(byte list \<Rightarrow> byte list option) \<Rightarrow> (nat \<Rightarrow> byte) \<Rightarrow> PacketManager \<Rightarrow> PacketManager \<Rightarrow> bool"
  for redis_get pad where
  receive: "i < length (pm_users pm) \<Longrightarrow> User_SetPacketData (pm_users pm ! i) (length ds) (Some ds) = Inr u \<Longrightarrow>
    env_step redis_get pad pm (pm\<lparr>mUserManager := put_user (mUserManager pm) i u\<rparr>)"
| enqueue: "PacketManager_EnqueuePacketData pm i = Inr pm' \<Longrightarrow> env_step redis_get pad pm pm'"
| connected: "i < length (pm_users pm) \<Longrightarrow>
    env_step redis_get pad pm (PacketManager_PushSystemPacket pm
      \<lparr>ClientIndex = i, PacketId = ucast (packet_id_val SYS_USER_CONNECT), DataSize = 0, pDataPtr = NullPtr\<rparr>)"
| disconnected: "i < length (pm_users pm) \<Longrightarrow>
    env_step redis_get pad pm (PacketManager_PushSystemPacket pm
      \<lparr>ClientIndex = i, PacketId = ucast (packet_id_val SYS_USER_DISCONNECT), DataSize = 0, pDataPtr = NullPtr\<rparr>)"
| redis: "Redis_turn redis_get pad (mRedisManager pm) = Inr (Continue red) \<Longrightarrow>
    env_step redis_get pad pm (pm\<lparr>mRedisManager := red\<rparr>)"
| mysql: "MySQL_take_front (mMySQLManager pm) = Some (t, my) \<Longrightarrow>
    env_step redis_get pad pm (pm\<lparr>mMySQLManager := my\<rparr>)"
| tick: "env_step redis_get pad pm (pm\<lparr>clock := now\<rparr>)"
| end_flag: "env_step redis_get pad pm (pm\<lparr>mIsRunProcessThread := False\<rparr>)"

text \<open>The logic thread.\<close>

inductive logic_step :: "server \<Rightarrow> server \<Rightarrow> bool" where
  stop: "\<not> mIsRunProcessThread pm \<Longrightarrow> logic_step (pm, Waiting) (pm, Ended)"
| swap: "mIsRunProcessThread pm \<Longrightarrow> wake_up pm \<Longrightarrow>
    logic_step (pm, Waiting) (swap_buffers pm, Systems (mSystemReadBuffer (swap_buffers pm)))"
| system: "recv pm (ClientIndex pk) pk = Inr pm' \<Longrightarrow>
    logic_step (pm, Systems (pk # pks)) (pm', Systems pks)"
| systems_done: "logic_step (pm, Systems [])
    (pm\<lparr>mSystemReadBuffer := []\<rparr>, Tasks (mReadBuffer pm))"
| task_skip: "UserManager_GetUserByConnIdx (mUserManager pm) (clientIndex t) = Inr u \<Longrightarrow>
    User_GetGeneration u \<noteq> generation t \<Longrightarrow> logic_step (pm, Tasks (t # ts)) (pm, Tasks ts)"
| task_start: "UserManager_GetUserByConnIdx (mUserManager pm) (clientIndex t) = Inr u \<Longrightarrow>
    User_GetGeneration u = generation t \<Longrightarrow>
    logic_step (pm, Tasks (t # ts)) (pm, InTask (clientIndex t) ts)"
| packet: "GetPacket_at pm i = Inr (pm', pk) \<Longrightarrow> PacketId pk \<noteq> 0 \<Longrightarrow>
    logic_step (pm, InTask i ts) (pm', Handling i pk ts)"
| no_packet: "GetPacket_at pm i = Inr (pm', pk) \<Longrightarrow> PacketId pk = 0 \<Longrightarrow>
    logic_step (pm, InTask i ts) (pm', Tasks ts)"
| handle: "recv pm i pk = Inr pm' \<Longrightarrow> logic_step (pm, Handling i pk ts) (pm', InTask i ts)"
| tasks_done: "logic_step (pm, Tasks []) (pm\<lparr>mReadBuffer := []\<rparr>, Responses)"
| response: "take_response pm = (t, pm1) \<Longrightarrow> R_TaskID t \<noteq> RT_INVALID \<Longrightarrow> handle_response pm1 t = Inr pm2 \<Longrightarrow>
    logic_step (pm, Responses) (pm2, Responses)"
| responses_done: "take_response pm = (t, pm1) \<Longrightarrow> R_TaskID t = RT_INVALID \<Longrightarrow>
    logic_step (pm, Responses) (pm1, Waiting)"

inductive server_step ::
  "(byte list \<Rightarrow> byte list option) \<Rightarrow> (nat \<Rightarrow> byte) \<Rightarrow> server \<Rightarrow> server \<Rightarrow> bool"
  for redis_get pad where
  logic: "logic_step s t \<Longrightarrow> server_step redis_get pad s t"
| env: "env_step redis_get pad pm pm' \<Longrightarrow> server_step redis_get pad (pm, c) (pm', c)"

inductive_simps logic_step_Waiting: "logic_step (pm, Waiting) s"
inductive_simps logic_step_Systems: "logic_step (pm, Systems pks) s"
inductive_simps logic_step_Tasks: "logic_step (pm, Tasks ts) s"
inductive_simps logic_step_InTask: "logic_step (pm, InTask i ts) s"
inductive_simps logic_step_Handling: "logic_step (pm, Handling i pk ts) s"
inductive_simps logic_step_Responses: "logic_step (pm, Responses) s"
inductive_simps logic_step_Ended: "logic_step (pm, Ended) s"
inductive_cases server_stepE: "server_step redis_get pad s t"
inductive_cases env_stepE: "env_step redis_get pad pm pm'"

lemmas logic_step_simps = logic_step_Waiting logic_step_Systems logic_step_Tasks logic_step_InTask
  logic_step_Handling logic_step_Responses logic_step_Ended

definition server_init :: "user_memory \<Rightarrow> nat \<Rightarrow> server \<Rightarrow> bool" where
  "server_init mem n s \<longleftrightarrow> s = (snd (PacketManager_Run (PacketManager_Init mem n)), Waiting)"

section \<open>The function is a run of the steps\<close>

text \<open>Without interference from the environment the batch function is what the steps do.\<close>

lemma steps_systems:
  "process_systems pm pks = Inr pm' \<Longrightarrow> logic_step\<^sup>*\<^sup>* (pm, Systems pks) (pm', Systems [])"
proof (induction pks arbitrary: pm)
  case (Cons pk pks)
  then obtain pm1 where "recv pm (ClientIndex pk) pk = Inr pm1" "process_systems pm1 pks = Inr pm'"
    by (auto simp: result_simps)
  then show ?case using Cons.IH by (blast intro: system converse_rtranclp_into_rtranclp)
qed simp

lemma steps_drain:
  assumes "drain pm i = Some r" and "r = Inr pm'"
  shows "logic_step\<^sup>*\<^sup>* (pm, InTask i ts) (pm', Tasks ts)"
proof -
  have "\<forall>pm'. r = Inr pm' \<longrightarrow> logic_step\<^sup>*\<^sup>* (pm, InTask i ts) (pm', Tasks ts)"
  proof (rule drain.raw_induct [OF _ assms(1), where
        P = "\<lambda>pm i r. \<forall>pm'. r = Inr pm' \<longrightarrow> logic_step\<^sup>*\<^sup>* (pm, InTask i ts) (pm', Tasks ts)"], intro allI impI)
    fix f q j r pm'
    assume IH: "\<And>q j r. f q j = Some r \<Longrightarrow>
        \<forall>pm'. r = Inr pm' \<longrightarrow> logic_step\<^sup>*\<^sup>* (q, InTask j ts) (pm', Tasks ts)"
      and body: "(case GetPacket_at q j of Inl e \<Rightarrow> Some (Inl e)
        | Inr (pm1, pk) \<Rightarrow> if PacketId pk = 0 then Some (Inr pm1)
            else (case recv pm1 j pk of Inl e \<Rightarrow> Some (Inl e) | Inr pm2 \<Rightarrow> f pm2 j)) = Some r"
      and r: "r = Inr pm'"
    obtain pm1 pk where g: "GetPacket_at q j = Inr (pm1, pk)"
      using body r by (cases "GetPacket_at q j") auto
    show "logic_step\<^sup>*\<^sup>* (q, InTask j ts) (pm', Tasks ts)"
    proof (cases "PacketId pk = 0")
      case True
      then show ?thesis using g body r by (auto intro: no_packet)
    next
      case False
      then obtain pm2 where h: "recv pm1 j pk = Inr pm2" "f pm2 j = Some r"
        using g body r by (auto split: sum.splits)
      have "logic_step (q, InTask j ts) (pm1, Handling j pk ts)" using g False by (rule packet)
      moreover have "logic_step (pm1, Handling j pk ts) (pm2, InTask j ts)" using h(1) by (rule handle)
      moreover have "logic_step\<^sup>*\<^sup>* (pm2, InTask j ts) (pm', Tasks ts)" using IH [OF h(2)] r by simp
      ultimately show ?thesis by (rule converse_rtranclp_into_rtranclp [of logic_step, OF _ converse_rtranclp_into_rtranclp [of logic_step]])
    qed
  qed
  then show ?thesis using assms(2) by blast
qed

lemma bindo_eq_Some_Inr:
  "bindo m f = Some (Inr y) \<longleftrightarrow> (\<exists>x. m = Some (Inr x) \<and> f x = Some (Inr y))"
  by (auto simp: bindo_def split: option.splits sum.splits)

lemma steps_tasks:
  "process_tasks pm ts = Some (Inr pm') \<Longrightarrow> logic_step\<^sup>*\<^sup>* (pm, Tasks ts) (pm', Tasks [])"
proof (induction ts arbitrary: pm)
  case (Cons t ts)
  then obtain pm1 where t: "process_task pm t = Some (Inr pm1)" "process_tasks pm1 ts = Some (Inr pm')"
    by (auto simp: bindo_eq_Some_Inr)
  have "logic_step\<^sup>*\<^sup>* (pm, Tasks (t # ts)) (pm1, Tasks ts)"
  proof (cases "UserManager_GetUserByConnIdx (mUserManager pm) (clientIndex t)")
    case (Inr u)
    show ?thesis
    proof (cases "User_GetGeneration u = generation t")
      case True
      then have "drain pm (clientIndex t) = Some (Inr pm1)" using t(1) Inr by (simp add: process_task_drain)
      then have "logic_step\<^sup>*\<^sup>* (pm, InTask (clientIndex t) ts) (pm1, Tasks ts)"
        by (rule steps_drain) simp
      then show ?thesis by (rule converse_rtranclp_into_rtranclp [of logic_step, OF task_start [OF Inr True]])
    next
      case False
      then show ?thesis using t(1) Inr task_skip [OF Inr False] by (simp add: process_task_drain r_into_rtranclp)
    qed
  qed (use t(1) in \<open>simp add: process_task_def\<close>)
  then show ?case using Cons.IH [OF t(2)] by simp
qed simp

lemma steps_responses:
  assumes "process_responses pm = Some r" and "r = Inr pm'"
  shows "logic_step\<^sup>*\<^sup>* (pm, Responses) (pm', Waiting)"
proof -
  have "\<forall>pm'. r = Inr pm' \<longrightarrow> logic_step\<^sup>*\<^sup>* (pm, Responses) (pm', Waiting)"
  proof (rule process_responses.raw_induct [OF _ assms(1), where
        P = "\<lambda>pm r. \<forall>pm'. r = Inr pm' \<longrightarrow> logic_step\<^sup>*\<^sup>* (pm, Responses) (pm', Waiting)"], intro allI impI)
    fix f q r pm'
    assume IH: "\<And>q r. f q = Some r \<Longrightarrow>
        \<forall>pm'. r = Inr pm' \<longrightarrow> logic_step\<^sup>*\<^sup>* (q, Responses) (pm', Waiting)"
      and body: "(case take_response q of (t, pm1) \<Rightarrow>
        if R_TaskID t = RT_INVALID then Some (Inr pm1)
        else (case handle_response pm1 t of Inl e \<Rightarrow> Some (Inl e) | Inr pm2 \<Rightarrow> f pm2)) = Some r"
      and r: "r = Inr pm'"
    obtain t pm1 where t: "take_response q = (t, pm1)" by fastforce
    show "logic_step\<^sup>*\<^sup>* (q, Responses) (pm', Waiting)"
    proof (cases "R_TaskID t = RT_INVALID")
      case True
      then show ?thesis using t body r by (auto intro: responses_done)
    next
      case False
      then obtain pm2 where h: "handle_response pm1 t = Inr pm2" "f pm2 = Some r"
        using t body r by (auto split: sum.splits)
      have "logic_step\<^sup>*\<^sup>* (pm2, Responses) (pm', Waiting)" using IH [OF h(2)] r by simp
      then show ?thesis by (rule converse_rtranclp_into_rtranclp [of logic_step, OF response [OF t False h(1)]])
    qed
  qed
  then show ?thesis using assms(2) by blast
qed

lemma steps_batch:
  assumes "ProcessPacket_batch pm = Some (Inr pm')" and "mIsRunProcessThread pm" and "wake_up pm"
  shows "logic_step\<^sup>*\<^sup>* (pm, Waiting) (pm', Waiting)"
proof -
  let ?pm1 = "swap_buffers pm"
  obtain pm2 where p2: "process_systems ?pm1 (mSystemReadBuffer ?pm1) = Inr pm2"
    using assms(1) by (auto simp: ProcessPacket_batch_def Let_def bindo_eq_Some_Inr)
  let ?pm3 = "pm2\<lparr>mSystemReadBuffer := []\<rparr>"
  obtain pm4 where p4: "process_tasks ?pm3 (mReadBuffer ?pm3) = Some (Inr pm4)"
    "process_responses (pm4\<lparr>mReadBuffer := []\<rparr>) = Some (Inr pm')"
    using assms(1) p2 by (auto simp: ProcessPacket_batch_def Let_def bindo_eq_Some_Inr)
  have "logic_step\<^sup>*\<^sup>* (pm, Waiting) (?pm1, Systems (mSystemReadBuffer ?pm1))"
    using swap [OF assms(2,3)] by (rule r_into_rtranclp)
  also have "logic_step\<^sup>*\<^sup>* (?pm1, Systems (mSystemReadBuffer ?pm1)) (pm2, Systems [])"
    by (rule steps_systems [OF p2])
  also have "logic_step\<^sup>*\<^sup>* (pm2, Systems []) (?pm3, Tasks (mReadBuffer ?pm3))"
    using systems_done [of pm2] by (simp add: r_into_rtranclp)
  also have "logic_step\<^sup>*\<^sup>* (?pm3, Tasks (mReadBuffer ?pm3)) (pm4, Tasks [])"
    by (rule steps_tasks [OF p4(1)])
  also have "logic_step\<^sup>*\<^sup>* (pm4, Tasks []) (pm4\<lparr>mReadBuffer := []\<rparr>, Responses)"
    using tasks_done by (rule r_into_rtranclp)
  also have "logic_step\<^sup>*\<^sup>* (pm4\<lparr>mReadBuffer := []\<rparr>, Responses) (pm', Waiting)"
    using p4(2) by (rule steps_responses) simp
  finally show ?thesis .
qed

section \<open>The invariant of the whole\<close>

text \<open>
  The queues only name existing slots, and system packets carry no data; the same holds for what the
  logic thread has still to do in the current batch.
\<close>

definition system_ok :: "nat \<Rightarrow> PacketInfo \<Rightarrow> bool" where
  "system_ok n pk \<longleftrightarrow> ClientIndex pk < n \<and> pDataPtr pk = NullPtr"

definition queues_ok :: "nat \<Rightarrow> PacketManager \<Rightarrow> bool" where
  "queues_ok n pm \<longleftrightarrow> length (pm_users pm) = n \<and>
     (\<forall>pk \<in> set (mSystemWriteBuffer pm) \<union> set (mSystemReadBuffer pm). system_ok n pk) \<and>
     (\<forall>t \<in> set (mWriteBuffer pm) \<union> set (mReadBuffer pm). clientIndex t < n) \<and>
     (\<forall>t \<in> set (R_mRequestTask (mRedisManager pm)) \<union> set (R_mResponseTask (mRedisManager pm)).
        R_TaskID t \<noteq> RT_INVALID \<longrightarrow> R_UserIndex t < n)"

fun pc_ok :: "nat \<Rightarrow> pc \<Rightarrow> bool" where
  "pc_ok n (Systems pks) \<longleftrightarrow> list_all (system_ok n) pks"
| "pc_ok n (Tasks ts) \<longleftrightarrow> list_all (\<lambda>t. clientIndex t < n) ts"
| "pc_ok n (InTask i ts) \<longleftrightarrow> i < n \<and> list_all (\<lambda>t. clientIndex t < n) ts"
| "pc_ok n (Handling i pk ts) \<longleftrightarrow> i < n \<and> list_all (\<lambda>t. clientIndex t < n) ts"
| "pc_ok n _ \<longleftrightarrow> True"

definition server_inv :: "nat \<Rightarrow> server \<Rightarrow> bool" where
  "server_inv n s \<longleftrightarrow> (case s of (pm, c) \<Rightarrow> pm_inv pm \<and> queues_ok n pm \<and> pc_ok n c)"

lemma queues_ok_handler:
  assumes "queues_ok n pm" and "handler_frame pm pm'"
  shows "queues_ok n pm'"
  using assms unfolding queues_ok_def handler_frame_def by auto

lemma recv_inv:
  assumes "pm_inv pm" and "queues_ok n pm" and "i < n" and "ProcessRecvPacket pm i pid sz p = Inr pm'"
  shows "pm_inv pm' \<and> queues_ok n pm'"
proof -
  have "i < length (pm_users pm)" using assms(2,3) by (simp add: queues_ok_def)
  then have "recv_ok i pid pm pm'" using ensuresD [OF ProcessRecvPacket_ok [OF assms(1)] assms(4)] by blast
  then show ?thesis using queues_ok_handler [OF assms(2)] by (simp add: recv_ok_def)
qed

lemma GetPacket_at_inv:
  assumes "pm_inv pm" and "queues_ok n pm" and "i < n" and "GetPacket_at pm i = Inr (pm', pk)"
  shows "pm_inv pm' \<and> queues_ok n pm' \<and> mUserIDDictionary (mUserManager pm') = mUserIDDictionary (mUserManager pm) \<and>
    (\<exists>u. mUserManager pm' = put_user (mUserManager pm) i u \<and> mUserID u = mUserID (pm_users pm ! i))"
proof -
  have i: "i < length (pm_users pm)" using assms(2,3) by (simp add: queues_ok_def)
  have ui: "user_inv (pm_users pm ! i)" "mIndex (pm_users pm ! i) = int i"
    using pm_inv_user [OF assms(1) i] by simp_all
  obtain u' where u': "User_GetPacket (pm_users pm ! i) = Inr (u', pk)"
    "pm' = pm\<lparr>mUserManager := put_user (mUserManager pm) i u'\<rparr>"
    using assms(4) by (auto simp: GetPacket_at_def UserManager_GetUserByConnIdx_def result_simps pm_users_def)
  have f: "user_inv u'" "\<exists>rb t. u' = (pm_users pm ! i)\<lparr>mPacketDataBuffer := rb, m_tempPacketBuffer := t\<rparr>"
    using GetPacket_frame [OF ui(1) u'(1)] by simp_all
  have "core (put_user (mUserManager pm) i u') (mRoomManager pm)"
    using f ui(2) i by (intro core_put_user [OF pm_inv_core [OF assms(1)]]) (auto simp: pm_users_def)
  then show ?thesis
    using assms(1,2) u'(2) f(2) by (auto simp: pm_inv_def queues_ok_def pm_users_def)
qed

lemma logic_step_inv: "logic_step s t \<Longrightarrow> server_inv n s \<Longrightarrow> server_inv n t"
proof (induction rule: logic_step.induct)
  case (swap pm)
  then show ?case
    by (auto simp: server_inv_def queues_ok_def swap_buffers_def pm_inv_def pm_users_def list_all_iff)
next
  case (response pm t pm1 pm2)
  have pm1: "pm_inv pm1" "queues_ok n pm1" and i: "R_UserIndex t < n"
    using response.prems response.hyps(1,2)
    by (auto simp: server_inv_def take_response_def RedisManager_TakeResponseTask_def queues_ok_def
        pm_inv_def pm_users_def RedisTask_default_def split: list.splits)
  show ?case
    using recv_inv [OF pm1 i] response.hyps(3) by (simp add: handle_response_def server_inv_def)
next
  case (responses_done pm t pm1)
  then show ?case
    by (auto simp: server_inv_def take_response_def RedisManager_TakeResponseTask_def queues_ok_def
        pm_inv_def pm_users_def split: list.splits)
next
  case (system pm pk pm' pks)
  then have "ClientIndex pk < n" by (simp add: server_inv_def system_ok_def)
  then show ?case using system recv_inv [of pm n] by (auto simp: server_inv_def recv_def)
next
  case (handle pm i pk pm' ts)
  then show ?case using recv_inv [of pm n i] by (auto simp: server_inv_def recv_def)
next
  case (packet pm i pm' pk ts)
  then show ?case using GetPacket_at_inv [of pm n i] by (auto simp: server_inv_def)
next
  case (no_packet pm i pm' pk ts)
  then show ?case using GetPacket_at_inv [of pm n i] by (auto simp: server_inv_def)
qed (auto simp: server_inv_def queues_ok_def pm_inv_def pm_users_def list_all_iff)

lemma receive_inv:
  assumes "pm_inv pm" and "i < length (pm_users pm)"
    and "User_SetPacketData (pm_users pm ! i) (length ds) (Some ds) = Inr u"
  shows "pm_inv (pm\<lparr>mUserManager := put_user (mUserManager pm) i u\<rparr>)" and "mUserID u = mUserID (pm_users pm ! i)"
proof -
  have ui: "user_inv (pm_users pm ! i)" "mIndex (pm_users pm ! i) = int i"
    using pm_inv_user [OF assms(1,2)] by simp_all
  obtain rb where u: "u = (pm_users pm ! i)\<lparr>mPacketDataBuffer := rb\<rparr>"
    using SetPacketData_frame [OF assms(3)] by blast
  have "core (put_user (mUserManager pm) i u) (mRoomManager pm)"
    using SetPacketData_bytes(1) [OF ui(1) assms(3)] ui(2) u assms(2)
    by (intro core_put_user [OF pm_inv_core [OF assms(1)]]) (simp_all add: pm_users_def)
  then show "pm_inv (pm\<lparr>mUserManager := put_user (mUserManager pm) i u\<rparr>)"
    using assms(1) by (simp add: pm_inv_def pm_users_def)
  show "mUserID u = mUserID (pm_users pm ! i)" by (simp add: u)
qed

lemma Redis_turn_queues:
  assumes "Redis_turn g pad m = Inr (Continue m')"
  shows "set (R_mRequestTask m') \<subseteq> set (R_mRequestTask m) \<and>
    (\<forall>t \<in> set (R_mResponseTask m'). t \<in> set (R_mResponseTask m) \<or>
       (\<exists>t' \<in> set (R_mRequestTask m). R_TaskID t' \<noteq> RT_INVALID \<and> R_UserIndex t = R_UserIndex t'))"
  using assms
  by (auto simp: Redis_turn_def Redis_take_front_def RedisManager_PushResponse_def
      Redis_login_response_def result_simps split: list.splits if_splits option.splits)

lemma env_step_inv: "env_step g pad pm pm' \<Longrightarrow> pm_inv pm \<Longrightarrow> queues_ok n pm \<Longrightarrow> pm_inv pm' \<and> queues_ok n pm'"
proof (induction rule: env_step.induct)
  case (receive i pm ds u)
  then show ?case using receive_inv(1) by (simp add: queues_ok_def pm_users_def)
next
  case (enqueue pm i pm')
  then show ?case
    by (auto simp: PacketManager_EnqueuePacketData_def UserManager_GetUserByConnIdx_def result_simps
        queues_ok_def pm_inv_def pm_users_def)
next
  case (redis pm red)
  then show ?case
    using Redis_turn_queues [OF redis.hyps] unfolding pm_inv_def queues_ok_def pm_users_def by fastforce
qed (auto simp: queues_ok_def pm_inv_def pm_users_def PacketManager_PushSystemPacket_def system_ok_def)

lemma server_inv_init: "server_init mem n s \<Longrightarrow> server_inv n s"
proof -
  assume "server_init mem n s"
  then have s: "s = (snd (PacketManager_Run (PacketManager_Init mem n)), Waiting)"
    by (simp add: server_init_def)
  let ?pm = "snd (PacketManager_Run (PacketManager_Init mem n))"
  have "mUserManager ?pm = mUserManager (PacketManager_Init mem n)"
    "mRoomManager ?pm = mRoomManager (PacketManager_Init mem n)" "sent ?pm = sent (PacketManager_Init mem n)"
    by (simp_all add: PacketManager_Run_def Let_def split: prod.splits)
  then have "pm_inv ?pm" using pm_inv_Init [of mem n] by (simp add: pm_inv_def pm_users_def)
  moreover have "queues_ok n ?pm"
    by (simp add: queues_ok_def PacketManager_Run_def PacketManager_Init_def RedisManager_Run_def
        PacketManager_CreateComponent_def UserManager_Init_def RedisManager_new_def Let_def pm_users_def
        split: prod.splits)
  ultimately show ?thesis by (simp add: s server_inv_def)
qed

interpretation srv: invariant_system "server_init mem n" "server_step redis_get pad" "server_inv n"
proof unfold_locales
  show "server_init mem n s \<Longrightarrow> server_inv n s" for s by (rule server_inv_init)
  fix s t assume inv: "server_inv n s" and st: "server_step redis_get pad s t"
  from st show "server_inv n t"
  proof (cases rule: server_step.cases)
    case logic
    then show ?thesis using logic_step_inv inv by blast
  next
    case (env pm pm' c)
    then show ?thesis using inv env_step_inv [OF env(3), of n] by (auto simp: server_inv_def)
  qed
qed

section \<open>Unique names\<close>

text \<open>The runs in which no packet of the load-test branch is handled.\<close>

fun no_test_login :: "server \<Rightarrow> bool" where
  "no_test_login (pm, Handling i pk ts) \<longleftrightarrow>
     login_admitted (\<lambda>_. True) pm (ucast (PacketId pk)) (pDataPtr pk)"
| "no_test_login (pm, c) \<longleftrightarrow> True"

definition genuine_step ::
  "(byte list \<Rightarrow> byte list option) \<Rightarrow> (nat \<Rightarrow> byte) \<Rightarrow> server \<Rightarrow> server \<Rightarrow> bool" where
  "genuine_step redis_get pad s t \<longleftrightarrow> server_step redis_get pad s t \<and> no_test_login s"

definition names_server_inv :: "nat \<Rightarrow> server \<Rightarrow> bool" where
  "names_server_inv n s \<longleftrightarrow> server_inv n s \<and> names_inv (mUserManager (fst s))"

lemma names_recv:
  assumes "pm_inv pm" and "names_inv (mUserManager pm)" and "login_admitted (\<lambda>_. True) pm pid p"
    and "ProcessRecvPacket pm i pid sz p = Inr pm'"
  shows "names_inv (mUserManager pm')"
  using ensuresD [OF nm.J_ProcessRecvPacket [OF assms(2,1,3)] assms(4)] .

lemma names_logic_step:
  "logic_step s t \<Longrightarrow> names_server_inv n s \<Longrightarrow> no_test_login s \<Longrightarrow> names_inv (mUserManager (fst t))"
proof (induction rule: logic_step.induct)
  case (system pm pk pm' pks)
  then have "login_admitted (\<lambda>_. True) pm (ucast (PacketId pk)) (pDataPtr pk)"
    by (simp add: names_server_inv_def server_inv_def system_ok_def login_admitted_def deref_def)
  then show ?case
    using names_recv system by (auto simp: names_server_inv_def server_inv_def recv_def)
next
  case (handle pm i pk pm' ts)
  then show ?case using names_recv by (auto simp: names_server_inv_def server_inv_def recv_def)
next
  case (response pm t pm1 pm2)
  have "pm_inv pm1" "names_inv (mUserManager pm1)"
    using response
    by (auto simp: names_server_inv_def server_inv_def take_response_def RedisManager_TakeResponseTask_def
        pm_inv_def pm_users_def split: list.splits)
  moreover have "login_admitted (\<lambda>_. True) pm1 (redis_task_val (R_TaskID t)) p" for p
    by (cases "R_TaskID t") (simp_all add: login_admitted_def)
  ultimately show ?case
    using response(3) names_recv [of pm1 _ "response_ptr t"] unfolding handle_response_def fst_conv by blast
next
  case (packet pm i pm' pk ts)
  then show ?case
    using GetPacket_at_inv [of pm n i pm' pk] nm.J_put_user
    by (auto simp: names_server_inv_def server_inv_def queues_ok_def pm_users_def)
next
  case (no_packet pm i pm' pk ts)
  then show ?case
    using GetPacket_at_inv [of pm n i pm' pk] nm.J_put_user
    by (auto simp: names_server_inv_def server_inv_def queues_ok_def pm_users_def)
qed (auto simp: names_server_inv_def swap_buffers_def take_response_def split: prod.splits)

lemma names_env_step:
  "env_step g pad pm pm' \<Longrightarrow> pm_inv pm \<Longrightarrow> names_inv (mUserManager pm) \<Longrightarrow> names_inv (mUserManager pm')"
proof (induction rule: env_step.induct)
  case (receive i pm ds u)
  then show ?case using receive_inv(2) nm.J_put_user by (simp add: pm_users_def)
qed (auto simp: PacketManager_EnqueuePacketData_def result_simps PacketManager_PushSystemPacket_def)

lemma names_inv_Init: "names_inv (mUserManager (PacketManager_Init mem n))"
  by (simp add: names_inv_def PacketManager_Init_def PacketManager_CreateComponent_def
      UserManager_Init_def User_Init_def User_new_def)

interpretation nms: invariant_system "server_init mem n" "genuine_step redis_get pad" "names_server_inv n"
proof unfold_locales
  fix s assume "server_init mem n s"
  then show "names_server_inv n s"
    using server_inv_init names_inv_Init [of mem n]
    by (auto simp: names_server_inv_def server_init_def PacketManager_Run_def Let_def split: prod.splits)
next
  fix s t assume inv: "names_server_inv n s" and st: "genuine_step redis_get pad s t"
  have step: "server_step redis_get pad s t" "no_test_login s" using st by (simp_all add: genuine_step_def)
  have "server_inv n t" using srv.inv_step [OF _ step(1)] inv by (simp add: names_server_inv_def)
  moreover from step(1) have "names_inv (mUserManager (fst t))"
  proof (cases rule: server_step.cases)
    case logic
    then show ?thesis using names_logic_step inv step(2) by blast
  next
    case (env pm pm' c)
    then show ?thesis using names_env_step inv by (auto simp: names_server_inv_def server_inv_def)
  qed
  ultimately show "names_server_inv n t" by (simp add: names_server_inv_def)
qed

end
