(* ===== verification/ChatServer.thy ===== *)
theory ChatServer
  imports SlotAccounting ServerSteps
begin

text \<open>
  \<open>ChatServer.h\<close> and \<open>main.cpp\<close>: the server joins the network layer and the packet manager. The virtual
  methods turn network events into system packets and received bytes; \<open>SendPacketFunc\<close> hands the
  packets of the handlers to the sessions. The lemmas show that every packet a handler sends can be
  queued on its session, byte for byte, and that every network event finds its slot.
\<close>

section \<open>The class\<close>

record chat_server =
  network :: iocp
  m_pPacketManager :: PacketManager

definition ChatServer_OnConnect :: "PacketManager \<Rightarrow> nat \<Rightarrow> PacketManager" where
  "ChatServer_OnConnect pm i = PacketManager_PushSystemPacket pm
     \<lparr>ClientIndex = i, PacketId = ucast (packet_id_val SYS_USER_CONNECT), DataSize = 0, pDataPtr = NullPtr\<rparr>"

definition ChatServer_OnClose :: "PacketManager \<Rightarrow> nat \<Rightarrow> PacketManager" where
  "ChatServer_OnClose pm i = PacketManager_PushSystemPacket pm
     \<lparr>ClientIndex = i, PacketId = ucast (packet_id_val SYS_USER_DISCONNECT), DataSize = 0, pDataPtr = NullPtr\<rparr>"

definition ChatServer_OnReceive :: "PacketManager \<Rightarrow> nat \<Rightarrow> byte list \<Rightarrow> PacketManager result" where
  "ChatServer_OnReceive pm i data = PacketManager_ReceivePacketData pm i (length data) (Some data)"

fun ChatServer_event :: "PacketManager \<Rightarrow> app_event \<Rightarrow> PacketManager result" where
  "ChatServer_event pm (Ev_Connect i) = Inr (ChatServer_OnConnect pm i)"
| "ChatServer_event pm (Ev_Close i) = Inr (ChatServer_OnClose pm i)"
| "ChatServer_event pm (Ev_Receive i data) = ChatServer_OnReceive pm i data"

fun ChatServer_events :: "PacketManager \<Rightarrow> app_event list \<Rightarrow> PacketManager result" where
  "ChatServer_events pm [] = Inr pm"
| "ChatServer_events pm (e # es) = bindr (ChatServer_event pm e) (\<lambda>pm'. ChatServer_events pm' es)"

text \<open>
  A completion handled by a worker: the virtual calls it makes only touch the packet manager, so they
  run after the network part here.
\<close>

definition ChatServer_completion ::
  "winsock \<Rightarrow> winsock \<Rightarrow> chat_server \<Rightarrow> completion \<Rightarrow> chat_server result" where
  "ChatServer_completion ws ws' ch e =
     bindr (IOCP_entry ws ws' ((network ch)\<lparr>app_events := []\<rparr>) e) (\<lambda>io.
     bindr (ChatServer_events (m_pPacketManager ch) (app_events io)) (\<lambda>pm.
       Inr (ch\<lparr>network := io, m_pPacketManager := pm\<rparr>)))"

text \<open>\<open>SendPacketFunc\<close> on the packets a handler sent; \<open>ty\<close> are the unset type bytes.\<close>

fun ChatServer_deliver :: "(nat \<Rightarrow> winsock) \<Rightarrow> (nat \<Rightarrow> byte) \<Rightarrow> nat \<Rightarrow> iocp \<Rightarrow> send list \<Rightarrow> iocp result" where
  "ChatServer_deliver ws ty k io [] = Inr io"
| "ChatServer_deliver ws ty k io ((i, n, p) # ss) =
     bindr (IOCP_SendMsg (ws k) io i n (packet_bytes (ty k) p)) (\<lambda>(_, io').
       ChatServer_deliver ws ty (k + 1) io' ss)"

definition ChatServer_Run ::
  "user_memory \<Rightarrow> (nat \<Rightarrow> ((nat \<Rightarrow> byte) \<times> (nat \<Rightarrow> byte)) \<times> overlapped) \<Rightarrow> (nat \<Rightarrow> winsock) \<Rightarrow>
     iocp \<Rightarrow> nat \<Rightarrow> chat_server result" where
  "ChatServer_Run umem smem ws io maxClient =
     (let pm = PacketManager_Init umem maxClient; (_, pm1) = PacketManager_Run pm in
      bindr (IOCP_StartServer smem ws io maxClient) (\<lambda>(_, io').
        Inr \<lparr>network = io', m_pPacketManager = pm1\<rparr>))"

text \<open>\<open>End\<close>: the network first, then the logic thread and the databases.\<close>

definition ChatServer_End ::
  "winsock \<Rightarrow> (nat \<Rightarrow> winsock \<times> winsock) \<Rightarrow> gqcs list \<Rightarrow> (byte list \<Rightarrow> byte list option) \<Rightarrow>
     (nat \<Rightarrow> byte) \<Rightarrow> (nat \<Rightarrow> mysql_env) \<Rightarrow> nat \<Rightarrow> MySQLConnection \<Rightarrow> sql_row list \<Rightarrow> chat_server \<Rightarrow>
     (chat_server \<times> MySQLConnection \<times> sql_row list) result option" where
  "ChatServer_End ws wws rest redis_get pad env k conn rows ch =
     bindo (Some (IOCP_DestroyThread ws wws rest ((network ch)\<lparr>app_events := []\<rparr>))) (\<lambda>io.
     bindo (Some (ChatServer_events (m_pPacketManager ch) (app_events io))) (\<lambda>pm.
     bindo (PacketManager_End redis_get pad env k conn rows pm) (\<lambda>(pm', conn', rows').
       Some (Inr (ch\<lparr>network := io, m_pPacketManager := pm'\<rparr>, conn', rows')))))"

section \<open>main.cpp\<close>

definition SERVER_PORT :: nat where "SERVER_PORT = 11021"
definition MAX_CLIENT :: nat where "MAX_CLIENT = 2000"
definition MAX_IO_WORKER_THREAD :: nat where "MAX_IO_WORKER_THREAD = 8"

text \<open>The answers of the start-up calls.\<close>

record startup =
  st_wsastartup :: bool
  st_socket :: SOCKET
  st_bind :: bool
  st_listen :: bool
  st_port :: handle
  st_listen_port :: handle

text \<open>\<open>main\<close> up to its input loop: the results of \<open>Init\<close> and \<open>BindandListen\<close> are not looked at.\<close>

definition main_start ::
  "startup \<Rightarrow> (nat \<Rightarrow> SendOverlappedEx) \<Rightarrow> user_memory \<Rightarrow>
     (nat \<Rightarrow> ((nat \<Rightarrow> byte) \<times> (nat \<Rightarrow> byte)) \<times> overlapped) \<Rightarrow> (nat \<Rightarrow> winsock) \<Rightarrow> chat_server result" where
  "main_start st mem umem smem ws =
     (let (_, io1) = IOCP_Init (IOCompletionPort_new mem) (st_wsastartup st) (st_socket st) MAX_IO_WORKER_THREAD;
          (_, io2) = IOCP_BindandListen io1 (st_bind st) (st_listen st) (st_port st) (st_listen_port st)
      in ChatServer_Run umem smem ws io2 MAX_CLIENT)"

fun main_loop :: "string list \<Rightarrow> bool" where
  "main_loop [] = False"
| "main_loop (input # rest) = (if input = ''quit'' then True else main_loop rest)"

datatype ctrl_type = CTRL_C_EVENT | CTRL_CLOSE_EVENT | CTRL_SHUTDOWN_EVENT | CTRL_OTHER

text \<open>The cases fall through to the last one: does the handler end the server, and what it returns.\<close>

fun ConsoleCtrlHandler :: "bool \<Rightarrow> ctrl_type \<Rightarrow> bool \<times> bool" where
  "ConsoleCtrlHandler has_server CTRL_C_EVENT = (has_server, True)"
| "ConsoleCtrlHandler has_server CTRL_CLOSE_EVENT = (has_server, True)"
| "ConsoleCtrlHandler has_server CTRL_SHUTDOWN_EVENT = (has_server, True)"
| "ConsoleCtrlHandler has_server CTRL_OTHER = (False, False)"

section \<open>Sends reach their sessions\<close>

definition sends_ready :: "iocp \<Rightarrow> bool" where
  "sends_ready io \<longleftrightarrow> net_ok (mNet io) \<and>
     (\<forall>i < length (mClientInfos io). queue_ok (mNet io) (mClientInfos io ! i)) \<and>
     (\<forall>i < length (mClientInfos io). \<forall>j < length (mClientInfos io). i \<noteq> j \<longrightarrow>
        set (mSendDataqueue (mClientInfos io ! i)) \<inter> set (mSendDataqueue (mClientInfos io ! j)) = {})"

text \<open>The messages waiting on a slot, as bytes.\<close>

definition waiting :: "iocp \<Rightarrow> nat \<Rightarrow> byte list list" where
  "waiting io i = map (payload (mNet io)) (mSendDataqueue (mClientInfos io ! i))"

lemma packet_fits: "packet_sizeof p \<le> SESSION_SOCKBUF"
  using packet_sizeof_small [of p] by (simp add: SESSION_SOCKBUF_def)

lemma SendMsg_delivers:
  assumes "sends_ready io" and "i < length (mClientInfos io)" and "packet_ok p"
  shows "\<exists>ok io'. IOCP_SendMsg ws io i (packet_sizeof p) (packet_bytes ty p) = Inr (ok, io') \<and> sends_ready io' \<and>
    length (mClientInfos io') = length (mClientInfos io) \<and> same_slots io io' \<and>
    (ok \<longleftrightarrow> mFreeList (send_pool (mNet io)) \<noteq> []) \<and>
    waiting io' i = waiting io i @ (if ok then [packet_bytes ty p] else [])"
proof -
  let ?s = "mClientInfos io ! i" and ?net = "mNet io"
  have net: "net_ok ?net" "queue_ok ?net ?s" using assms(1,2) by (simp_all add: sends_ready_def)
  show ?thesis
  proof (cases "mFreeList (send_pool ?net) = []")
    case True
    then have "IOCP_SendMsg ws io i (packet_sizeof p) (packet_bytes ty p) = Inr (False, io)"
      using assms(2) SendMsg_no_block [OF True] by (simp add: IOCP_SendMsg_def IOCP_GetClientInfo_def put_session_def)
    then show ?thesis using assms(1) True by auto
  next
    case False
    obtain a net' s' where m: "ClientSession_SendMsg ws ?net ?s (packet_sizeof p) (packet_bytes ty p) = Inr (True, net', s')"
      "net_ok net'" "queue_ok net' s'" "s' = ?s\<lparr>mSendDataqueue := mSendDataqueue ?s @ [a]\<rparr>"
      "op.in_use (send_pool net') = insert a (op.in_use (send_pool ?net))" "a \<notin> op.in_use (send_pool ?net)"
      "map (payload net') (mSendDataqueue s') = map (payload ?net) (mSendDataqueue ?s) @ [packet_bytes ty p]"
      using SendMsg_queued [OF net False length_packet_bytes [OF assms(3)] packet_fits, of ws ty] by blast
    let ?io' = "put_session io i net' s'"
    have eq: "IOCP_SendMsg ws io i (packet_sizeof p) (packet_bytes ty p) = Inr (True, ?io')"
      using assms(2) m(1) by (simp add: IOCP_SendMsg_def IOCP_GetClientInfo_def)
    have "sends_ready ?io'"
      using assms(1,2) m(2-6) by (auto simp: sends_ready_def queue_ok_def)
    moreover have "waiting ?io' i = waiting io i @ [packet_bytes ty p]"
      using m(7) assms(2) by (simp add: waiting_def)
    moreover have "same_slots io ?io'" using IOCP_SendMsg_slots [OF eq] .
    ultimately show ?thesis using eq False by (intro exI [of _ True] exI [of _ ?io']) simp
  qed
qed

lemma deliver_total:
  assumes "sends_ready io" and "list_all (send_ok (length (mClientInfos io))) ss"
  shows "\<exists>io'. ChatServer_deliver ws ty k io ss = Inr io' \<and> sends_ready io' \<and> same_slots io io'"
  using assms
proof (induction ss arbitrary: io k)
  case Nil
  then show ?case by simp
next
  case (Cons x ss)
  obtain i n p where x: "x = (i, n, p)" by (metis prod.exhaust)
  have ok: "i < length (mClientInfos io)" "packet_ok p" "n = packet_sizeof p"
    using Cons.prems(2) x by (simp_all add: send_ok_def)
  obtain b io1 where s: "IOCP_SendMsg (ws k) io i n (packet_bytes (ty k) p) = Inr (b, io1)" "sends_ready io1"
    "length (mClientInfos io1) = length (mClientInfos io)" "same_slots io io1"
    using SendMsg_delivers [OF Cons.prems(1) ok(1,2), of "ws k" "ty k"] ok(3) by blast
  obtain io' where r: "ChatServer_deliver ws ty (k + 1) io1 ss = Inr io'" "sends_ready io'" "same_slots io1 io'"
    using Cons.IH [OF s(2), of "k + 1"] Cons.prems(2) s(3) by auto
  show ?case using x s(1,4) r by (simp add: same_slots_def)
qed

section \<open>Network events find their slots\<close>

fun event_slot :: "app_event \<Rightarrow> nat" where
  "event_slot (Ev_Connect i) = i" | "event_slot (Ev_Close i) = i" | "event_slot (Ev_Receive i _) = i"

lemma event_ok:
  assumes "pm_inv pm" and "queues_ok n pm" and "event_slot e < n"
  shows "\<exists>pm'. ChatServer_event pm e = Inr pm' \<and> pm_inv pm' \<and> queues_ok n pm'"
proof (cases e)
  case (Ev_Receive i data)
  have i: "i < length (pm_users pm)" using assms(2,3) Ev_Receive by (simp add: queues_ok_def)
  have ui: "user_inv (pm_users pm ! i)" using pm_inv_user [OF assms(1) i] by simp
  obtain u where u: "User_SetPacketData (pm_users pm ! i) (length data) (Some data) = Inr u"
    using SetPacketData_refines [OF ui refl] by blast
  let ?pm1 = "pm\<lparr>mUserManager := put_user (mUserManager pm) i u\<rparr>"
  have inv1: "pm_inv ?pm1" using receive_inv(1) [OF assms(1) i u] .
  have q1: "queues_ok n ?pm1" using assms(2) by (simp add: queues_ok_def pm_users_def)
  obtain pm' where e: "PacketManager_EnqueuePacketData ?pm1 i = Inr pm'"
    using i by (simp add: PacketManager_EnqueuePacketData_def UserManager_GetUserByConnIdx_def pm_users_def)
  have "pm_inv pm' \<and> queues_ok n pm'"
    using env_step_inv [OF env_step.enqueue [OF e] inv1 q1] .
  moreover have "ChatServer_event pm e = Inr pm'"
    using Ev_Receive u e i
    by (simp add: ChatServer_OnReceive_def PacketManager_ReceivePacketData_def
        UserManager_GetUserByConnIdx_def pm_users_def)
  ultimately show ?thesis by blast
qed (use assms in \<open>auto simp: ChatServer_OnConnect_def ChatServer_OnClose_def PacketManager_PushSystemPacket_def
      pm_inv_def queues_ok_def pm_users_def system_ok_def\<close>)

lemma events_ok:
  assumes "pm_inv pm" and "queues_ok n pm" and "\<forall>e \<in> set es. event_slot e < n"
  shows "\<exists>pm'. ChatServer_events pm es = Inr pm' \<and> pm_inv pm' \<and> queues_ok n pm'"
  using assms
proof (induction es arbitrary: pm)
  case (Cons e es)
  obtain pm1 where e: "ChatServer_event pm e = Inr pm1" "pm_inv pm1" "queues_ok n pm1"
    using event_ok [OF Cons.prems(1,2), of e] Cons.prems(3) by auto
  then show ?case using Cons.IH [OF e(2,3)] Cons.prems(3) by simp
qed simp

end
