(* ===== verification/NetworkSteps.thy ===== *)
theory NetworkSteps
  imports SlotAccounting
begin

text \<open>
  The network layer as a step relation: the completions the workers handle, the sends and closes other
  threads ask for, and the rounds of the timeout thread, in any order. The accounting of the slots is an
  invariant of it: no slot is used twice, whatever calls fail, and none is lost as long as they succeed; the
  section on lost slots shows what a failing re-arm of the receive does.
\<close>

section \<open>Steps\<close>

text \<open>
  \<open>good\<close>: the calls made while a slot changes hands, and the re-arming of a receive, succeed. Otherwise any of them may
  fail. \<open>CreateIoCompletionPort\<close> is documented to return \<open>NULL\<close> on failure, never \<open>INVALID_HANDLE_VALUE\<close>.
\<close>

inductive net_step :: "bool \<Rightarrow> iocp \<Rightarrow> iocp \<Rightarrow> bool" for good where
  accept: "i \<in> set (posted io) \<Longrightarrow> ws_bind ws \<noteq> INVALID_HANDLE_VALUE \<Longrightarrow>
    (good \<Longrightarrow> calls_succeed ws \<and> calls_succeed ws') \<Longrightarrow>
    IOCP_accept ws ws' (accepted io i) i = Inr io' \<Longrightarrow> net_step good io io'"
| receive: "(good \<Longrightarrow> ws_recv ws) \<Longrightarrow> IOCP_recv ws io i p n data = Inr io' \<Longrightarrow> net_step good io io'"
| send_done: "IOCP_send_done ws io i p n = Inr io' \<Longrightarrow> net_step good io io'"
| close: "IOCP_CloseSocket ws io i f = Inr io' \<Longrightarrow> net_step good io io'"
| send: "IOCP_SendMsg ws io i n msg = Inr (ok, io') \<Longrightarrow> net_step good io io'"
| timeouts: "IOCP_TimeoutCheck ws now io is = Inr io' \<Longrightarrow> net_step good io io'"

text \<open>The state after \<open>StartServer\<close> on a fresh object.\<close>

definition net_init :: "bool \<Rightarrow> nat \<Rightarrow> iocp \<Rightarrow> bool" where
  "net_init good n io \<longleftrightarrow> n < UINT32_MAX \<and> (\<exists>mem ws blk h ok. (good \<longrightarrow> (\<forall>m. calls_succeed (ws m))) \<and>
     IOCP_StartServer mem ws ((IOCompletionPort_new blk)\<lparr>mIOCPHandle := h\<rparr>) n = Inr (ok, io))"

definition net_inv :: "bool \<Rightarrow> nat \<Rightarrow> iocp \<Rightarrow> bool" where
  "net_inv good n io \<longleftrightarrow> slots_ok io \<and> (good \<longrightarrow> slots_complete io) \<and> length (mClientInfos io) = n"

lemma same_slots_length: "same_slots io io' \<Longrightarrow> length (mClientInfos io') = length (mClientInfos io)"
  by (auto simp: same_slots_def dest: map_eq_imp_length_eq)

lemma net_inv_same: "net_inv good n io \<Longrightarrow> same_slots io io' \<Longrightarrow> net_inv good n io'"
  using same_slots_ok same_slots_length by (simp add: net_inv_def)

lemma slots_flags [simp]:
  "slots_ok (io\<lparr>mIsTimeoutRun := b\<rparr>) = slots_ok io" "slots_complete (io\<lparr>mIsTimeoutRun := b\<rparr>) = slots_complete io"
  by (simp_all add: slots_ok_def slots_complete_def connected_slots_def)

lemma slots_worker [simp]:
  "slots_ok (io\<lparr>mIsWorkerRun := b, mIOWorkerThreads := k\<rparr>) = slots_ok io"
  "slots_complete (io\<lparr>mIsWorkerRun := b, mIOWorkerThreads := k\<rparr>) = slots_complete io"
  by (simp_all add: slots_ok_def slots_complete_def connected_slots_def)

lemma net_inv_init:
  assumes "net_init good n io"
  shows "net_inv good n io"
proof -
  obtain mem ws blk h ok where n: "n < UINT32_MAX" and g: "good \<Longrightarrow> \<forall>m. calls_succeed (ws m)"
    and s: "IOCP_StartServer mem ws ((IOCompletionPort_new blk)\<lparr>mIOCPHandle := h\<rparr>) n = Inr (ok, io)"
    using assms by (auto simp: net_init_def)
  let ?io0 = "(IOCompletionPort_new blk)\<lparr>mIOCPHandle := h\<rparr>"
  let ?io1 = "IOCP_CreateClient mem ?io0 n"
  let ?io2 = "?io1\<lparr>mIsWorkerRun := True, mIOWorkerThreads := mIOWorkerThreads ?io1 + MAX_WORKERTHREAD\<rparr>"
  obtain io3 where l: "IOCP_post_loop ws 0 MAX_PENDING_ACCEPT ?io2 = Inr io3" "io = io3\<lparr>mIsTimeoutRun := True\<rparr>"
    using s by (auto simp: IOCP_StartServer_def IOCP_CreateWorkerThread_def result_simps)
  have c: "slots_ok ?io1" "slots_complete ?io1"
    using n by (intro CreateClient_slots, simp_all add: IOCompletionPort_new_def)+
  have "length (mClientInfos ?io2) = n"
    by (simp add: IOCP_CreateClient_def IOCompletionPort_new_def)
  then show ?thesis
    using post_loop_slots [OF _ l(1)] c l(2) g by (simp add: net_inv_def)
qed

lemma net_inv_step:
  assumes "net_inv good n io" and "net_step good io io'"
  shows "net_inv good n io'"
  using assms(2)
proof cases
  case (accept i ws ws')
  then show ?thesis using accept_slots [of io i ws ws' io'] assms(1) by (auto simp: net_inv_def)
next
  case (receive ws i p n data)
  have ok: "slots_ok io'" "length (mClientInfos io') = length (mClientInfos io)"
    using recv_slots_ok [OF _ receive(2)] assms(1) by (simp_all add: net_inv_def)
  moreover have "slots_complete io'" if good
    using recv_slots [OF receive(1) [OF that] receive(2)] that assms(1) same_slots_ok(2) by (simp add: net_inv_def)
  ultimately show ?thesis using assms(1) by (simp add: net_inv_def)
next
  case (send_done ws i p n)
  then show ?thesis using send_done_slots assms(1) net_inv_same by blast
next
  case (close ws i f)
  then show ?thesis using CloseSocket_slots [of io ws i f io'] assms(1) by (auto simp: net_inv_def)
next
  case (send ws i n msg ok)
  then show ?thesis using IOCP_SendMsg_slots assms(1) net_inv_same by blast
next
  case (timeouts ws now "is")
  then show ?thesis using TimeoutCheck_slots assms(1) net_inv_same by blast
qed

interpretation nets: invariant_system "net_init good n" "net_step good" "net_inv good n"
  by unfold_locales (auto intro: net_inv_init net_inv_step)

text \<open>The accounting in one fact; without a failing call the bounds on the counter meet.\<close>

lemma net_inv_slots:
  assumes "net_inv good n io"
  shows "distinct (mFreeSessionList io @ posted io) \<and> set (mFreeSessionList io @ posted io) \<inter> connected_slots io = {} \<and>
    int (card (connected_slots io)) \<le> mClientCnt io \<and>
    mClientCnt io \<le> int n - int (length (mFreeSessionList io) + length (posted io)) \<and>
    (good \<longrightarrow> mClientCnt io = int (card (connected_slots io)) \<and>
      set (mFreeSessionList io) \<union> set (posted io) \<union> connected_slots io = {0..<n})"
proof -
  have ok: "slots_ok io" and n: "length (mClientInfos io) = n" and g: "good \<longrightarrow> slots_complete io"
    using assms by (simp_all add: net_inv_def)
  have "good \<longrightarrow> mClientCnt io = int (card (connected_slots io))" using counter_exact [OF ok] g by simp
  moreover have "good \<longrightarrow> set (mFreeSessionList io) \<union> set (posted io) \<union> connected_slots io = {0..<n}"
    using g n by (simp add: slots_complete_def)
  ultimately show ?thesis using ok n unfolding slots_ok_def by linarith
qed

section \<open>A slot that is lost\<close>

text \<open>
  When \<open>WSARecv\<close> fails, \<open>BindRecv\<close> closes the session itself; the caller ignores the result, and a
  later \<open>CloseSocket\<close> returns at once because the session is not connected any more. The index is then
  neither free nor posted nor connected, and the counter of clients still counts it.
\<close>

lemma failed_receive_loses_slot:
  assumes "slots_ok io" and "i < length (mClientInfos io)" and "mIsConnected (mClientInfos io ! i)"
    and "ovl_generation (m_stRecvOverlappedEx (mClientInfos io ! i)) = S_mGeneration (mClientInfos io ! i)"
    and "\<not> ws_recv ws" and "IOCP_recv ws io i (OvlRecv i) n data = Inr io'"
  shows "i \<notin> connected_slots io'" and "i \<notin> set (mFreeSessionList io' @ posted io')"
    and "mClientCnt io' - int (card (connected_slots io')) = mClientCnt io - int (card (connected_slots io)) + 1"
    and "IOCP_CloseSocket ws' io' i f = Inr io'"
proof -
  obtain net' s2 evs where r: "io' = (put_session io i net' s2)\<lparr>app_events := evs\<rparr>" "\<not> mIsConnected s2"
    using assms(2,4-6)
    by (auto simp: IOCP_recv_def ovl_gen_def IOCP_GetClientInfo_def ClientSession_GetGeneration_def result_simps
        Let_def ClientSession_BindRecv_def ClientSession_UpdateActivity_def ClientSession_Closed_def)
  have c: "connected_slots io' = connected_slots io - {i}"
    using connected_close [OF assms(2) r(2), of net'] r(1) by (simp add: connected_slots_def)
  have mem: "i \<in> connected_slots io" using assms(2,3) by (simp add: connected_slots_def)
  show "i \<notin> connected_slots io'" using c by simp
  show "i \<notin> set (mFreeSessionList io' @ posted io')"
    using assms(1) mem r(1) by (auto simp: slots_ok_def)
  have "card (connected_slots io) = Suc (card (connected_slots io'))"
    unfolding c using mem by (metis card_Suc_Diff1 finite_connected)
  then show "mClientCnt io' - int (card (connected_slots io')) = mClientCnt io - int (card (connected_slots io)) + 1"
    using r(1) by simp
  have "i < length (mClientInfos io')" "\<not> mIsConnected (mClientInfos io' ! i)"
    using r assms(2) by simp_all
  then show "IOCP_CloseSocket ws' io' i f = Inr io'" using CloseSocket_eq [of i io' ws' f] by simp
qed

section \<open>Posting with an empty free list\<close>

lemma post_next_empty [simp]: "mFreeSessionList io = [] \<Longrightarrow> IOCP_post_next ws io = Inr io"
  by (simp add: IOCP_post_next_def IOCP_PopFreeSessionIndex_def)

lemma post_loop_empty [simp]: "mFreeSessionList io = [] \<Longrightarrow> IOCP_post_loop ws k m io = Inr io"
  by (induction m arbitrary: k) simp_all

end
