(* ===== verification/WholeServer.thy ===== *)
theory WholeServer
  imports ChatServer NetworkSteps
begin

text \<open>
  The whole server: the network layer and the packet manager as one step relation. A step of the network
  layer calls the virtual methods, which push system packets and received bytes into the packet manager; a
  step of the logic thread hands the packets it sends to the sessions; the database workers take their
  turns. The invariants of both halves hold of every reachable state, and neither half can make the
  other fault.
\<close>

section \<open>Steps\<close>

type_synonym whole = "iocp \<times> PacketManager \<times> pc"

text \<open>The packets a step of the logic thread has handed to \<open>SendPacketFunc\<close>.\<close>

definition new_sends :: "PacketManager \<Rightarrow> PacketManager \<Rightarrow> send list" where
  "new_sends pm pm' = drop (length (sent pm)) (sent pm')"

inductive whole_step ::
  "bool \<Rightarrow> (byte list \<Rightarrow> byte list option) \<Rightarrow> (nat \<Rightarrow> byte) \<Rightarrow> whole \<Rightarrow> whole \<Rightarrow> bool"
  for good redis_get pad where
  whole_net: "net_step good (io\<lparr>app_events := []\<rparr>) io' \<Longrightarrow> ChatServer_events pm (app_events io') = Inr pm' \<Longrightarrow>
    whole_step good redis_get pad (io, pm, c) (io', pm', c)"
| whole_logic: "logic_step (pm, c) (pm', c') \<Longrightarrow> ChatServer_deliver ws ty 0 io (new_sends pm pm') = Inr io' \<Longrightarrow>
    whole_step good redis_get pad (io, pm, c) (io', pm', c')"
| whole_redis: "Redis_turn redis_get pad (mRedisManager pm) = Inr (Continue red) \<Longrightarrow>
    whole_step good redis_get pad (io, pm, c) (io, pm\<lparr>mRedisManager := red\<rparr>, c)"
| whole_mysql: "MySQL_take_front (mMySQLManager pm) = Some (t, my) \<Longrightarrow>
    whole_step good redis_get pad (io, pm, c) (io, pm\<lparr>mMySQLManager := my\<rparr>, c)"
| whole_tick: "whole_step good redis_get pad (io, pm, c) (io, pm\<lparr>clock := now\<rparr>, c)"

text \<open>Each send block has its array of \<open>MAX_SOCKBUF\<close> bytes, free, in use or stale.\<close>

definition sized :: "net \<Rightarrow> bool" where
  "sized net \<longleftrightarrow> (\<forall>a. length (snd_buffer (blocks net a)) = SESSION_SOCKBUF)"

definition whole_init :: "bool \<Rightarrow> user_memory \<Rightarrow> nat \<Rightarrow> whole \<Rightarrow> bool" where
  "whole_init good mem n s \<longleftrightarrow> (case s of (io, pm, c) \<Rightarrow>
     net_init good n io \<and> sized (mNet io) \<and> server_init mem n (pm, c))"

definition whole_inv :: "bool \<Rightarrow> nat \<Rightarrow> whole \<Rightarrow> bool" where
  "whole_inv good n s \<longleftrightarrow> (case s of (io, pm, c) \<Rightarrow>
     net_inv good n io \<and> sized (mNet io) \<and> server_inv n (pm, c))"

section \<open>Events name their slots\<close>

definition events_grow :: "nat \<Rightarrow> iocp \<Rightarrow> iocp \<Rightarrow> bool" where
  "events_grow n io io' \<longleftrightarrow> (\<exists>es. app_events io' = app_events io @ es \<and> (\<forall>e \<in> set es. event_slot e < n))"

lemma events_grow_same [simp]: "app_events io' = app_events io \<Longrightarrow> events_grow n io io'"
  by (simp add: events_grow_def)

lemma events_grow_trans: "events_grow n io io1 \<Longrightarrow> events_grow n io1 io2 \<Longrightarrow> events_grow n io io2"
  by (auto simp: events_grow_def)

lemma events_grow_one: "app_events io' = app_events io @ [e] \<Longrightarrow> event_slot e < n \<Longrightarrow> events_grow n io io'"
  by (simp add: events_grow_def)

lemma post_next_events: "IOCP_post_next ws io = Inr io' \<Longrightarrow> app_events io' = app_events io"
  by (auto simp: IOCP_post_next_def IOCP_PopFreeSessionIndex_def IOCP_GetClientInfo_def result_simps
      split: if_splits prod.splits)

lemma CloseSocket_events:
  assumes "slots_ok io" and "IOCP_CloseSocket ws io i f = Inr io'"
  shows "events_grow (length (mClientInfos io)) io io'"
proof -
  have i: "i < length (mClientInfos io)"
    using assms(2) by (auto simp: IOCP_CloseSocket_def IOCP_GetClientInfo_def result_simps)
  then have "S_mIndex (mClientInfos io ! i) = i" using assms(1) by (simp add: slots_ok_def)
  then show ?thesis
    using assms(2) CloseSocket_eq [OF i, of ws f] i by (auto intro: events_grow_one split: if_splits)
qed

lemma send_done_events: "IOCP_send_done ws io i p n = Inr io' \<Longrightarrow> app_events io' = app_events io"
  by (auto simp: IOCP_send_done_def result_simps split: if_splits)

lemma IOCP_SendMsg_events: "IOCP_SendMsg ws io i n msg = Inr (ok, io') \<Longrightarrow> app_events io' = app_events io"
  by (auto simp: IOCP_SendMsg_def result_simps)

lemma TimeoutCheck_session_events:
  "IOCP_TimeoutCheck_session ws now io i = Inr io' \<Longrightarrow> app_events io' = app_events io"
  by (auto simp: IOCP_TimeoutCheck_session_def result_simps Let_def split: if_splits)

lemma TimeoutCheck_events: "IOCP_TimeoutCheck ws now io is = Inr io' \<Longrightarrow> app_events io' = app_events io"
proof (induction "is" arbitrary: io)
  case (Cons i "is")
  then show ?case using TimeoutCheck_session_events by (fastforce simp: result_simps)
qed simp

lemma recv_events:
  assumes "slots_ok io" and "IOCP_recv ws io i p n data = Inr io'"
  shows "events_grow (length (mClientInfos io)) io io'"
proof -
  have i: "i < length (mClientInfos io)"
    using assms(2) by (auto simp: IOCP_recv_def IOCP_GetClientInfo_def result_simps)
  then have "S_mIndex (mClientInfos io ! i) = i" using assms(1) by (simp add: slots_ok_def)
  then show ?thesis
    using assms(2) i
    by (auto simp: IOCP_recv_def IOCP_GetClientInfo_def result_simps Let_def ClientSession_UpdateActivity_def
        ClientSession_BindRecv_def ClientSession_Closed_def split: if_splits intro: events_grow_one)
qed

lemma AcceptCompletion_index:
  "ClientSession_AcceptCompletion ws net s = (ok, net', s') \<Longrightarrow> S_mIndex s' = S_mIndex s"
  by (auto simp: ClientSession_AcceptCompletion_def ClientSession_OnConnect_def Let_def
      ClientSession_BindRecv_def ClientSession_UpdateActivity_def ClientSession_Closed_def split: if_splits)

lemma accept_events:
  assumes "slots_ok io" and "i \<in> set (posted io)" and "ws_bind ws \<noteq> INVALID_HANDLE_VALUE"
    and "IOCP_accept ws ws' (accepted io i) i = Inr io'"
  shows "events_grow (length (mClientInfos io)) io io'"
proof -
  have i: "i < length (mClientInfos io)" "S_mIndex (mClientInfos io ! i) = i" "\<not> mIsConnected (mClientInfos io ! i)"
    using waiting_slot [OF assms(1), of i] assms(2) by auto
  obtain ok net' s' where a: "ClientSession_AcceptCompletion ws (mNet io) (mClientInfos io ! i) = (ok, net', s')"
    by (metis prod.exhaust)
  have s': "S_mIndex s' = i" "mIsConnected s' = ok"
    using AcceptCompletion_session [OF a assms(3) i(3)] i(2) by simp_all
  let ?io1 = "put_session (accepted io i) i net' s'"
  show ?thesis
  proof (cases ok)
    case True
    then show ?thesis
      using assms(4) a i s' post_next_events
      by (fastforce simp: IOCP_accept_def IOCP_GetClientInfo_def accepted_def Let_def intro: events_grow_one)
  next
    case False
    then have "IOCP_CloseSocket ws ?io1 i True = Inr ?io1"
      using CloseSocket_eq [of i ?io1 ws True] i s' by (simp add: accepted_def)
    then have "IOCP_post_next ws' ?io1 = Inr io'"
      using assms(4) a i False by (simp add: IOCP_accept_def IOCP_GetClientInfo_def accepted_def)
    then show ?thesis using post_next_events [of ws' ?io1 io'] by (simp add: accepted_def)
  qed
qed

lemma net_step_events:
  assumes "net_inv good n io" and "net_step good io io'"
  shows "events_grow n io io'"
proof -
  have ok: "slots_ok io" "length (mClientInfos io) = n" using assms(1) by (simp_all add: net_inv_def)
  show ?thesis
    using assms(2)
  proof cases
    case (accept i ws ws')
    then show ?thesis using accept_events [OF ok(1)] ok(2) by blast
  next
    case (receive ws i p n data)
    then show ?thesis using recv_events [OF ok(1)] ok(2) by blast
  next
    case (send_done ws i p n)
    then show ?thesis using send_done_events by simp
  next
    case (close ws i f)
    then show ?thesis using CloseSocket_events [OF ok(1)] ok(2) by blast
  next
    case (send ws i n msg ok)
    then show ?thesis using IOCP_SendMsg_events by simp
  next
    case (timeouts ws now "is")
    then show ?thesis using TimeoutCheck_events by simp
  qed
qed

section \<open>Blocks keep their size\<close>

lemma SendMsg_sized:
  "sized net \<Longrightarrow> ClientSession_SendMsg ws net s n msg = Inr (ok, net', s') \<Longrightarrow> sized net'"
  by (auto simp: ClientSession_SendMsg_def ClientSession_SendIO_def sized_def result_simps Let_def mem_write_def
      split: prod.splits option.splits if_splits list.splits)

lemma SendMsg_total:
  assumes "sized net" and "length msg = n" and "n \<le> SESSION_SOCKBUF"
  shows "\<exists>ok net' s'. ClientSession_SendMsg ws net s n msg = Inr (ok, net', s')"
  using assms
  by (cases "ObjectPool_Alloc (send_pool net)")
    (auto simp: ClientSession_SendMsg_def ClientSession_SendIO_def sized_def Let_def mem_write_def
      split: option.splits list.splits)

lemma SendComplete_sized:
  "sized net \<Longrightarrow> ClientSession_SendComplete ws net s n = Inr (net', s') \<Longrightarrow> sized net'"
  by (auto simp: ClientSession_SendComplete_def ClientSession_SendIO_def sized_def result_simps Let_def
      split: list.splits if_splits)

lemma sized_log [simp]: "sized (log_call net c) = sized net"
  by (simp add: sized_def)

lemma CloseSocket_sized: "sized (mNet io) \<Longrightarrow> IOCP_CloseSocket ws io i f = Inr io' \<Longrightarrow> sized (mNet io')"
  by (auto simp: IOCP_CloseSocket_def result_simps Let_def ClientSession_Closed_def IOCP_PushFreeSessionIndex_def
      split: if_splits)

lemma post_next_sized: "sized (mNet io) \<Longrightarrow> IOCP_post_next ws io = Inr io' \<Longrightarrow> sized (mNet io')"
  by (auto simp: IOCP_post_next_def IOCP_PopFreeSessionIndex_def result_simps Let_def
      ClientSession_PostImmediateAccept_def split: if_splits)

lemma TimeoutCheck_session_sized:
  "sized (mNet io) \<Longrightarrow> IOCP_TimeoutCheck_session ws now io i = Inr io' \<Longrightarrow> sized (mNet io')"
  by (auto simp: IOCP_TimeoutCheck_session_def result_simps Let_def ClientSession_DisconnectAsync_def
      dest: SendMsg_sized split: if_splits)

lemma TimeoutCheck_sized: "sized (mNet io) \<Longrightarrow> IOCP_TimeoutCheck ws now io is = Inr io' \<Longrightarrow> sized (mNet io')"
proof (induction "is" arbitrary: io)
  case (Cons i "is")
  then show ?case using TimeoutCheck_session_sized by (fastforce simp: result_simps)
qed simp

lemma sized_cong: "blocks net' = blocks net \<Longrightarrow> sized net' = sized net"
  by (simp add: sized_def)

lemma AcceptCompletion_blocks:
  "ClientSession_AcceptCompletion ws net s = (ok, net', s') \<Longrightarrow> blocks net' = blocks net"
  by (auto simp: ClientSession_AcceptCompletion_def ClientSession_OnConnect_def Let_def
      ClientSession_BindRecv_def ClientSession_Closed_def split: if_splits)

lemma BindRecv_blocks: "ClientSession_BindRecv ws net s = (ok, net', s') \<Longrightarrow> blocks net' = blocks net"
  by (auto simp: ClientSession_BindRecv_def ClientSession_Closed_def Let_def split: if_splits)

lemma accept_sized:
  assumes "sized (mNet io)" and "IOCP_accept ws ws' io i = Inr io'"
  shows "sized (mNet io')"
proof -
  obtain ok net' s' where a: "ClientSession_AcceptCompletion ws (mNet io) (mClientInfos io ! i) = (ok, net', s')"
    by (metis prod.exhaust)
  have i: "i < length (mClientInfos io)"
    using assms(2) by (auto simp: IOCP_accept_def IOCP_GetClientInfo_def result_simps)
  have n: "sized net'" using sized_cong [OF AcceptCompletion_blocks [OF a]] assms(1) by simp
  obtain io1 where "sized (mNet io1)" "IOCP_post_next ws' io1 = Inr io'"
  proof (cases ok)
    case True
    let ?io1 = "(put_session io i net' s')\<lparr>mClientCnt := mClientCnt io + 1,
        app_events := app_events io @ [Ev_Connect (S_mIndex s')]\<rparr>"
    have "IOCP_post_next ws' ?io1 = Inr io'"
      using True assms(2) a i by (simp add: IOCP_accept_def IOCP_GetClientInfo_def Let_def)
    then show ?thesis using that [of ?io1] n by simp
  next
    case False
    then show ?thesis
      using assms(2) a i n that CloseSocket_sized [of "put_session io i net' s'" ws i True]
      by (auto simp: IOCP_accept_def IOCP_GetClientInfo_def result_simps)
  qed
  then show ?thesis using post_next_sized by blast
qed

lemma recv_sized: "sized (mNet io) \<Longrightarrow> IOCP_recv ws io i p n data = Inr io' \<Longrightarrow> sized (mNet io')"
  by (auto simp: IOCP_recv_def result_simps Let_def sized_def ClientSession_BindRecv_def ClientSession_Closed_def
      split: if_splits)

lemma send_done_sized: "sized (mNet io) \<Longrightarrow> IOCP_send_done ws io i p n = Inr io' \<Longrightarrow> sized (mNet io')"
  using sized_cong [of "(mNet io)\<lparr>send_pool := x\<rparr>" "mNet io" for x]
  by (auto simp: IOCP_send_done_def result_simps dest: SendComplete_sized split: if_splits)

lemma IOCP_SendMsg_sized: "sized (mNet io) \<Longrightarrow> IOCP_SendMsg ws io i n msg = Inr (ok, io') \<Longrightarrow> sized (mNet io')"
  by (auto simp: IOCP_SendMsg_def result_simps dest: SendMsg_sized)

lemma net_step_sized:
  assumes "sized (mNet io)" and "net_step good io io'"
  shows "sized (mNet io')"
  using assms(2)
proof cases
  case (accept i ws ws')
  then show ?thesis using accept_sized [of "accepted io i"] assms(1) by (simp add: accepted_def)
next
  case (receive ws i p n data)
  then show ?thesis using recv_sized assms(1) by blast
next
  case (send_done ws i p n)
  then show ?thesis using send_done_sized assms(1) by blast
next
  case (close ws i f)
  then show ?thesis using CloseSocket_sized assms(1) by blast
next
  case (send ws i n msg ok)
  then show ?thesis using IOCP_SendMsg_sized assms(1) by blast
next
  case (timeouts ws now "is")
  then show ?thesis using TimeoutCheck_sized assms(1) by blast
qed

section \<open>Delivery\<close>

text \<open>
  Whatever the state of the queues, stale blocks included, the packets of the logic thread can be handed
  over: the copy fits the block, the slot exists.
\<close>

lemma deliver_sized:
  assumes "sized (mNet io)" and "list_all (send_ok (length (mClientInfos io))) ss"
  shows "\<exists>io'. ChatServer_deliver ws ty k io ss = Inr io' \<and> sized (mNet io') \<and> same_slots io io'"
  using assms
proof (induction ss arbitrary: io k)
  case Nil
  then show ?case by simp
next
  case (Cons x ss)
  obtain i n p where x: "x = (i, n, p)" by (metis prod.exhaust)
  have ok: "i < length (mClientInfos io)" "length (packet_bytes (ty k) p) = n" "n \<le> SESSION_SOCKBUF"
    using Cons.prems(2) by (simp_all add: x send_ok_def MAX_SOCKBUF_def SESSION_SOCKBUF_def length_packet_bytes)
  obtain b net s where m: "ClientSession_SendMsg (ws k) (mNet io) (mClientInfos io ! i) n (packet_bytes (ty k) p) = Inr (b, net, s)"
    using SendMsg_total [OF Cons.prems(1) ok(2,3)] by blast
  let ?io1 = "put_session io i net s"
  have s1: "IOCP_SendMsg (ws k) io i n (packet_bytes (ty k) p) = Inr (b, ?io1)"
    using m ok(1) by (simp add: IOCP_SendMsg_def IOCP_GetClientInfo_def)
  have sl: "same_slots io ?io1" using IOCP_SendMsg_slots [OF s1] .
  have "length (mClientInfos ?io1) = length (mClientInfos io)" by simp
  then obtain io' where "ChatServer_deliver ws ty (k + 1) ?io1 ss = Inr io'" "sized (mNet io')" "same_slots ?io1 io'"
    using Cons.IH [of ?io1 "k + 1"] SendMsg_sized [OF Cons.prems(1) m] Cons.prems(2) by auto
  then show ?case using x s1 sl by (simp add: same_slots_def)
qed

lemma new_sends_ok:
  assumes "server_inv n (pm', c')"
  shows "list_all (send_ok n) (new_sends pm pm')"
proof -
  have "list_all (send_ok n) (sent pm')"
    using assms by (auto simp: server_inv_def pm_inv_def queues_ok_def)
  then show ?thesis unfolding new_sends_def by (metis append_take_drop_id list_all_append)
qed

section \<open>The invariant\<close>

lemma net_inv_events [simp]: "net_inv good n (io\<lparr>app_events := es\<rparr>) = net_inv good n io"
  by (simp add: net_inv_def slots_ok_def slots_complete_def connected_slots_def)

lemma whole_events_handled:
  assumes "whole_inv good n (io, pm, c)" and "net_step good (io\<lparr>app_events := []\<rparr>) io'"
  shows "\<exists>pm'. ChatServer_events pm (app_events io') = Inr pm' \<and> pm_inv pm' \<and> queues_ok n pm'"
proof -
  have "net_inv good n (io\<lparr>app_events := []\<rparr>)" using assms(1) by (simp add: whole_inv_def)
  from net_step_events [OF this assms(2)] have "\<forall>e \<in> set (app_events io'). event_slot e < n"
    by (simp add: events_grow_def)
  then show ?thesis using events_ok [of pm n "app_events io'"] assms(1) by (auto simp: whole_inv_def server_inv_def)
qed

lemma whole_sends_delivered:
  assumes "whole_inv good n (io, pm, c)" and "logic_step (pm, c) (pm', c')"
  shows "\<exists>io'. ChatServer_deliver ws ty 0 io (new_sends pm pm') = Inr io' \<and> sized (mNet io') \<and> same_slots io io'"
proof -
  have i: "net_inv good n io" "sized (mNet io)" "server_inv n (pm, c)" using assms(1) by (simp_all add: whole_inv_def)
  have "list_all (send_ok (length (mClientInfos io))) (new_sends pm pm')"
    using new_sends_ok [OF logic_step_inv [OF assms(2) i(3)]] i(1) by (simp add: net_inv_def)
  then show ?thesis using deliver_sized [OF i(2)] by blast
qed

lemma whole_inv_step:
  assumes "whole_inv good n s" and "whole_step good redis_get pad s t"
  shows "whole_inv good n t"
  using assms(2)
proof cases
  case (whole_net io io' pm pm' c)
  have inv: "net_inv good n io" "sized (mNet io)" "server_inv n (pm, c)"
    using assms(1) whole_net(1) by (simp_all add: whole_inv_def)
  have "net_inv good n io'" by (rule net_inv_step [OF _ whole_net(3)]) (simp add: inv(1))
  moreover have "sized (mNet io')" by (rule net_step_sized [OF _ whole_net(3)]) (simp add: inv(2))
  moreover have "pm_inv pm' \<and> queues_ok n pm'"
    using whole_events_handled [of good n io pm c, OF _ whole_net(3)] assms(1) whole_net(1,4) by auto
  ultimately show ?thesis using inv(3) whole_net(2) by (simp add: whole_inv_def server_inv_def)
next
  case (whole_logic pm c pm' c' ws ty io io')
  have inv: "whole_inv good n (io, pm, c)" using assms(1) whole_logic(1) by simp
  obtain io2 where "ChatServer_deliver ws ty 0 io (new_sends pm pm') = Inr io2" "sized (mNet io2)" "same_slots io io2"
    using whole_sends_delivered [OF inv whole_logic(3)] by blast
  moreover have "server_inv n (pm', c')" using inv logic_step_inv [OF whole_logic(3)] by (simp add: whole_inv_def)
  ultimately show ?thesis
    using inv whole_logic(2,4) net_inv_same [of good n io] by (simp add: whole_inv_def)
next
  case (whole_redis pm red io c)
  then show ?thesis
    using assms(1) env_step_inv [OF env_step.redis [OF whole_redis(3)], where n = n] by (simp add: whole_inv_def server_inv_def)
next
  case (whole_mysql pm tk my io c)
  then show ?thesis
    using assms(1) env_step_inv [OF env_step.mysql [OF whole_mysql(3)], where n = n]
    by (simp add: whole_inv_def server_inv_def)
next
  case (whole_tick io pm c now)
  then show ?thesis
    using assms(1) env_step_inv [OF env_step.tick, where n = n] by (simp add: whole_inv_def server_inv_def)
qed

interpretation whole: invariant_system "whole_init good mem n" "whole_step good redis_get pad" "whole_inv good n"
proof unfold_locales
  fix s assume "whole_init good mem n s"
  then show "whole_inv good n s"
    using net_inv_init server_inv_init by (auto simp: whole_init_def whole_inv_def)
qed (rule whole_inv_step)

end
