(* ===== verification/Disconnect.thy ===== *)
theory Disconnect
  imports Framing
begin

text \<open>
  What the disconnection of a client leaves behind, in terms of the fields: the freed slot of a
  logged-in client; the leave request of the next client on a slot whose \<open>roomIndex\<close> was not reset; the
  dictionary after a client of the load-test branch has gone.
\<close>

lemma pm_users_updates [simp]:
  "pm_users (pm\<lparr>mUserManager := um\<rparr>) = mUserObjPool um"
  "pm_users (pm\<lparr>mRoomManager := rm\<rparr>) = pm_users pm" "pm_users (pm\<lparr>mRedisManager := red\<rparr>) = pm_users pm"
  "pm_users (pm\<lparr>mReadBuffer := ts\<rparr>) = pm_users pm" "pm_users (pm\<lparr>mWriteBuffer := ts\<rparr>) = pm_users pm"
  by (simp_all add: pm_users_def)

lemmas pm_users_fold = pm_users_def [symmetric]

lemma without_tasks_fields [simp]:
  "mUserManager (without_tasks pm i) = mUserManager pm" "mRoomManager (without_tasks pm i) = mRoomManager pm"
  "pm_users (without_tasks pm i) = pm_users pm" "sent (without_tasks pm i) = sent pm"
  "mWriteBuffer (without_tasks pm i) = filter (\<lambda>t. clientIndex t \<noteq> i) (mWriteBuffer pm)"
  by (simp_all add: without_tasks_def)

lemma cleared_slot_fields:
  assumes "i < length (mUserObjPool um)"
  shows "mUserObjPool (cleared_users um i) =
      (mUserObjPool um)[i := User_IncrementGeneration (User_Clear (mUserObjPool um ! i))]"
    and "mUserIDDictionary (cleared_users um i) = (mUserIDDictionary um)(mUserID (mUserObjPool um ! i) := None)"
  using assms by (simp_all add: cleared_users_def Let_def)

lemma left_rooms_members:
  assumes "rm_inv n rm" and "mCurDomainState u = DS_ROOM"
    and "RoomManager_GetRoomByNumber rm (roomIndex u) = Some k"
  shows "mRoomList (left_rooms rm i u) ! k = Room_LeaveUser (mRoomList rm ! k) i"
  using GetRoomByNumber_Some [OF assms(1,3)] assms(2,3) by (simp add: left_rooms_def)

lemma left_rooms_lookup [simp]:
  "RoomManager_GetRoomByNumber (left_rooms rm i u) = RoomManager_GetRoomByNumber rm"
  by (simp add: left_rooms_def split: option.splits)

lemma disconnect_effects:
  assumes "pm_inv pm" and "i < length (pm_users pm)" and "mCurDomainState (pm_users pm ! i) \<noteq> DS_NONE"
  shows "\<exists>pm'. PacketManager_ClearConnectionInfo pm i = Inr pm' \<and>
    mCurDomainState (pm_users pm' ! i) = DS_NONE \<and> mUserID (pm_users pm' ! i) = [] \<and>
    mUserIDDictionary (mUserManager pm') (mUserID (pm_users pm ! i)) = None \<and>
    slot_bytes pm' i = [] \<and> mGeneration (pm_users pm' ! i) = mGeneration (pm_users pm ! i) + 1 \<and>
    (mCurDomainState (pm_users pm ! i) = DS_ROOM \<longrightarrow> (\<forall>k.
      RoomManager_GetRoomByNumber (mRoomManager pm) (roomIndex (pm_users pm ! i)) = Some k \<longrightarrow>
        i \<notin> set (mUserList (mRoomList (mRoomManager pm') ! k)))) \<and>
    (\<forall>t \<in> set (mWriteBuffer pm'). clientIndex t \<noteq> i) \<and>
    (\<forall>j < length (pm_users pm). j \<noteq> i \<longrightarrow> pm_users pm' ! j = pm_users pm ! j) \<and>
    length (pm_users pm') = length (pm_users pm)"
proof -
  let ?um = "mUserManager pm" and ?rm = "mRoomManager pm" and ?u = "pm_users pm ! i"
  let ?pm' = "(without_tasks pm i)\<lparr>mRoomManager := left_rooms ?rm i ?u, mUserManager := cleared_users ?um i\<rparr>"
  have i: "i < length (mUserObjPool ?um)" and u: "?u = mUserObjPool ?um ! i"
    using assms(2) by (simp_all add: pm_users_def)
  have e: "PacketManager_ClearConnectionInfo pm i = Inr ?pm'"
    using ClearConnectionInfo_eq [OF assms(1,2)] assms(3) by simp
  have users: "pm_users ?pm' = (pm_users pm)[i := User_IncrementGeneration (User_Clear ?u)]"
    using cleared_slot_fields(1) [OF i] by (simp add: pm_users_def)
  have "user_bytes (User_IncrementGeneration (User_Clear ?u)) = []"
    using user_bytes_Clear [of ?u] pm_inv_user [OF assms(1,2)] by (simp add: user_bytes_def User_IncrementGeneration_def)
  then have "slot_bytes ?pm' i = []" unfolding slot_bytes_def users using assms(2) by simp
  moreover have "mCurDomainState (pm_users ?pm' ! i) = DS_NONE" "mUserID (pm_users ?pm' ! i) = []"
    "mGeneration (pm_users ?pm' ! i) = mGeneration ?u + 1"
    unfolding users using assms(2) by (simp_all add: User_IncrementGeneration_def User_Clear_def)
  moreover have "mUserIDDictionary (mUserManager ?pm') (mUserID ?u) = None"
    using cleared_slot_fields(2) [OF i] u by simp
  moreover have "i \<notin> set (mUserList (mRoomList (mRoomManager ?pm') ! k))"
    if "mCurDomainState ?u = DS_ROOM" "RoomManager_GetRoomByNumber ?rm (roomIndex ?u) = Some k" for k
    using left_rooms_members [OF core_rm [OF pm_inv_core [OF assms(1)]] that] by (simp add: Room_LeaveUser_def)
  ultimately show ?thesis using e users by (intro exI [of _ ?pm']) auto
qed

text \<open>
  The next client of the slot sends a packet while a task of the old connection is still waiting: the old task leaves
  the bytes alone, the new task takes them.
\<close>

lemma next_client_tasks:
  assumes "pm_inv pm" and "names_ok (mUserManager pm)" and "i < length (pm_users pm)"
    and "mCurDomainState (pm_users pm ! i) \<noteq> DS_NONE"
    and "PacketManager_ClearConnectionInfo pm i = Inr pm1" and "client_packet p"
    and "length p \<le> BufferSize (mPacketDataBuffer (pm_users pm1 ! i))"
    and "PacketManager_ReceivePacketData pm1 i (length p) (Some p) = Inr pm2"
  shows "slot_bytes pm2 i = p"
    and "process_task pm2 \<lparr>clientIndex = i, generation = mGeneration (pm_users pm ! i)\<rparr> = Some (Inr pm2)"
    and "last (mWriteBuffer pm2) = \<lparr>clientIndex = i, generation = mGeneration (pm_users pm ! i) + 1\<rparr>"
    and "\<exists>pm3. process_task pm2 (last (mWriteBuffer pm2)) = Some (Inr pm3) \<and> slot_bytes pm3 i = []"
proof -
  have d: "slot_bytes pm1 i = []" "mGeneration (pm_users pm1 ! i) = mGeneration (pm_users pm ! i) + 1"
    "length (pm_users pm1) = length (pm_users pm)"
    using disconnect_effects [OF assms(1,3,4)] assms(5) by auto
  have inv1: "pm_inv pm1" by (rule ClearConnectionInfo_inv [OF assms(1,3,5)])
  have n1: "names_ok (mUserManager pm1)"
    using ensuresD [OF nl.J_ClearConnectionInfo [OF assms(2) core_rm [OF pm_inv_core [OF assms(1)]]] assms(5)] .
  have r: "pm_inv pm2" "names_ok (mUserManager pm2)" "slot_bytes pm2 i = p" "length (pm_users pm2) = length (pm_users pm)"
    "mGeneration (pm_users pm2 ! i) = mGeneration (pm_users pm ! i) + 1"
    "mWriteBuffer pm2 = mWriteBuffer pm1 @ [\<lparr>clientIndex = i, generation = mGeneration (pm_users pm ! i) + 1\<rparr>]"
    using ReceivePacketData_bytes [OF inv1, of i p] assms(3,7,8) d n1 by auto
  show "slot_bytes pm2 i = p" by (rule r(3))
  show "process_task pm2 \<lparr>clientIndex = i, generation = mGeneration (pm_users pm ! i)\<rparr> = Some (Inr pm2)"
    using r(4,5) assms(3) by (intro process_task_stale) simp_all
  show l: "last (mWriteBuffer pm2) = \<lparr>clientIndex = i, generation = mGeneration (pm_users pm ! i) + 1\<rparr>"
    using r(6) by simp
  have i2: "i < length (pm_users pm2)" using r(4) assms(3) by simp
  have s: "slot_bytes pm2 i = concat [p] @ []" "list_all client_packet [p]" "incomplete []"
    using r(3) assms(6) by (simp_all add: incomplete_def packet_consts)
  obtain pm3 where "drain_trace pm2 i [] = Some (Inr ([] @ [p], pm3))" "slot_bytes pm3 i = []"
    using drain_packets [OF r(1,2) i2 s, of "[]"] by blast
  then show "\<exists>pm3. process_task pm2 (last (mWriteBuffer pm2)) = Some (Inr pm3) \<and> slot_bytes pm3 i = []"
    using drain_trace_drain [of pm2 i "[]"] process_task_current [of "last (mWriteBuffer pm2)" pm2] i2 r(5) l by auto
qed

text \<open>The next client of the slot sends a leave request.\<close>

lemma cleared_then_leave:
  assumes "pm_inv pm" and "i < length (pm_users pm)" and "mCurDomainState (pm_users pm ! i) = DS_ROOM"
    and "RoomManager_GetRoomByNumber (mRoomManager pm) (roomIndex (pm_users pm ! i)) = Some k"
  shows "\<exists>pm1 pm2. PacketManager_ClearConnectionInfo pm i = Inr pm1 \<and>
    mCurDomainState (pm_users pm1 ! i) = DS_NONE \<and> mUserID (pm_users pm1 ! i) = [] \<and>
    ProcessLeaveRoom pm1 i sz p = Inr pm2 \<and>
    mCurDomainState (pm_users pm2 ! i) = DS_LOGIN \<and> mUserID (pm_users pm2 ! i) = [] \<and>
    mCurrentUserCount (mRoomList (mRoomManager pm2) ! k) = mCurrentUserCount (mRoomList (mRoomManager pm) ! k) - 2"
proof -
  let ?um = "mUserManager pm" and ?rm = "mRoomManager pm" and ?u = "pm_users pm ! i"
  let ?pm1 = "(without_tasks pm i)\<lparr>mRoomManager := left_rooms ?rm i ?u, mUserManager := cleared_users ?um i\<rparr>"
  have i: "i < length (mUserObjPool ?um)" using assms(2) by (simp add: pm_users_def)
  have e: "PacketManager_ClearConnectionInfo pm i = Inr ?pm1"
    using ClearConnectionInfo_eq [OF assms(1,2)] assms(3) by simp
  have rm: "rm_inv (length (mUserObjPool ?um)) ?rm" by (rule core_rm [OF pm_inv_core [OF assms(1)]])
  have k: "k < length (mRoomList ?rm)" using GetRoomByNumber_Some [OF rm assms(4)] by simp
  have room: "mRoomList (left_rooms ?rm i ?u) ! k = Room_LeaveUser (mRoomList ?rm ! k) i"
    by (rule left_rooms_members [OF rm assms(3,4)])
  have klen: "k < length (mRoomList (left_rooms ?rm i ?u))"
    using k assms(3,4) by (simp add: left_rooms_def)
  have users: "pm_users ?pm1 = (pm_users pm)[i := User_IncrementGeneration (User_Clear ?u)]"
    using cleared_slot_fields(1) [OF i] by (simp add: pm_users_def)
  then have u1: "i < length (pm_users ?pm1)" "mCurDomainState (pm_users ?pm1 ! i) = DS_NONE"
    "mUserID (pm_users ?pm1 ! i) = []" "roomIndex (pm_users ?pm1 ! i) = roomIndex ?u"
    using assms(2) by (simp_all add: User_IncrementGeneration_def User_Clear_def)
  have inv1: "pm_inv ?pm1" by (rule ClearConnectionInfo_inv [OF assms(1,2) e])
  have g: "RoomManager_GetRoomByNumber (mRoomManager ?pm1) (roomIndex (pm_users ?pm1 ! i)) = Some k"
    using assms(4) u1(4) by simp
  have n: "name_ok (mUserID (pm_users ?pm1 ! i))" using u1(3) by (simp add: name_ok_def)
  note leave = LeaveRoom_success [OF inv1 u1(1) n g]
  obtain pm2 where pm2: "ProcessLeaveRoom ?pm1 i sz p = Inr pm2"
    "mUserManager pm2 = put_user (mUserManager ?pm1) i ((pm_users ?pm1 ! i)\<lparr>mCurDomainState := DS_LOGIN\<rparr>)"
    "mRoomManager pm2 = put_room (mRoomManager ?pm1) k (Room_LeaveUser (mRoomList (mRoomManager ?pm1) ! k) i)"
    unfolding leave by simp
  have "pm_users pm2 ! i = (pm_users ?pm1 ! i)\<lparr>mCurDomainState := DS_LOGIN\<rparr>"
    using u1(1) pm2(2) by (simp only: pm_users_def put_user_fields nth_list_update_eq)
  moreover have "mCurrentUserCount (mRoomList (mRoomManager pm2) ! k) = mCurrentUserCount (mRoomList ?rm ! k) - 2"
    using pm2(3) klen room by (simp add: Room_LeaveUser_def)
  ultimately show ?thesis
    using e u1(2,3) pm2(1) by (intro exI [of _ ?pm1] exI [of _ pm2]) simp
qed

text \<open>Two slots under one name, through the load-test branch.\<close>

lemma test_user_duplicate:
  assumes "pm_inv pm" and "i < length (pm_users pm)" and "j < length (pm_users pm)" and "i \<noteq> j"
    and "deref pm p = Inr mem" and "c_str (drop off_UserID mem) = Inr uid" and "is_test_user (drop off_UserID mem)"
    and "mUserID (pm_users pm ! j) = uid" and "mCurDomainState (pm_users pm ! j) = DS_LOGIN"
    and "mUserIDDictionary (mUserManager pm) uid = Some (int j)"
  shows "\<exists>pm1 pm2. ProcessLogin pm i 71 p = Inr pm1 \<and>
    mUserID (pm_users pm1 ! i) = uid \<and> mCurDomainState (pm_users pm1 ! i) = DS_LOGIN \<and>
    mUserIDDictionary (mUserManager pm1) uid = Some (int j) \<and>
    sent pm1 = sent pm @ [(i, 7, LOGIN_RESPONSE_PACKET (error_val EC_NONE))] \<and>
    PacketManager_ClearConnectionInfo pm1 i = Inr pm2 \<and>
    mUserID (pm_users pm2 ! j) = uid \<and> mCurDomainState (pm_users pm2 ! j) = DS_LOGIN \<and>
    mUserIDDictionary (mUserManager pm2) uid = None"
proof -
  let ?um = "mUserManager pm" and ?v = "(pm_users pm ! i)\<lparr>mCurDomainState := DS_LOGIN, mUserID := uid\<rparr>"
  have i: "i < length (mUserObjPool ?um)" using assms(2) by (simp add: pm_users_def)
  have same: "?um\<lparr>mUserIDDictionary := mUserIDDictionary ?um\<rparr> = ?um" by simp
  obtain pm1 where pm1: "ProcessLogin pm i 71 p = Inr pm1" "mUserManager pm1 = put_user ?um i ?v"
    "sent pm1 = sent pm @ [(i, 7, LOGIN_RESPONSE_PACKET (error_val EC_NONE))]"
    using Login_test_user [OF assms(2,5-7)] assms(10) by (auto simp: packet_consts)
  have users: "pm_users pm1 = (pm_users pm)[i := ?v]"
    using pm1(2) by (simp add: pm_users_def)
  have "ensures (ProcessLogin pm i 71 p) (ok_step pm)"
    using assms(1,2) by (rule ProcessLogin_ok)
  then have inv1: "pm_inv pm1" using pm1(1) by (auto simp: ok_step_def dest: ensuresD)
  have i1: "i < length (pm_users pm1)" "mCurDomainState (pm_users pm1 ! i) \<noteq> DS_NONE"
    "mUserID (pm_users pm1 ! i) = uid" "mCurDomainState (pm_users pm1 ! i) = DS_LOGIN"
    using assms(2) by (simp_all add: users)
  obtain pm2 where "PacketManager_ClearConnectionInfo pm1 i = Inr pm2"
    "mUserIDDictionary (mUserManager pm2) uid = None"
    "\<forall>j < length (pm_users pm1). j \<noteq> i \<longrightarrow> pm_users pm2 ! j = pm_users pm1 ! j"
    using disconnect_effects [OF inv1 i1(1,2)] i1(3) by auto
  then show ?thesis using pm1 i1 assms(3,4,8-10) users by (intro exI [of _ pm1] exI [of _ pm2]) simp
qed

end
