(* ===== verification/Demo.thy ===== *)
theory Demo
  imports WholeServer Disconnect
begin

text \<open>
  Concrete states for the examples beside the properties: a freshly initialised server with a few
  slots and zeroed memory, users logged in or in a room, packets of a client, a small ring buffer, a
  network layer with one session.
\<close>

section \<open>Packet manager\<close>

definition demo_mem :: user_memory where
  "demo_mem = (\<lambda>_. (\<lambda>_. 0, \<lambda>_. 0))"

definition demo :: "nat \<Rightarrow> PacketManager" where
  "demo n = PacketManager_Init demo_mem n"

definition demo_user :: "nat \<Rightarrow> user" where
  "demo_user i = User_Init (User_new (\<lambda>_. 0) (\<lambda>_. 0)) i"

lemma demo_users [simp]:
  "length (pm_users (demo n)) = n" "i < n \<Longrightarrow> pm_users (demo n) ! i = demo_user i"
  "length (mUserObjPool (mUserManager (demo n))) = n"
  "i < n \<Longrightarrow> mUserObjPool (mUserManager (demo n)) ! i = demo_user i"
  by (simp_all add: demo_def PacketManager_Init_def PacketManager_CreateComponent_def pm_users_def
      UserManager_Init_def demo_mem_def demo_user_def)

lemma demo_user_fields [simp]:
  "mIndex (demo_user i) = int i" "mUserID (demo_user i) = []" "mCurDomainState (demo_user i) = DS_NONE"
  "roomIndex (demo_user i) = -1" "mGeneration (demo_user i) = 0"
  "BufferSize (mPacketDataBuffer (demo_user i)) = 8096" "user_bytes (demo_user i) = []"
  "length (m_tempPacketBuffer (demo_user i)) = 8096" "user_inv (demo_user i)"
proof -
  show "user_bytes (demo_user i) = []" unfolding demo_user_def by (rule user_bytes_new)
  show "user_inv (demo_user i)" unfolding demo_user_def by (rule user_inv_new)
qed (simp_all add: demo_user_def User_Init_def User_new_def RingBuffer_Clear_def RingBuffer_new_def
    BufferSize_def MAX_PACKET_DATA_BUFFER_SIZE_def)

lemma demo_fields [simp]:
  "mUserIDDictionary (mUserManager (demo n)) = Map.empty" "mCurrentUserCnt (mUserManager (demo n)) = 0"
  "mMaxUserCnt (mUserManager (demo n)) = int n" "sent (demo n) = []" "clock (demo n) = 0"
  "mWriteBuffer (demo n) = []" "mReadBuffer (demo n) = []" "mSystemReadBuffer (demo n) = []"
  "mSystemWriteBuffer (demo n) = []" "mRedisManager (demo n) = RedisManager_new"
  by (simp_all add: demo_def PacketManager_Init_def PacketManager_CreateComponent_def UserManager_Init_def)

lemma demo_rooms [simp]:
  "mRoomManager (demo n) = RoomManager_Init 0 250 8"
  by (simp add: demo_def PacketManager_Init_def PacketManager_CreateComponent_def startRoomNumber_def
      maxRoomCount_def maxRoomUserCount_def)

lemma demo_room [simp]:
  "k < 250 \<Longrightarrow> mRoomList (RoomManager_Init 0 250 8) ! k = Room_Init Room_new (int k) 8"
  "length (mRoomList (RoomManager_Init 0 250 8)) = 250"
  "RoomManager_GetRoomByNumber (RoomManager_Init 0 250 8) m =
     (if m < 0 \<or> 250 \<le> m then None else Some (nat m))"
  by (simp_all add: RoomManager_Init_def RoomManager_GetRoomByNumber_def)

lemma demo_inv [simp]: "pm_inv (demo n)"
  unfolding demo_def by (rule pm_inv_Init)

lemma demo_names [simp]: "names_ok (mUserManager (demo n))" "names_inv (mUserManager (demo n))"
proof -
  show "names_ok (mUserManager (demo n))"
    unfolding names_ok_def
  proof
    fix u assume "u \<in> set (mUserObjPool (mUserManager (demo n)))"
    then obtain i where "i < n" "u = demo_user i" by (auto simp: in_set_conv_nth)
    then show "name_ok (mUserID u)" by (simp add: name_ok_def)
  qed
  show "names_inv (mUserManager (demo n))" unfolding demo_def by (rule names_inv_Init)
qed

text \<open>Slot \<open>i\<close> logged in under a name, without a room.\<close>

definition demo_login :: "nat \<Rightarrow> nat \<Rightarrow> byte list \<Rightarrow> PacketManager" where
  "demo_login n i uid = (demo n)\<lparr>mUserManager :=
     put_user (mUserManager (demo n)) i ((demo_user i)\<lparr>mCurDomainState := DS_LOGIN, mUserID := uid\<rparr>)\<rparr>"

lemma demo_login_inv: "i < n \<Longrightarrow> pm_inv (demo_login n i uid)"
proof -
  assume i: "i < n"
  have "core (put_user (mUserManager (demo n)) i ((demo_user i)\<lparr>mCurDomainState := DS_LOGIN, mUserID := uid\<rparr>))
      (mRoomManager (demo n))"
    using i by (intro core_put_user [OF pm_inv_core [OF demo_inv]]) simp_all
  then show ?thesis by (simp add: demo_login_def pm_inv_def)
qed

lemma demo_login_fields [simp]:
  "length (pm_users (demo_login n i uid)) = n"
  "i < n \<Longrightarrow> pm_users (demo_login n i uid) ! i = (demo_user i)\<lparr>mCurDomainState := DS_LOGIN, mUserID := uid\<rparr>"
  "mRoomManager (demo_login n i uid) = RoomManager_Init 0 250 8" "sent (demo_login n i uid) = []"
  "clock (demo_login n i uid) = 0"
  "mUserIDDictionary (mUserManager (demo_login n i uid)) = Map.empty"
  by (simp_all add: demo_login_def pm_users_def)

text \<open>The same, with the name registered for slot \<open>i\<close>.\<close>

definition demo_registered :: "nat \<Rightarrow> nat \<Rightarrow> byte list \<Rightarrow> PacketManager" where
  "demo_registered n i uid = (demo_login n i uid)\<lparr>mUserManager :=
     mUserManager (demo_login n i uid)\<lparr>mUserIDDictionary := [uid \<mapsto> int i]\<rparr>\<rparr>"

lemma demo_registered_inv: "i < n \<Longrightarrow> pm_inv (demo_registered n i uid)"
  using demo_login_inv [of i n uid]
  by (simp add: demo_registered_def pm_inv_def core_def um_inv_def pm_users_def demo_login_def)

lemma demo_registered_fields [simp]:
  "length (pm_users (demo_registered n i uid)) = n"
  "i < n \<Longrightarrow> j < n \<Longrightarrow> pm_users (demo_registered n i uid) ! j =
     (if j = i then (demo_user i)\<lparr>mCurDomainState := DS_LOGIN, mUserID := uid\<rparr> else demo_user j)"
  "mUserIDDictionary (mUserManager (demo_registered n i uid)) = [uid \<mapsto> int i]"
  "sent (demo_registered n i uid) = []"
  by (simp_all add: demo_registered_def demo_login_def pm_users_def)

text \<open>Slot \<open>i\<close> in room 0, and a user who left that room: not logged in, \<open>roomIndex\<close> still 0.\<close>

definition demo_room_state :: "nat \<Rightarrow> nat \<Rightarrow> byte list \<Rightarrow> PacketManager" where
  "demo_room_state n i uid =
     (demo_login n i uid)\<lparr>mRoomManager := put_room (RoomManager_Init 0 250 8) 0
          (entered (mRoomList (RoomManager_Init 0 250 8) ! 0) i),
        mUserManager := put_user (mUserManager (demo_login n i uid)) i
          (User_EnterRoom (pm_users (demo_login n i uid) ! i) 0)\<rparr>"

lemma demo_room_inv: "i < n \<Longrightarrow> pm_inv (demo_room_state n i uid)"
proof -
  assume i: "i < n"
  let ?pm = "demo_login n i uid" and ?rm = "RoomManager_Init 0 250 8"
  have "RoomManager_EnterUser ?rm 0 i (pm_users ?pm ! i) =
      Inr (error_val EC_NONE, put_room ?rm 0 (entered (mRoomList ?rm ! 0) i), User_EnterRoom (pm_users ?pm ! i) 0)"
    by (simp add: RoomManager_EnterUser_def Room_EnterUser_def entered_def Room_Init_def Room_new_def)
  moreover have "core (mUserManager ?pm) ?rm"
    using pm_inv_core [OF demo_login_inv [OF i, of uid]] by simp
  ultimately have "core (put_user (mUserManager ?pm) i (User_EnterRoom (pm_users ?pm ! i) 0))
      (put_room ?rm 0 (entered (mRoomList ?rm ! 0) i))"
    using i core_EnterUser [of "mUserManager ?pm" ?rm i 0] by (simp add: pm_users_def demo_login_def)
  then show ?thesis by (simp add: demo_room_state_def pm_inv_def)
qed

lemma demo_room_fields [simp]:
  "length (pm_users (demo_room_state n i uid)) = n"
  "i < n \<Longrightarrow> pm_users (demo_room_state n i uid) ! i =
     (demo_user i)\<lparr>mCurDomainState := DS_ROOM, mUserID := uid, roomIndex := 0\<rparr>"
  "mRoomManager (demo_room_state n i uid) = put_room (RoomManager_Init 0 250 8) 0
     (entered (Room_Init Room_new 0 8) i)"
  "clock (demo_room_state n i uid) = 0"
proof -
  show "length (pm_users (demo_room_state n i uid)) = n"
    by (simp add: demo_room_state_def pm_users_def demo_login_def)
  show "pm_users (demo_room_state n i uid) ! i =
     (demo_user i)\<lparr>mCurDomainState := DS_ROOM, mUserID := uid, roomIndex := 0\<rparr>" if "i < n"
    using that by (simp add: demo_room_state_def pm_users_def demo_login_def User_EnterRoom_def)
qed (simp_all add: demo_room_state_def)

section \<open>Packets\<close>

text \<open>A PONG, an enter request for room 0, a chat message, a name.\<close>

definition pong :: "byte list" where "pong = [5, 0, 22, 0, 0]"

definition alice :: "byte list" where "alice = [97, 108, 105, 99, 101]"

lemma alice_ok [simp]: "name_ok alice" "length alice = 5" "0 \<notin> set alice"
  by (simp_all add: alice_def name_ok_def packet_consts)

text \<open>A name of the load-test branch.\<close>

definition demo_tester :: "byte list" where "demo_tester = bytes_of_string ''test_user1''"

lemma demo_tester_request:
  "c_str (drop off_UserID (login_request_bytes 0 demo_tester [112])) = Inr demo_tester"
  "is_test_user (drop off_UserID (login_request_bytes 0 demo_tester [112]))"
proof -
  have t: "0 \<notin> set demo_tester" "length demo_tester = 10"
    by (simp_all add: demo_tester_def bytes_of_string_def)
  show "c_str (drop off_UserID (login_request_bytes 0 demo_tester [112])) = Inr demo_tester"
    using t by (simp add: login_request_bytes_def packet_consts c_str_char_field)
  show "is_test_user (drop off_UserID (login_request_bytes 0 demo_tester [112]))"
    using t by (simp add: login_request_bytes_def packet_consts is_test_user_def char_field_def,
        simp add: demo_tester_def bytes_of_string_def)
qed

text \<open>A name of that branch that runs on into the field of the password: 33 bytes.\<close>

definition demo_long_name :: "byte list" where
  "demo_long_name = bytes_of_string ''test_user'' @ replicate 24 49"

definition demo_long_login :: "byte list" where
  "demo_long_login = [71, 0, 201, 0, 0] @ demo_long_name @ replicate 33 0"

lemma demo_long_request:
  "c_str (drop off_UserID demo_long_login) = Inr demo_long_name" "is_test_user (drop off_UserID demo_long_login)"
  "MAX_USER_ID_LENGTH < length demo_long_name" "length demo_long_login = 71"
proof -
  have t: "0 \<notin> set demo_long_name" "length demo_long_name = 33"
    by (simp_all add: demo_long_name_def bytes_of_string_def)
  have d: "drop off_UserID demo_long_login = demo_long_name @ 0 # replicate 32 0"
    by (simp add: demo_long_login_def packet_consts numeral_eq_Suc)
  show "c_str (drop off_UserID demo_long_login) = Inr demo_long_name" unfolding d by (rule c_str_append_nul [OF t(1)])
  show "is_test_user (drop off_UserID demo_long_login)"
    unfolding d by (simp add: is_test_user_def demo_long_name_def bytes_of_string_def)
  show "MAX_USER_ID_LENGTH < length demo_long_name" "length demo_long_login = 71"
    using t by (simp_all add: packet_consts demo_long_login_def)
qed

lemma pong_client: "client_packet pong"
  by (simp add: client_packet_def pong_def wf_packet_def packet_consts frame_length_def frame_id_def)

text \<open>The client of slot 0 leaves its room by closing; the next client of the slot sends a \<open>PONG\<close>.\<close>

lemma demo_room_names: "names_ok (mUserManager (demo_room_state 2 0 alice))"
proof -
  have "name_ok (mUserID (pm_users (demo_room_state 2 0 alice) ! j))" if "j < 2" for j
    using that by (cases "j = 0") (simp_all add: demo_room_state_def demo_login_def pm_users_def User_EnterRoom_def name_ok_def packet_consts)
  moreover have "length (pm_users (demo_room_state 2 0 alice)) = 2" by simp
  ultimately show ?thesis by (auto simp: names_ok_def in_set_conv_nth pm_users_def simp del: demo_room_fields)
qed

lemma demo_next_client:
  "\<exists>pm1 pm2. PacketManager_ClearConnectionInfo (demo_room_state 2 0 alice) 0 = Inr pm1 \<and>
     5 \<le> BufferSize (mPacketDataBuffer (pm_users pm1 ! 0)) \<and>
     PacketManager_ReceivePacketData pm1 0 5 (Some pong) = Inr pm2"
proof -
  let ?pm = "demo_room_state 2 0 alice"
  have i: "0 < length (pm_users ?pm)" "mCurDomainState (pm_users ?pm ! 0) \<noteq> DS_NONE" by simp_all
  have u: "BufferSize (mPacketDataBuffer (pm_users ?pm ! 0)) = 8096" by simp
  obtain pm1 where c: "PacketManager_ClearConnectionInfo ?pm 0 = Inr pm1" "slot_bytes pm1 0 = []"
      "length (pm_users pm1) = 2"
    using disconnect_effects [OF demo_room_inv i] by auto
  have "pm1 = (without_tasks ?pm 0)\<lparr>mRoomManager := left_rooms (mRoomManager ?pm) 0 (pm_users ?pm ! 0),
      mUserManager := cleared_users (mUserManager ?pm) 0\<rparr>"
    using ClearConnectionInfo_eq [OF demo_room_inv i(1)] c(1) i(2) by simp
  then have "BufferSize (mPacketDataBuffer (pm_users pm1 ! 0)) = 8096"
    using cleared_slot_fields(1) [of 0 "mUserManager ?pm"] i(1) u
    by (simp add: pm_users_def User_IncrementGeneration_def User_Clear_def RingBuffer_Clear_def BufferSize_def)
  moreover have "pm_inv pm1" using ClearConnectionInfo_inv(1) [OF demo_room_inv i(1) c(1)] by simp
  moreover have "length pong = 5" by (simp add: pong_def)
  ultimately show ?thesis using ReceivePacketData_bytes [of pm1 0 pong] c by auto
qed
text \<open>Slot \<open>i\<close> with received bytes in its ring buffer.\<close>

definition demo_bytes :: "nat \<Rightarrow> nat \<Rightarrow> byte list \<Rightarrow> PacketManager" where
  "demo_bytes n i bs = (case User_SetPacketData (demo_user i) (length bs) (Some bs) of
       Inl e \<Rightarrow> demo n
     | Inr u \<Rightarrow> (demo n)\<lparr>mUserManager := put_user (mUserManager (demo n)) i u\<rparr>)"

lemma demo_bytes_ok:
  assumes "i < n" and "length bs \<le> 8096"
  shows "pm_inv (demo_bytes n i bs)" and "names_ok (mUserManager (demo_bytes n i bs))"
    and "length (pm_users (demo_bytes n i bs)) = n" and "slot_bytes (demo_bytes n i bs) i = bs"
    and "mGeneration (pm_users (demo_bytes n i bs) ! i) = 0" and "pm_users (demo_bytes n i bs) \<noteq> []"
    and "mCurDomainState (pm_users (demo_bytes n i bs) ! i) = DS_NONE"
    and "BufferSize (mPacketDataBuffer (pm_users (demo_bytes n i bs) ! i)) = 8096"
proof -
  obtain rb where s: "User_SetPacketData (demo_user i) (length bs) (Some bs) =
      Inr ((demo_user i)\<lparr>mPacketDataBuffer := rb\<rparr>)"
    "RingBuffer_list rb = user_bytes (demo_user i) @ take (user_free (demo_user i)) bs"
    "BufferSize rb = 8096"
    using SetPacketData_refines [of "demo_user i" bs "length bs"] by auto
  let ?u = "(demo_user i)\<lparr>mPacketDataBuffer := rb\<rparr>"
  have e: "demo_bytes n i bs = (demo n)\<lparr>mUserManager := put_user (mUserManager (demo n)) i ?u\<rparr>"
    by (simp add: demo_bytes_def s(1))
  have "RingBuffer_Size (mPacketDataBuffer (demo_user i)) = 0"
    using length_user_bytes [of "demo_user i"] by simp
  then have l: "RingBuffer_list rb = bs" using s(2) assms(2) by (simp add: user_free_def)
  show "pm_inv (demo_bytes n i bs)"
    unfolding e using assms(1) s(1) by (intro receive_inv(1) [OF demo_inv]) simp_all
  show "names_ok (mUserManager (demo_bytes n i bs))"
    unfolding e using names_ok_put_user [OF demo_names(1), of ?u n i] by (simp add: name_ok_def)
  show "pm_users (demo_bytes n i bs) \<noteq> []"
    using assms(1) by (auto simp: e pm_users_def simp flip: length_0_conv)
  show "length (pm_users (demo_bytes n i bs)) = n" "slot_bytes (demo_bytes n i bs) i = bs"
    "mGeneration (pm_users (demo_bytes n i bs) ! i) = 0"
    using assms(1) l by (simp_all add: e slot_bytes_def pm_users_def user_bytes_def)
  show "mCurDomainState (pm_users (demo_bytes n i bs) ! i) = DS_NONE"
    "BufferSize (mPacketDataBuffer (pm_users (demo_bytes n i bs) ! i)) = 8096"
    using assms(1) s(3) by (simp_all add: e pm_users_def)
qed

text \<open>The Redis worker has answered a login of slot \<open>i\<close>.\<close>

definition demo_answered :: "nat \<Rightarrow> nat \<Rightarrow> byte list \<Rightarrow> PacketManager" where
  "demo_answered n i uid = (demo n)\<lparr>mRedisManager := RedisManager_new\<lparr>R_mResponseTask :=
     [\<lparr>R_UserIndex = i, R_TaskID = RESPONSE_LOGIN, R_DataSize = RedisLoginRes_size,
       R_pData = Some (RedisLoginRes_bytes (\<lambda>_. 0) (error_val EC_NONE) uid)\<rparr>]\<rparr>\<rparr>"

lemma demo_answered_inv: "pm_inv (demo_answered n i uid)"
  using demo_inv [of n] by (simp add: demo_answered_def pm_inv_def)

text \<open>A database that works, a connection with its statements prepared.\<close>

definition demo_env :: mysql_env where
  "demo_env = \<lparr>env_init = True, env_connect = (\<lambda>_. True), env_ping = True, env_create = (True, True, True),
     env_stmt_init = (True, True, True), env_prepare = (True, True, True), env_bind = True, env_execute = True\<rparr>"

definition demo_conn :: MySQLConnection where
  "demo_conn = \<lparr>connection = True, stmtLogin = True, stmtRoom = True, stmtChat = True\<rparr>"

section \<open>Network layer\<close>

definition demo_block :: SendOverlappedEx where
  "demo_block = \<lparr>wsaBuf_len = 0, snd_operation = IO_RECV, snd_generation = 0,
     snd_buffer = replicate SESSION_SOCKBUF 0\<rparr>"

definition demo_net :: "nat \<Rightarrow> net" where
  "demo_net k = \<lparr>send_pool = ObjectPool_Init ObjectPool_new k, blocks = (\<lambda>_. demo_block), calls = []\<rparr>"

definition demo_session :: "nat \<Rightarrow> session" where
  "demo_session i = ClientSession_Init (ClientSession_new (\<lambda>_. 0, \<lambda>_. 0) overlapped_zero) i (Handle 1)"

definition demo_ws :: winsock where
  "demo_ws = \<lparr>ws_recv = True, ws_send = True, ws_bind = Handle 1, ws_context = True, ws_socket = Some 7,
     ws_acceptex = True, ws_nodelay = True, ws_rcvbuf = True, ws_tick = 100000, ws_seconds = 100\<rparr>"

lemma demo_pool_free: "mFreeList (send_pool (demo_net 4)) \<noteq> []"
  by (simp add: demo_net_def ObjectPool_Init_eq)

lemma demo_pool_left:
  assumes "op.in_use p = insert a (op.in_use (send_pool (demo_net 4)))" and "mAllBlocks p = mAllBlocks (send_pool (demo_net 4))"
  shows "mFreeList p \<noteq> []"
proof
  assume "mFreeList p = []"
  then have "{0..<4} \<subseteq> {a}"
    using assms by (auto simp: op.in_use_def demo_net_def ObjectPool_Init_eq)
  then have "card {0..<4 :: nat} \<le> card {a}" by (rule card_mono [rotated]) simp
  then show False by simp
qed

lemma demo_net_ok [simp]: "net_ok (demo_net k)"
  by (simp add: net_ok_def demo_net_def pool_ok_Init demo_block_def)

lemma demo_session_fields [simp]:
  "mSendDataqueue (demo_session i) = []" "S_mIndex (demo_session i) = i" "\<not> mIsConnected (demo_session i)"
  "S_mGeneration (demo_session i) = 0" "mLastActivityTime (demo_session i) = 0" "mLastPingTime (demo_session i) = 0"
  "length (mRecvBuf (demo_session i)) = SESSION_SOCKBUF"
  "ovl_generation (m_stRecvOverlappedEx (demo_session i)) = 0"
  by (simp_all add: demo_session_def ClientSession_Init_def ClientSession_new_def overlapped_zero_def)

lemma demo_queue_ok [simp]: "queue_ok net (demo_session i)"
  by (simp add: queue_ok_def)

text \<open>A network layer with \<open>n\<close> sessions, all free; and one whose slot 0 is connected.\<close>

definition demo_io :: "nat \<Rightarrow> iocp" where
  "demo_io n = IOCP_CreateClient (\<lambda>_. ((\<lambda>_. 0, \<lambda>_. 0), overlapped_zero))
     ((IOCompletionPort_new (\<lambda>_. demo_block))\<lparr>mIOCPHandle := Handle 1\<rparr>) n"

lemma demo_io_fields [simp]:
  "mClientInfos (demo_io n) = map demo_session [0..<n]" "mNet (demo_io n) = demo_net (n * 4)"
  "mFreeSessionList (demo_io n) = rev [0..<n]" "posted (demo_io n) = []"
  by (simp_all add: demo_io_def IOCP_CreateClient_def IOCompletionPort_new_def demo_session_def demo_net_def)

lemma demo_io_slots: "n < UINT32_MAX \<Longrightarrow> slots_ok (demo_io n) \<and> slots_complete (demo_io n)"
  unfolding demo_io_def by (intro conjI CreateClient_slots) (simp_all add: IOCompletionPort_new_def)

definition demo_connected :: "UINT64 \<Rightarrow> UINT64 \<Rightarrow> iocp" where
  "demo_connected activity ping = (demo_io 1)\<lparr>mClientInfos :=
     [(demo_session 0)\<lparr>mIsConnected := True, m_socketClient := Some 7, mLastActivityTime := activity,
        mLastPingTime := ping\<rparr>]\<rparr>"

text \<open>Slot 0 connected, everything consistent.\<close>

definition demo_one :: iocp where
  "demo_one = (demo_connected 0 0)\<lparr>mFreeSessionList := [], mClientCnt := 1\<rparr>"

lemma demo_one_fields:
  "mClientInfos demo_one = [(demo_session 0)\<lparr>mIsConnected := True, m_socketClient := Some 7\<rparr>]"
  "mFreeSessionList demo_one = []" "posted demo_one = []" "mClientCnt demo_one = 1"
  "ovl_generation (m_stRecvOverlappedEx (mClientInfos demo_one ! 0)) = 0"
  "S_mGeneration (mClientInfos demo_one ! 0) = 0"
  by (simp_all add: demo_one_def demo_connected_def demo_session_def ClientSession_Init_def ClientSession_new_def
      overlapped_zero_def)

lemma demo_one_ok: "slots_ok demo_one"
proof -
  have "connected_slots demo_one = {0}"
    by (auto simp: connected_slots_def demo_one_fields)
  then show ?thesis by (simp add: slots_ok_def demo_one_fields UINT32_MAX_def)
qed

text \<open>The server is started with one slot, and a client is accepted.\<close>

lemma demo_net_start:
  "\<exists>io io'. net_init True 1 io \<and> sized (mNet io) \<and> app_events io = [] \<and> net_step True io io' \<and> mClientCnt io' = 1"
proof -
  let ?mem = "\<lambda>_. ((\<lambda>_. 0, \<lambda>_. 0), overlapped_zero)"
  let ?start = "(IOCompletionPort_new (\<lambda>_. demo_block))\<lparr>mIOCPHandle := Handle 1\<rparr>"
  have ok: "calls_succeed demo_ws" by (simp add: calls_succeed_def demo_ws_def)
  obtain io1 where s: "IOCP_post_next demo_ws (snd (IOCP_CreateWorkerThread (demo_io 1))) = Inr io1"
    "mFreeSessionList io1 = []" "posted io1 = [0]" "mClientCnt io1 = 0" "length (mClientInfos io1) = 1"
    "app_events io1 = []" "blocks (mNet io1) = (\<lambda>_. demo_block)"
    by (simp add: IOCP_CreateWorkerThread_def IOCP_post_next_def IOCP_PopFreeSessionIndex_def UINT32_MAX_def
        IOCP_GetClientInfo_def ClientSession_PostImmediateAccept_def Let_def demo_ws_def demo_io_def
        IOCP_CreateClient_def IOCompletionPort_new_def split: prod.splits)
  let ?io = "io1\<lparr>mIsTimeoutRun := True\<rparr>"
  have "IOCP_post_loop (\<lambda>_. demo_ws) 0 (Suc 99) (snd (IOCP_CreateWorkerThread (demo_io 1))) = Inr io1"
    using s(1,2) unfolding IOCP_post_loop.simps(2) by simp
  then have "IOCP_post_loop (\<lambda>_. demo_ws) 0 MAX_PENDING_ACCEPT (snd (IOCP_CreateWorkerThread (demo_io 1))) = Inr io1"
    by (simp add: MAX_PENDING_ACCEPT_def)
  then have st: "IOCP_StartServer ?mem (\<lambda>_. demo_ws) ?start 1 = Inr (True, ?io)"
    by (simp add: IOCP_StartServer_def demo_io_def IOCP_CreateWorkerThread_def)
  have ini: "net_init True 1 ?io"
    unfolding net_init_def
    by (intro conjI exI [of _ ?mem] exI [of _ "\<lambda>_. demo_ws"] exI [of _ "\<lambda>_. demo_block"] exI [of _ "Handle 1"]
        exI [of _ True] st impI allI ok) (simp add: UINT32_MAX_def)
  obtain net' s' where a: "ClientSession_AcceptCompletion demo_ws (mNet (accepted ?io 0))
      (mClientInfos (accepted ?io 0) ! 0) = (True, net', s')"
    by (simp add: ClientSession_AcceptCompletion_def ClientSession_OnConnect_def Let_def demo_ws_def
        ClientSession_BindIOCompletionPort_def ClientSession_BindRecv_def)
  obtain io2 where io2: "IOCP_accept demo_ws demo_ws (accepted ?io 0) 0 = Inr io2" "mClientCnt io2 = 1"
    using a s by (simp add: IOCP_accept_def IOCP_GetClientInfo_def accepted_def Let_def)
  have "net_step True ?io io2"
    by (rule net_step.accept [where i = 0 and ws = demo_ws and ws' = demo_ws, OF _ _ _ io2(1)])
      (simp_all add: s(3) ok, simp add: demo_ws_def)
  moreover have "sized (mNet ?io)" using s(7) by (simp add: sized_def demo_block_def)
  ultimately show ?thesis using ini s(6) io2(2) by (intro exI [of _ ?io] exI [of _ io2]) simp
qed

lemma demo_net_reach: "\<exists>io. reach (net_init True 1) (net_step True) io \<and> mClientCnt io = 1"
  using demo_net_start by (blast intro: reach_init reach_step)

text \<open>A first send on the demo session; a reconnect with all calls succeeding.\<close>

lemma demo_first_send:
  "\<exists>net s. ClientSession_SendMsg demo_ws (demo_net 4) (demo_session 0) (length pong) pong = Inr (True, net, s) \<and>
    net_ok net \<and> queue_ok net s \<and> mSendDataqueue s \<noteq> [] \<and> wsasends net = [pong]"
proof -
  have w: "ws_send demo_ws" "wsasends (demo_net 4) = []" "length pong \<le> SESSION_SOCKBUF"
    by (simp add: demo_ws_def, simp add: wsasends_def demo_net_def, simp add: pong_def SESSION_SOCKBUF_def)
  have ok: "net_ok (demo_net 4)" "queue_ok (demo_net 4) (demo_session 0)" by simp_all
  show ?thesis using SendMsg_queued [OF ok demo_pool_free refl w(3), of demo_ws] w by auto
qed

lemma demo_reconnect:
  "\<exists>net1 s1 net2 s2 net3 s3. ClientSession_Closed demo_ws net s f = (net1, s1) \<and>
    ClientSession_PostImmediateAccept demo_ws net1 s1 = (True, net2, s2) \<and>
    ClientSession_AcceptCompletion demo_ws net2 s2 = (True, net3, s3)"
  by (simp add: ClientSession_Closed_def ClientSession_PostImmediateAccept_def ClientSession_AcceptCompletion_def
      ClientSession_OnConnect_def ClientSession_BindIOCompletionPort_def ClientSession_BindRecv_def Let_def demo_ws_def)

end
