(* ===== verification/LogicRun.thy ===== *)
theory LogicRun
  imports ServerSteps
begin

text \<open>
  Runs of the logic thread by itself: from its wait to the handler of a packet, and from the handler back to
  the wait. No step on the way sends a packet, so the runs are the same with or without the network layer.
\<close>

section \<open>Silent steps\<close>

text \<open>A step that is not a handler of a client's packet and sends nothing.\<close>

definition silent_step :: "server \<Rightarrow> server \<Rightarrow> bool" where
  "silent_step s t \<longleftrightarrow> logic_step s t \<and> sent (fst t) = sent (fst s) \<and> (\<forall>i pk ts. snd s \<noteq> Handling i pk ts)"

lemma silent_inv: "silent_step\<^sup>*\<^sup>* s t \<Longrightarrow> server_inv n s \<Longrightarrow> server_inv n t"
  by (induction rule: rtranclp_induct) (auto simp: silent_step_def intro: logic_step_inv)

lemma silent_genuine:
  assumes "silent_step\<^sup>*\<^sup>* s t" and "reach init (genuine_step g pad) s"
  shows "reach init (genuine_step g pad) t"
  using assms
proof (induction rule: rtranclp_induct)
  case (step t u)
  have "no_test_login t" using step(2) by (cases t; cases "snd t") (auto simp: silent_step_def)
  then have "genuine_step g pad t u" using step(2) by (simp add: genuine_step_def silent_step_def server_step.logic)
  then show ?case using step by (blast intro: reach_step)
qed

section \<open>From bytes on the wire to the handler\<close>

text \<open>The logic thread waits and nothing is queued.\<close>

definition idle :: "PacketManager \<Rightarrow> bool" where
  "idle pm \<longleftrightarrow> mIsRunProcessThread pm \<and> mSystemWriteBuffer pm = [] \<and> mSystemReadBuffer pm = [] \<and>
     mWriteBuffer pm = [] \<and> mReadBuffer pm = []"

text \<open>The state when the handler is called: only the buffers of the user have changed.\<close>

definition with_buffers :: "PacketManager \<Rightarrow> nat \<Rightarrow> ring \<Rightarrow> byte list \<Rightarrow> PacketManager" where
  "with_buffers pm i rb tb = pm\<lparr>mUserManager := put_user (mUserManager pm) i
     ((pm_users pm ! i)\<lparr>mPacketDataBuffer := rb, m_tempPacketBuffer := tb\<rparr>),
     mReadBuffer := [\<lparr>clientIndex = i, generation = mGeneration (pm_users pm ! i)\<rparr>]\<rparr>"

lemma system_buffer_same: "mSystemReadBuffer pm = [] \<Longrightarrow> pm\<lparr>mSystemReadBuffer := []\<rparr> = pm"
  by (cases pm) simp

lemma header_bytes_facts:
  "length (header_bytes n pid ty) = 5" "frame_length (header_bytes n pid ty @ r) = n mod 2 ^ 16"
  "frame_id (header_bytes n pid ty @ r) = pid"
proof -
  show "frame_length (header_bytes n pid ty @ r) = n mod 2 ^ 16"
    by (simp add: header_bytes_def frame_length_def put_UINT16_def of_le_le_bytes unat_of_nat)
qed (simp_all add: header_bytes_def frame_id_def put_UINT16_def of_nat_le_bytes_mod)

text \<open>A packet arrives in one piece, and the ring buffer is empty and large enough.\<close>

lemma receive_on_empty:
  assumes "pm_inv pm" and "i < length (pm_users pm)" and "slot_bytes pm i = []"
    and "length p \<le> BufferSize (mPacketDataBuffer (pm_users pm ! i))"
  shows "\<exists>rb. User_SetPacketData (pm_users pm ! i) (length p) (Some p) = Inr ((pm_users pm ! i)\<lparr>mPacketDataBuffer := rb\<rparr>) \<and>
    BufferSize rb = BufferSize (mPacketDataBuffer (pm_users pm ! i)) \<and>
    pm_inv (pm\<lparr>mUserManager := put_user (mUserManager pm) i ((pm_users pm ! i)\<lparr>mPacketDataBuffer := rb\<rparr>)\<rparr>) \<and>
    slot_bytes (pm\<lparr>mUserManager := put_user (mUserManager pm) i ((pm_users pm ! i)\<lparr>mPacketDataBuffer := rb\<rparr>)\<rparr>) i = p"
proof -
  let ?u = "pm_users pm ! i"
  have ui: "user_inv ?u" using pm_inv_user [OF assms(1,2)] by simp
  obtain rb where s: "User_SetPacketData ?u (length p) (Some p) = Inr (?u\<lparr>mPacketDataBuffer := rb\<rparr>)"
    "BufferSize rb = BufferSize (mPacketDataBuffer ?u)"
    "RingBuffer_list rb = user_bytes ?u @ take (user_free ?u) p"
    using SetPacketData_refines [OF ui refl] by blast
  have "length p \<le> user_free ?u"
    using assms(3,4) by (simp add: user_free_def slot_bytes_def flip: length_user_bytes)
  then have "RingBuffer_list rb = p" using s(3) assms(3) by (simp add: slot_bytes_def)
  then show ?thesis
    using s(1,2) receive_inv(1) [OF assms(1,2) s(1)] assms(2)
    by (intro exI [of _ rb]) (simp add: slot_bytes_def pm_users_def user_bytes_def)
qed

text \<open>\<open>pm\<close> is idle but for one task, and the ring buffer of its slot holds one packet.\<close>

lemma logic_to_handler:
  assumes "pm_inv pm" and "idle pm" and "i < length (pm_users pm)" and "slot_bytes pm i = p" and "wf_packet p"
  shows "\<exists>rb tb t pk. silent_step\<^sup>*\<^sup>*
      (pm\<lparr>mWriteBuffer := [\<lparr>clientIndex = i, generation = mGeneration (pm_users pm ! i)\<rparr>]\<rparr>, Waiting)
      (with_buffers pm i rb tb, Handling i pk []) \<and>
    deref (with_buffers pm i rb tb) (TempBuf i) = Inr (p @ t) \<and> slot_bytes (with_buffers pm i rb tb) i = [] \<and>
    BufferSize rb = BufferSize (mPacketDataBuffer (pm_users pm ! i)) \<and>
    pk = \<lparr>ClientIndex = 0, PacketId = ucast (frame_id p), DataSize = of_nat (length p), pDataPtr = TempBuf i\<rparr>"
proof -
  let ?u = "pm_users pm ! i" and ?t = "\<lparr>clientIndex = i, generation = mGeneration (pm_users pm ! i)\<rparr>"
  let ?B = "pm\<lparr>mWriteBuffer := [?t]\<rparr>" and ?C = "pm\<lparr>mReadBuffer := [?t]\<rparr>"
  have i: "i < length (mUserObjPool (mUserManager pm))" and u: "?u = mUserObjPool (mUserManager pm) ! i"
    using assms(3) by (simp_all add: pm_users_def)
  have "swap_buffers ?B = ?C" "mSystemReadBuffer ?C = []"
    using assms(2) by (simp_all add: swap_buffers_def idle_def)
  then have 1: "logic_step (?B, Waiting) (?C, Systems [])"
    using assms(2) logic_step.swap [of ?B] by (simp add: idle_def wake_up_def)
  have same: "?C\<lparr>mSystemReadBuffer := []\<rparr> = ?C"
    using assms(2) by (intro system_buffer_same) (simp add: idle_def)
  have 2: "logic_step (?C, Systems []) (?C, Tasks [?t])"
    using logic_step.systems_done [of ?C] unfolding same by simp
  have 3: "logic_step (?C, Tasks [?t]) (?C, InTask i [])"
    using i u logic_step.task_start [of ?C ?t ?u "[]"]
    by (simp add: UserManager_GetUserByConnIdx_def User_GetGeneration_def)
  have C: "pm_inv ?C" "i < length (pm_users ?C)" "p = slot_bytes ?C i"
    using assms(1,3,4) by (simp_all add: pm_inv_def pm_users_def slot_bytes_def)
  have p: "PACKET_HEADER_LENGTH \<le> length p" "frame_length p = length p" "frame_id p \<noteq> 0"
    using assms(5) by (simp_all add: wf_packet_def)
  let ?pk = "\<lparr>ClientIndex = 0, PacketId = ucast (frame_id p), DataSize = of_nat (length p), pDataPtr = TempBuf i\<rparr>"
  obtain pm1 t where g: "GetPacket_at ?C i = Inr (pm1, ?pk)" "deref pm1 (TempBuf i) = Inr (p @ t)"
    "task_frame i ?C pm1" "slot_bytes pm1 i = []"
    "\<exists>rb tb. pm1 = ?C\<lparr>mUserManager := put_user (mUserManager ?C) i
       ((pm_users ?C ! i)\<lparr>mPacketDataBuffer := rb, m_tempPacketBuffer := tb\<rparr>)\<rparr>"
    using GetPacket_at_complete [OF C] p by auto
  then obtain rb tb where "pm1 = ?C\<lparr>mUserManager := put_user (mUserManager ?C) i
       ((pm_users ?C ! i)\<lparr>mPacketDataBuffer := rb, m_tempPacketBuffer := tb\<rparr>)\<rparr>" by blast
  then have pm1: "pm1 = with_buffers pm i rb tb"
    by (simp add: with_buffers_def pm_users_def)
  have 4: "logic_step (?C, InTask i []) (pm1, Handling i ?pk [])"
    using g(1) p(3) by (intro logic_step.packet) simp_all
  have s: "sent pm1 = sent pm" by (simp add: pm1 with_buffers_def)
  have "silent_step (?B, Waiting) (?C, Systems [])" using 1 by (simp add: silent_step_def)
  then have "silent_step\<^sup>*\<^sup>* (?B, Waiting) (?C, Systems [])" ..
  moreover have "silent_step (?C, Systems []) (?C, Tasks [?t])" using 2 by (simp add: silent_step_def)
  ultimately have "silent_step\<^sup>*\<^sup>* (?B, Waiting) (?C, Tasks [?t])" by (rule rtranclp.rtrancl_into_rtrancl)
  moreover have "silent_step (?C, Tasks [?t]) (?C, InTask i [])" using 3 by (simp add: silent_step_def)
  ultimately have "silent_step\<^sup>*\<^sup>* (?B, Waiting) (?C, InTask i [])" by (rule rtranclp.rtrancl_into_rtrancl)
  moreover have "silent_step (?C, InTask i []) (pm1, Handling i ?pk [])" using 4 s by (simp add: silent_step_def)
  ultimately have "silent_step\<^sup>*\<^sup>* (?B, Waiting) (pm1, Handling i ?pk [])" by (rule rtranclp.rtrancl_into_rtrancl)
  moreover have "BufferSize rb = BufferSize (mPacketDataBuffer ?u)"
    using g(3) i by (simp add: task_frame_def pm1 with_buffers_def pm_users_def)
  ultimately show ?thesis using g(2,4) pm1 by blast
qed

text \<open>After the handler: nothing is left in the buffer, no response waits.\<close>

lemma logic_to_end:
  assumes "pm_inv pm" and "i < length (pm_users pm)"
    and "slot_bytes pm i = []" and "R_mResponseTask (mRedisManager pm) = []"
  shows "silent_step\<^sup>*\<^sup>* (pm, InTask i []) (pm\<lparr>mReadBuffer := []\<rparr>, Waiting)"
proof -
  let ?D = "pm\<lparr>mReadBuffer := []\<rparr>"
  have "GetPacket_at pm i = Inr (pm, PacketInfo_default)"
    using assms(3) by (intro GetPacket_at_incomplete [OF assms(1,2)]) (simp_all add: packet_consts)
  then have "logic_step (pm, InTask i []) (pm, Tasks [])"
    by (rule logic_step.no_packet) (simp add: PacketInfo_default_def)
  then have "silent_step (pm, InTask i []) (pm, Tasks [])" by (simp add: silent_step_def)
  then have "silent_step\<^sup>*\<^sup>* (pm, InTask i []) (pm, Tasks [])" ..
  moreover have "silent_step (pm, Tasks []) (?D, Responses)"
    by (simp add: silent_step_def logic_step.tasks_done)
  ultimately have R: "silent_step\<^sup>*\<^sup>* (pm, InTask i []) (?D, Responses)" by (rule rtranclp.rtrancl_into_rtrancl)
  have "take_response ?D = (RedisTask_default, ?D)"
    using assms(4) by (simp add: take_response_def RedisManager_TakeResponseTask_def)
  then have "logic_step (?D, Responses) (?D, Waiting)"
    by (rule logic_step.responses_done) (simp add: RedisTask_default_def)
  then have "silent_step (?D, Responses) (?D, Waiting)" by (simp add: silent_step_def)
  with R show ?thesis by (rule rtranclp.rtrancl_into_rtrancl)
qed

end
