(* ===== verification/DemoRun.thy ===== *)
theory DemoRun
  imports Demo LogicRun
begin

text \<open>
  A complete run of the step relation: a client connects its stream to slot 0, logs in through the
  Redis worker under the name \<open>alice\<close>, and enters room 0. The state it ends in is the example for the
  properties of all reachable states.
\<close>

section \<open>From bytes on the wire to the handler\<close>

lemma run_to_handler:
  assumes "reach (server_init mem n) (genuine_step g pad) (pm, Waiting)" and "idle pm" and "i < n"
    and "slot_bytes pm i = []" and "wf_packet p"
    and "length p \<le> BufferSize (mPacketDataBuffer (pm_users pm ! i))"
  shows "\<exists>rb tb t pk. reach (server_init mem n) (genuine_step g pad) (with_buffers pm i rb tb, Handling i pk []) \<and>
    deref (with_buffers pm i rb tb) (TempBuf i) = Inr (p @ t) \<and> slot_bytes (with_buffers pm i rb tb) i = [] \<and>
    BufferSize rb = BufferSize (mPacketDataBuffer (pm_users pm ! i)) \<and>
    pk = \<lparr>ClientIndex = 0, PacketId = ucast (frame_id p), DataSize = of_nat (length p), pDataPtr = TempBuf i\<rparr>"
proof -
  let ?R = "reach (server_init mem n) (genuine_step g pad)"
  let ?u = "pm_users pm ! i" and ?t = "\<lparr>clientIndex = i, generation = mGeneration (pm_users pm ! i)\<rparr>"
  have inv: "pm_inv pm" and len: "length (pm_users pm) = n"
    using nms.inv_reach [OF assms(1)] by (simp_all add: names_server_inv_def server_inv_def queues_ok_def)
  have i: "i < length (mUserObjPool (mUserManager pm))" and u: "?u = mUserObjPool (mUserManager pm) ! i"
    using assms(3) len by (simp_all add: pm_users_def)
  obtain rb1 where s: "User_SetPacketData ?u (length p) (Some p) = Inr (?u\<lparr>mPacketDataBuffer := rb1\<rparr>)"
    "BufferSize rb1 = BufferSize (mPacketDataBuffer ?u)"
    "pm_inv (pm\<lparr>mUserManager := put_user (mUserManager pm) i (?u\<lparr>mPacketDataBuffer := rb1\<rparr>)\<rparr>)"
    "slot_bytes (pm\<lparr>mUserManager := put_user (mUserManager pm) i (?u\<lparr>mPacketDataBuffer := rb1\<rparr>)\<rparr>) i = p"
    using receive_on_empty [OF inv _ assms(4,6)] assms(3) len by blast
  let ?A = "pm\<lparr>mUserManager := put_user (mUserManager pm) i (?u\<lparr>mPacketDataBuffer := rb1\<rparr>)\<rparr>"
  let ?B = "?A\<lparr>mWriteBuffer := [?t]\<rparr>"
  have "env_step g pad pm ?A"
    using len assms(3) s(1) by (intro env_step.receive) simp_all
  then have RA: "?R (?A, Waiting)"
    using assms(1) by (auto intro: reach_step simp: genuine_step_def server_step.simps)
  have "env_step g pad ?A ?B"
    using assms(2) i u by (intro env_step.enqueue [where i = i])
      (simp add: PacketManager_EnqueuePacketData_def UserManager_GetUserByConnIdx_def
        User_GetGeneration_def idle_def)
  then have RB: "?R (?B, Waiting)"
    using RA by (auto intro: reach_step simp: genuine_step_def server_step.simps)
  have B: "?B = ?A\<lparr>mWriteBuffer := [\<lparr>clientIndex = i, generation = mGeneration (pm_users ?A ! i)\<rparr>]\<rparr>"
    using i u by (simp add: pm_users_def)
  have "idle ?A" using assms(2) by (simp add: idle_def)
  then obtain rb tb t pk where g: "silent_step\<^sup>*\<^sup>* (?B, Waiting) (with_buffers ?A i rb tb, Handling i pk [])"
    "deref (with_buffers ?A i rb tb) (TempBuf i) = Inr (p @ t)" "slot_bytes (with_buffers ?A i rb tb) i = []"
    "BufferSize rb = BufferSize (mPacketDataBuffer (pm_users ?A ! i))"
    "pk = \<lparr>ClientIndex = 0, PacketId = ucast (frame_id p), DataSize = of_nat (length p), pDataPtr = TempBuf i\<rparr>"
    using logic_to_handler [OF s(3), of i p] s(4) i assms(5) unfolding B by (auto simp: pm_users_def)
  have "with_buffers ?A i rb tb = with_buffers pm i rb tb" "BufferSize rb = BufferSize (mPacketDataBuffer ?u)"
    using g(4) i u s(2) by (simp_all add: with_buffers_def pm_users_def)
  then show ?thesis using silent_genuine [OF g(1) RB] g(2,3,5) by metis
qed

text \<open>After the handler: nothing is left in the buffer, no response waits.\<close>

lemma run_to_end:
  assumes "reach (server_init mem n) (genuine_step g pad) (pm, InTask i [])" and "i < n"
    and "slot_bytes pm i = []" and "R_mResponseTask (mRedisManager pm) = []"
  shows "reach (server_init mem n) (genuine_step g pad) (pm\<lparr>mReadBuffer := []\<rparr>, Waiting)"
proof -
  have "pm_inv pm" and "length (pm_users pm) = n"
    using nms.inv_reach [OF assms(1)] by (simp_all add: names_server_inv_def server_inv_def queues_ok_def)
  then have "silent_step\<^sup>*\<^sup>* (pm, InTask i []) (pm\<lparr>mReadBuffer := []\<rparr>, Waiting)"
    using assms(2-4) by (intro logic_to_end) simp_all
  then show ?thesis using silent_genuine assms(1) by blast
qed

section \<open>alice\<close>

definition demo_get :: "byte list \<Rightarrow> byte list option" where
  "demo_get key = (if key = alice then Some [112] else None)"

definition demo_login_packet :: "byte list" where
  "demo_login_packet = login_request_bytes 0 alice [112]"

definition demo_enter_packet :: "byte list" where
  "demo_enter_packet = room_enter_request_bytes 0 0"

lemma demo_login_packet_facts:
  "length demo_login_packet = 71" "wf_packet demo_login_packet"
  "frame_id demo_login_packet = packet_id_val LOGIN_REQUEST"
  "drop 5 demo_login_packet = char_field 33 alice @ char_field 33 [112]"
proof -
  show l: "length demo_login_packet = 71" and "drop 5 demo_login_packet = char_field 33 alice @ char_field 33 [112]"
    and f: "frame_id demo_login_packet = packet_id_val LOGIN_REQUEST"
    by (simp_all add: demo_login_packet_def login_request_bytes_def header_bytes_facts)
  have "frame_length demo_login_packet = 71"
    by (simp add: demo_login_packet_def login_request_bytes_def header_bytes_facts)
  then show "wf_packet demo_login_packet" using l f by (simp add: wf_packet_def packet_consts)
qed

lemma demo_enter_packet_facts:
  "length demo_enter_packet = 9" "wf_packet demo_enter_packet"
  "frame_id demo_enter_packet = packet_id_val ROOM_ENTER_REQUEST"
proof -
  show l: "length demo_enter_packet = 9" and f: "frame_id demo_enter_packet = packet_id_val ROOM_ENTER_REQUEST"
    by (simp_all add: demo_enter_packet_def room_enter_request_bytes_def header_bytes_facts)
  have "frame_length demo_enter_packet = 9"
    by (simp add: demo_enter_packet_def room_enter_request_bytes_def header_bytes_facts)
  then show "wf_packet demo_enter_packet" using l f by (simp add: wf_packet_def packet_consts)
qed

lemma with_buffers_fields [simp]:
  "mUserIDDictionary (mUserManager (with_buffers pm i rb tb)) = mUserIDDictionary (mUserManager pm)"
  "mCurrentUserCnt (mUserManager (with_buffers pm i rb tb)) = mCurrentUserCnt (mUserManager pm)"
  "mMaxUserCnt (mUserManager (with_buffers pm i rb tb)) = mMaxUserCnt (mUserManager pm)"
  "mRedisManager (with_buffers pm i rb tb) = mRedisManager pm"
  "mRoomManager (with_buffers pm i rb tb) = mRoomManager pm"
  "length (pm_users (with_buffers pm i rb tb)) = length (pm_users pm)"
  "sent (with_buffers pm i rb tb) = sent pm" "clock (with_buffers pm i rb tb) = clock pm"
  "mIsRunProcessThread (with_buffers pm i rb tb) = mIsRunProcessThread pm"
  "mSystemWriteBuffer (with_buffers pm i rb tb) = mSystemWriteBuffer pm"
  "mSystemReadBuffer (with_buffers pm i rb tb) = mSystemReadBuffer pm"
  "mWriteBuffer (with_buffers pm i rb tb) = mWriteBuffer pm"
  by (simp_all add: with_buffers_def pm_users_def)

lemma with_buffers_user [simp]:
  "i < length (pm_users pm) \<Longrightarrow> pm_users (with_buffers pm i rb tb) ! i =
     (pm_users pm ! i)\<lparr>mPacketDataBuffer := rb, m_tempPacketBuffer := tb\<rparr>"
  by (simp add: with_buffers_def pm_users_def)

abbreviation demo_R :: "server \<Rightarrow> bool" where
  "demo_R \<equiv> reach (server_init demo_mem 2) (genuine_step demo_get (\<lambda>_. 0))"

definition demo_start :: PacketManager where
  "demo_start = snd (PacketManager_Run (demo 2))"

lemma demo_start_eq:
  "mUserManager demo_start = mUserManager (demo 2)" "mRoomManager demo_start = RoomManager_Init 0 250 8"
  "R_mRequestTask (mRedisManager demo_start) = []" "R_mResponseTask (mRedisManager demo_start) = []"
  "sent demo_start = []" "idle demo_start"
  by (simp_all add: demo_start_def PacketManager_Run_def Let_def idle_def RedisManager_Run_def
      RedisManager_new_def MySQLManager_Run_def split: prod.splits)

text \<open>The request is in the worker's queue, the logic thread waits again.\<close>

lemma demo_requested:
  "\<exists>rb tb. demo_R ((with_buffers demo_start 0 rb tb)\<lparr>mRedisManager :=
        RedisManager_PushTask (mRedisManager demo_start)
          (login_request_task 0 (char_field 33 alice @ char_field 33 [112])), mReadBuffer := []\<rparr>, Waiting) \<and>
    slot_bytes (with_buffers demo_start 0 rb tb) 0 = [] \<and> BufferSize rb = 8096"
proof -
  have users: "pm_users demo_start = pm_users (demo 2)" by (simp add: pm_users_def demo_start_eq)
  have R0: "demo_R (demo_start, Waiting)"
    by (rule reach_init) (simp add: server_init_def demo_start_def demo_def)
  obtain rb tb t pk where h: "demo_R (with_buffers demo_start 0 rb tb, Handling 0 pk [])"
    "deref (with_buffers demo_start 0 rb tb) (TempBuf 0) = Inr (demo_login_packet @ t)"
    "slot_bytes (with_buffers demo_start 0 rb tb) 0 = []" "BufferSize rb = 8096"
    "pk = \<lparr>ClientIndex = 0, PacketId = ucast (frame_id demo_login_packet),
       DataSize = of_nat (length demo_login_packet), pDataPtr = TempBuf 0\<rparr>"
    using run_to_handler [OF R0 demo_start_eq(6), of 0 demo_login_packet] users demo_login_packet_facts
    by (auto simp: slot_bytes_def)
  let ?pm = "with_buffers demo_start 0 rb tb" and ?mem = "demo_login_packet @ t"
  have mem: "?mem = header_bytes 71 (packet_id_val LOGIN_REQUEST) 0 @ char_field 33 alice @ char_field 33 [112] @ t"
    by (simp add: demo_login_packet_def login_request_bytes_def)
  have d5: "drop off_UserID ?mem = char_field 33 alice @ char_field 33 [112] @ t"
    unfolding mem by (simp add: packet_consts)
  have nt: "\<not> is_test_user (drop off_UserID ?mem)"
    unfolding d5 by (simp add: is_test_user_def char_field_def alice_def bytes_of_string_def)
  have uid: "c_str (drop off_UserID ?mem) = Inr alice"
    unfolding d5 by (rule c_str_char_field) simp_all
  have inv: "pm_inv ?pm" using nms.inv_reach [OF h(1)] by (simp add: names_server_inv_def server_inv_def)
  have fields: "login_fields ?mem = char_field 33 alice @ char_field 33 [112]"
    unfolding mem by (simp add: login_fields_def packet_consts)
  have "ProcessLogin ?pm 0 71 (TempBuf 0) = Inr (login_branch ?pm 0 alice ?mem)"
    using demo_login_packet_facts(1) by (intro Login_ordinary [OF inv h(2) _ uid nt]) simp
  then have rec: "recv ?pm 0 pk = Inr (?pm\<lparr>mRedisManager := RedisManager_PushTask (mRedisManager demo_start)
      (login_request_task 0 (char_field 33 alice @ char_field 33 [112]))\<rparr>)"
    unfolding h(5) recv_frame
    using demo_login_packet_facts(1,3)
    by (simp add: ProcessRecvPacket_def mPacketHandlers_def login_branch_def fields demo_start_eq)
  let ?pm2 = "?pm\<lparr>mRedisManager := RedisManager_PushTask (mRedisManager demo_start)
      (login_request_task 0 (char_field 33 alice @ char_field 33 [112]))\<rparr>"
  have "no_test_login (?pm, Handling 0 pk [])"
    using h(2,5) nt demo_login_packet_facts(3) by (simp add: login_admitted_def)
  then have "genuine_step demo_get (\<lambda>_. 0) (?pm, Handling 0 pk []) (?pm2, InTask 0 [])"
    using logic_step.handle [OF rec] by (auto simp: genuine_step_def server_step.simps)
  then have "demo_R (?pm2, InTask 0 [])" using h(1) by (rule reach_step [rotated])
  then have "demo_R (?pm2\<lparr>mReadBuffer := []\<rparr>, Waiting)"
    by (rule run_to_end)
      (use h(3) demo_start_eq(4) in \<open>simp_all add: slot_bytes_def pm_users_def RedisManager_PushTask_def\<close>)
  then show ?thesis using h(3,4) by blast
qed

text \<open>The worker answers, and the logic thread takes the answer.\<close>

lemma run_response:
  assumes "reach (server_init mem n) (genuine_step g pad) (pm, Waiting)" and "idle pm"
    and "R_mResponseTask (mRedisManager pm) = [r]" and "R_TaskID r \<noteq> RT_INVALID"
    and "handle_response (pm\<lparr>mRedisManager := (mRedisManager pm)\<lparr>R_mResponseTask := []\<rparr>\<rparr>) r = Inr pm2"
    and "R_mResponseTask (mRedisManager pm2) = []"
  shows "reach (server_init mem n) (genuine_step g pad) (pm2, Waiting)"
proof -
  let ?R = "reach (server_init mem n) (genuine_step g pad)"
  have step: "?R s'" if "?R (q, c)" "logic_step (q, c) s'" "no_test_login (q, c)" for q c s'
    using that by (auto intro: reach_step simp: genuine_step_def server_step.simps)
  have same: "pm\<lparr>mSystemReadBuffer := []\<rparr> = pm" "pm\<lparr>mReadBuffer := []\<rparr> = pm" "swap_buffers pm = pm"
    using assms(2) by (cases pm; simp add: idle_def swap_buffers_def)+
  have "logic_step (pm, Waiting) (pm, Systems [])"
    using logic_step.swap [of pm] assms(2,3) unfolding same
    by (simp add: idle_def wake_up_def RedisManager_HasResponseTask_def)
  with assms(1) have "?R (pm, Systems [])" by (rule step) simp
  moreover have "logic_step (pm, Systems []) (pm, Tasks [])"
    using logic_step.systems_done [of pm] assms(2) unfolding same by (simp add: idle_def)
  ultimately have "?R (pm, Tasks [])" by (rule step) simp
  moreover have "logic_step (pm, Tasks []) (pm, Responses)"
    using logic_step.tasks_done [of pm] unfolding same .
  ultimately have "?R (pm, Responses)" by (rule step) simp
  moreover have "logic_step (pm, Responses) (pm2, Responses)"
    using assms(3-5) by (intro logic_step.response [where t = r])
      (simp_all add: take_response_def RedisManager_TakeResponseTask_def)
  ultimately have "?R (pm2, Responses)" by (rule step) simp
  moreover have "logic_step (pm2, Responses) (pm2, Waiting)"
    using assms(6) by (intro logic_step.responses_done [where t = RedisTask_default])
      (simp_all add: take_response_def RedisManager_TakeResponseTask_def, simp add: RedisTask_default_def)
  ultimately show ?thesis by (rule step) simp
qed

text \<open>alice is logged in.\<close>

definition demo_in :: "DOMAIN_STATE \<Rightarrow> PacketManager \<Rightarrow> bool" where
  "demo_in st pm \<longleftrightarrow> demo_R (pm, Waiting) \<and> idle pm \<and> length (pm_users pm) = 2 \<and> slot_bytes pm 0 = [] \<and>
     mUserID (pm_users pm ! 0) = alice \<and> mCurDomainState (pm_users pm ! 0) = st \<and>
     BufferSize (mPacketDataBuffer (pm_users pm ! 0)) = 8096 \<and> R_mResponseTask (mRedisManager pm) = []"

lemma demo_inI:
  assumes "demo_R (pm, Waiting)" and "idle pm" and "pm_users pm = us[0 := u]" and "length us = 2"
    and "slot_bytes pm 0 = []" and "R_mResponseTask (mRedisManager pm) = []"
    and "mUserID u = alice" "mCurDomainState u = st" "BufferSize (mPacketDataBuffer u) = 8096"
  shows "demo_in st pm"
  using assms by (simp add: demo_in_def)

text \<open>The turn of the worker that answers the request.\<close>

abbreviation demo_answer :: RedisTask where
  "demo_answer \<equiv> \<lparr>R_UserIndex = 0, R_TaskID = RESPONSE_LOGIN, R_DataSize = RedisLoginRes_size,
     R_pData = Some (RedisLoginRes_bytes (\<lambda>_. 0) 0 alice)\<rparr>"

lemma demo_turn:
  assumes "mRedisManager pm = RedisManager_PushTask (mRedisManager demo_start)
    (login_request_task 0 (char_field 33 alice @ char_field 33 [112]))"
  shows "Redis_turn demo_get (\<lambda>_. 0) (mRedisManager pm) =
    Inr (Continue ((mRedisManager demo_start)\<lparr>R_mRequestTask := [], R_mResponseTask := [demo_answer]\<rparr>))"
proof -
  let ?req = "login_request_task 0 (char_field 33 alice @ char_field 33 [112])"
  have "redis_verdict demo_get alice [112] = EC_NONE" by (simp add: redis_verdict_def demo_get_def)
  then have "Redis_login_response demo_get (\<lambda>_. 0) ?req = Inr demo_answer"
    using Redis_login_response_ok [of alice "[112]" demo_get "\<lambda>_. 0" 0] by (simp add: packet_consts)
  then show ?thesis
    by (simp add: assms Redis_turn_def Redis_take_front_def RedisManager_PushTask_def demo_start_eq
        RedisManager_PushResponse_def login_request_task_def)
qed

lemma demo_logged:
  "\<exists>pm. demo_in DS_LOGIN pm \<and> mRoomManager pm = RoomManager_Init 0 250 8 \<and>
    sent pm = [(0, 7, LOGIN_RESPONSE_PACKET 0)]"
proof -
  have users: "pm_users demo_start = pm_users (demo 2)" by (simp add: pm_users_def demo_start_eq)
  let ?req = "login_request_task 0 (char_field 33 alice @ char_field 33 [112])"
  let ?red = "mRedisManager demo_start"
  obtain rb tb where r: "demo_R ((with_buffers demo_start 0 rb tb)\<lparr>mRedisManager :=
        RedisManager_PushTask ?red ?req, mReadBuffer := []\<rparr>, Waiting)" (is "demo_R (?pm, _)")
    "slot_bytes (with_buffers demo_start 0 rb tb) 0 = []" "BufferSize rb = 8096"
    using demo_requested by blast
  let ?body = "RedisLoginRes_bytes (\<lambda>_. 0) 0 alice"
  let ?res = "\<lparr>R_UserIndex = 0, R_TaskID = RESPONSE_LOGIN, R_DataSize = RedisLoginRes_size, R_pData = Some ?body\<rparr>"
  have turn: "Redis_turn demo_get (\<lambda>_. 0) (mRedisManager ?pm) =
      Inr (Continue (?red\<lparr>R_mRequestTask := [], R_mResponseTask := [?res]\<rparr>))"
    by (rule demo_turn) simp
  let ?pm1 = "?pm\<lparr>mRedisManager := ?red\<lparr>R_mRequestTask := [], R_mResponseTask := [?res]\<rparr>\<rparr>"
  have run: "demo_R (?pm1, Waiting)"
    using r(1) env_step.redis [OF turn]
    by (auto intro: reach_step simp: genuine_step_def server_step.simps)
  let ?pm0 = "?pm1\<lparr>mRedisManager := (mRedisManager ?pm1)\<lparr>R_mResponseTask := []\<rparr>\<rparr>"
  have idle1: "idle ?pm1" using demo_start_eq(6) by (simp add: idle_def)
  have resp: "R_mResponseTask (mRedisManager ?pm1) = [?res]" "R_TaskID ?res \<noteq> RT_INVALID" by simp_all
  note fin = run_response [OF run idle1 resp]
  have same: "pm_users ?pm0 = pm_users (with_buffers demo_start 0 rb tb)" by (simp add: pm_users_def)
  have f: "length (pm_users ?pm0) = 2" "0 < length (pm_users ?pm0)"
    "pm_users ?pm0 ! 0 = (demo_user 0)\<lparr>mPacketDataBuffer := rb, m_tempPacketBuffer := tb\<rparr>"
    "mUserIDDictionary (mUserManager ?pm0) alice = None" "deref ?pm0 (HeapBuf ?body) = Inr ?body"
    unfolding same using users demo_start_eq by (simp_all add: deref_def)
  have uid: "name_ok alice" by simp
  let ?um = "put_user (mUserManager ?pm0\<lparr>mUserIDDictionary :=
      (mUserIDDictionary (mUserManager ?pm0))(alice \<mapsto> int 0)\<rparr>) 0
      ((pm_users ?pm0 ! 0)\<lparr>mCurDomainState := DS_LOGIN, mUserID := alice\<rparr>)"
  let ?pm2 = "pm_send (push_activity (?pm0\<lparr>mUserManager := UserManager_IncreaseUserCnt ?um\<rparr>) 0
    (LoginActivity alice (clock ?pm0))) 0 (LOGIN_RESPONSE_PACKET (error_val EC_NONE))"
  have "ProcessLoginDBResult ?pm0 0 sz (HeapBuf ?body) = Inr ?pm2" for sz
    by (rule DBResult_logged_in [OF f(2,5) Redis_answer_fields(1,2) [OF uid] uid f(4)])
  then have "handle_response ?pm0 ?res = Inr ?pm2"
    by (simp add: handle_response_def ProcessRecvPacket_def mPacketHandlers_def response_ptr_def)
  then have "demo_R (?pm2, Waiting)" by (rule fin) (simp add: pm_send_def push_activity_def)
  moreover have "idle ?pm2" using idle1 by (simp add: idle_def pm_send_def push_activity_def)
  moreover have "pm_users ?pm2 = (pm_users ?pm0)[0 := (pm_users ?pm0 ! 0)\<lparr>mCurDomainState := DS_LOGIN, mUserID := alice\<rparr>]"
    by (simp add: pm_users_def)
  moreover note f(1)
  moreover have "slot_bytes ?pm2 0 = []"
    using r(2) f(2) by (simp add: slot_bytes_def pm_send_def push_activity_def pm_users_def user_bytes_def)
  ultimately have "demo_in DS_LOGIN ?pm2"
    by (rule demo_inI) (simp_all only: f(3), simp_all add: r(3))
  moreover have "mRoomManager ?pm2 = RoomManager_Init 0 250 8" by (simp add: demo_start_eq)
  moreover have "sent ?pm2 = [(0, 7, LOGIN_RESPONSE_PACKET 0)]" by (simp add: demo_start_eq packet_consts)
  ultimately show ?thesis by blast
qed

text \<open>alice is in room 0.\<close>

lemma demo_entered:
  "\<exists>pm. demo_in DS_ROOM pm \<and> roomIndex (pm_users pm ! 0) = 0 \<and>
    sent pm = [(0, 7, LOGIN_RESPONSE_PACKET 0), (0, 295, ROOM_CHAT_NOTIFY_PACKET alice entered_msg),
      (0, 7, ROOM_ENTER_RESPONSE_PACKET 0)]"
proof -
  obtain pm where p: "demo_in DS_LOGIN pm" "mRoomManager pm = RoomManager_Init 0 250 8"
    "sent pm = [(0, 7, LOGIN_RESPONSE_PACKET 0)]"
    using demo_logged by blast
  have p0: "demo_R (pm, Waiting)" "idle pm" "length (pm_users pm) = 2" "slot_bytes pm 0 = []"
    "mUserID (pm_users pm ! 0) = alice" "mCurDomainState (pm_users pm ! 0) = DS_LOGIN"
    "BufferSize (mPacketDataBuffer (pm_users pm ! 0)) = 8096" "R_mResponseTask (mRedisManager pm) = []"
    using p(1) by (simp_all add: demo_in_def)
  obtain rb tb t pk where h: "demo_R (with_buffers pm 0 rb tb, Handling 0 pk [])"
    "deref (with_buffers pm 0 rb tb) (TempBuf 0) = Inr (demo_enter_packet @ t)"
    "slot_bytes (with_buffers pm 0 rb tb) 0 = []" "BufferSize rb = 8096"
    "pk = \<lparr>ClientIndex = 0, PacketId = ucast (frame_id demo_enter_packet),
       DataSize = of_nat (length demo_enter_packet), pDataPtr = TempBuf 0\<rparr>"
    using run_to_handler [OF p0(1,2) _ p0(4), of demo_enter_packet] p0(7) demo_enter_packet_facts by auto
  let ?q = "with_buffers pm 0 rb tb"
  have inv: "pm_inv ?q" using nms.inv_reach [OF h(1)] by (simp add: names_server_inv_def server_inv_def)
  have u: "0 < length (pm_users ?q)" "mCurDomainState (pm_users ?q ! 0) = DS_LOGIN"
    "mUserID (pm_users ?q ! 0) = alice" "name_ok (mUserID (pm_users ?q ! 0))"
    "BufferSize (mPacketDataBuffer (pm_users ?q ! 0)) = 8096"
    using p0 h(4) by simp_all
  have room: "ROOM_ENTER_REQUEST_RoomNumber (demo_enter_packet @ t) = Inr 0"
    unfolding demo_enter_packet_def by (rule room_enter_request_RoomNumber) simp_all
  have k: "RoomManager_GetRoomByNumber (mRoomManager ?q) 0 = Some 0"
    "mCurrentUserCount (mRoomList (mRoomManager ?q) ! 0) < mMaxUserCount (mRoomList (mRoomManager ?q) ! 0)"
    "mUserList (mRoomList (mRoomManager ?q) ! 0) = []"
    using p(2) by (simp_all add: Room_Init_def Room_new_def)
  let ?q2 = "pm_send (send_all (push_activity
      (?q\<lparr>mRoomManager := put_room (mRoomManager ?q) 0 (entered (mRoomList (mRoomManager ?q) ! 0) 0),
          mUserManager := put_user (mUserManager ?q) 0 (User_EnterRoom (pm_users ?q ! 0) 0)\<rparr>) 0
      (RoomActivity (mUserID (pm_users ?q ! 0)) 0 ENTER (clock ?q)))
      (notify_all (mUserList (mRoomList (mRoomManager ?q) ! 0) @ [0]) (mUserID (pm_users ?q ! 0)) entered_msg))
      0 (ROOM_ENTER_RESPONSE_PACKET (error_val EC_NONE))"
  have "ProcessEnterRoom ?q 0 sz (TempBuf 0) = Inr ?q2" for sz
    by (rule EnterRoom_success [OF inv u(1,2,4) h(2) room k(1,2)])
  then have rec: "recv ?q 0 pk = Inr ?q2"
    unfolding h(5) recv_frame
    using demo_enter_packet_facts by (simp add: ProcessRecvPacket_def mPacketHandlers_def)
  have "no_test_login (?q, Handling 0 pk [])"
    using h(5) demo_enter_packet_facts by (simp add: login_admitted_def)
  then have "genuine_step demo_get (\<lambda>_. 0) (?q, Handling 0 pk []) (?q2, InTask 0 [])"
    using logic_step.handle [OF rec] by (auto simp: genuine_step_def server_step.simps)
  with h(1) have "demo_R (?q2, InTask 0 [])" by (rule reach_step)
  moreover have s: "slot_bytes ?q2 0 = []"
    using h(3) u(1) by (simp add: slot_bytes_def pm_users_def user_bytes_def User_EnterRoom_def
      pm_send_def send_all_def push_activity_def)
  moreover have resp: "R_mResponseTask (mRedisManager ?q2) = []" using p0(8) by simp
  ultimately have R: "demo_R (?q2\<lparr>mReadBuffer := []\<rparr>, Waiting)" by (intro run_to_end) simp_all
  have idle: "idle (?q2\<lparr>mReadBuffer := []\<rparr>)"
    using p0(2) by (simp add: idle_def pm_send_def send_all_def push_activity_def)
  have us: "pm_users (?q2\<lparr>mReadBuffer := []\<rparr>) = (pm_users ?q)[0 := User_EnterRoom (pm_users ?q ! 0) 0]"
    by (simp add: pm_users_def)
  have len: "length (pm_users ?q) = 2" using p0(3) by simp
  have "slot_bytes (?q2\<lparr>mReadBuffer := []\<rparr>) 0 = []" "R_mResponseTask (mRedisManager (?q2\<lparr>mReadBuffer := []\<rparr>)) = []"
    using s resp by (simp_all add: slot_bytes_def pm_users_def)
  then have "demo_in DS_ROOM (?q2\<lparr>mReadBuffer := []\<rparr>)"
    by (rule demo_inI [OF R idle us len]) (use u in \<open>simp_all add: User_EnterRoom_def\<close>)
  moreover have "roomIndex (pm_users (?q2\<lparr>mReadBuffer := []\<rparr>) ! 0) = 0"
    unfolding us using len by (simp add: User_EnterRoom_def)
  moreover have "sent (?q2\<lparr>mReadBuffer := []\<rparr>) = [(0, 7, LOGIN_RESPONSE_PACKET 0),
      (0, 295, ROOM_CHAT_NOTIFY_PACKET alice entered_msg), (0, 7, ROOM_ENTER_RESPONSE_PACKET 0)]"
    using p(3) u(3) k(3) by (simp add: notify_all_def packet_consts)
  ultimately show ?thesis by blast
qed

text \<open>The same run, as a run of all steps.\<close>

lemma demo_reached:
  "\<exists>pm. reach (server_init demo_mem 2) (server_step demo_get (\<lambda>_. 0)) (pm, Waiting) \<and>
    demo_R (pm, Waiting) \<and> length (pm_users pm) = 2 \<and> mUserID (pm_users pm ! 0) = alice \<and>
    mCurDomainState (pm_users pm ! 0) = DS_ROOM \<and> roomIndex (pm_users pm ! 0) = 0 \<and>
    (0, 7, ROOM_ENTER_RESPONSE_PACKET 0) \<in> set (sent pm)"
proof -
  obtain pm where p: "demo_in DS_ROOM pm" "roomIndex (pm_users pm ! 0) = 0"
    "(0, 7, ROOM_ENTER_RESPONSE_PACKET 0) \<in> set (sent pm)"
    using demo_entered by auto
  then have R: "demo_R (pm, Waiting)" by (simp add: demo_in_def)
  have "reach (server_init demo_mem 2) (server_step demo_get (\<lambda>_. 0)) (pm, Waiting)"
    using R by (rule reach_mono) (simp add: genuine_step_def)
  then show ?thesis using p R by (auto simp: demo_in_def)
qed

end
