(* ===== verification/CondVar.thy ===== *)
theory CondVar
  imports Prelude
begin

text \<open>
  A thread that waits on a condition variable, \<open>cv.wait(lock, predicate)\<close>, among the threads that
  change what the predicate reads. The wait is the three steps the standard library gives it: the predicate is
  tested while the lock is held, the thread goes to sleep and releases the lock, a notification (or, where
  \<open>spurious\<close> allows it, nothing) ends the sleep and the predicate is tested again. Other threads change
  the state with the lock held or without it, and call \<open>notify_one\<close> or \<open>notify_all\<close> afterwards.
\<close>

section \<open>The steps\<close>

text \<open>\<open>Tested\<close>: the predicate was false, the lock is still held. \<open>Asleep\<close>: the lock is released.\<close>

datatype phase = Working | Tested | Asleep

text \<open>With one thread that waits \<open>notify_one\<close> and \<open>notify_all\<close> are the same; a call is lost unless the thread sleeps.\<close>

definition notify_one :: "phase \<Rightarrow> phase" where
  "notify_one w = (if w = Asleep then Working else w)"

text \<open>
  What the threads may do to the state: \<open>mon_idle\<close> are the states in which the thread stands at its wait and
  the predicate is false; \<open>mon_work\<close> the steps of the thread itself outside the wait; then the changes of the other
  threads, under the lock and with a notification after it, without the lock and with a notification after
  it, and without a notification.
\<close>

record 's monitor =
  mon_idle :: "'s \<Rightarrow> bool"
  mon_work :: "'s \<Rightarrow> 's \<Rightarrow> bool"
  mon_locked :: "'s \<Rightarrow> 's \<Rightarrow> bool"
  mon_unlocked :: "'s \<Rightarrow> 's \<Rightarrow> bool"
  mon_silent :: "'s \<Rightarrow> 's \<Rightarrow> bool"

text \<open>The number counts the threads that have changed the state and not yet notified.\<close>

type_synonym 's cv_state = "'s \<times> phase \<times> nat"

inductive cv_step :: "'s monitor \<Rightarrow> bool \<Rightarrow> 's cv_state \<Rightarrow> 's cv_state \<Rightarrow> bool" for M spurious where
  cv_work: "mon_work M s s' \<Longrightarrow> cv_step M spurious (s, Working, n) (s', Working, n)"
| cv_test: "mon_idle M s \<Longrightarrow> cv_step M spurious (s, Working, n) (s, Tested, n)"
| cv_sleep: "cv_step M spurious (s, Tested, n) (s, Asleep, n)"
| cv_locked: "mon_locked M s s' \<Longrightarrow> w \<noteq> Tested \<Longrightarrow> cv_step M spurious (s, w, n) (s', w, Suc n)"
| cv_unlocked: "mon_unlocked M s s' \<Longrightarrow> cv_step M spurious (s, w, n) (s', w, Suc n)"
| cv_silent: "mon_silent M s s' \<Longrightarrow> cv_step M spurious (s, w, n) (s', w, n)"
| cv_notify: "cv_step M spurious (s, w, Suc n) (s, notify_one w, n)"
| cv_spurious: "spurious \<Longrightarrow> cv_step M spurious (s, Asleep, n) (s, Working, n)"

inductive_cases cv_stepE: "cv_step M spurious (s, w, n) t"
inductive_simps cv_step_Asleep: "cv_step M spurious (s, Asleep, 0) t"

definition cv_start :: "('s \<Rightarrow> bool) \<Rightarrow> 's cv_state \<Rightarrow> bool" where
  "cv_start init t \<longleftrightarrow> (case t of (s, w, n) \<Rightarrow> init s \<and> w = Working \<and> n = 0)"

text \<open>Any change of the state by any thread, the wait forgotten.\<close>

definition mon_step :: "'s monitor \<Rightarrow> 's \<Rightarrow> 's \<Rightarrow> bool" where
  "mon_step M s s' \<longleftrightarrow> mon_work M s s' \<or> mon_locked M s s' \<or> mon_unlocked M s s' \<or> mon_silent M s s'"

section \<open>The wait adds no behaviour and takes none away\<close>

lemma cv_step_sound: "cv_step M spurious (s, w, n) (s', w', n') \<Longrightarrow> s' = s \<or> mon_step M s s'"
  by (erule cv_stepE) (auto simp: mon_step_def)

lemma cv_reach_sound: "reach (cv_start init) (cv_step M spurious) t \<Longrightarrow> reach init (mon_step M) (fst t)"
proof (induction rule: reach.induct)
  case (reach_init t)
  then show ?case by (auto simp: cv_start_def intro: reach.reach_init)
next
  case (reach_step t u)
  obtain s w n s' w' n' where tu: "t = (s, w, n)" "u = (s', w', n')" by (cases t, cases u)
  then have "s' = s \<or> mon_step M s s'" using reach_step(2) cv_step_sound by simp
  then show ?case using reach_step(3) tu by (auto intro: reach.reach_step)
qed

text \<open>Each thread notifies as soon as it has changed the state.\<close>

lemma cv_reach_complete: "reach init (mon_step M) s \<Longrightarrow> reach (cv_start init) (cv_step M spurious) (s, Working, 0)"
proof (induction rule: reach.induct)
  case (reach_init s)
  then show ?case by (auto simp: cv_start_def intro: reach.reach_init)
next
  case (reach_step s s')
  have notified: ?case if "cv_step M spurious (s, Working, 0) (s', Working, Suc 0)"
    using reach.reach_step [OF reach.reach_step [OF reach_step(3) that]] cv_notify [of M spurious s' Working 0]
    by (simp add: notify_one_def)
  show ?case
    using reach_step notified by (auto simp: mon_step_def intro: reach.reach_step cv_step.intros)
qed

section \<open>Changes under the lock are never missed\<close>

text \<open>
  \<open>reason\<close> is a reason to wake up that only changes under the lock can bring about: the thread never sleeps
  on it unless a notification is still on its way.
\<close>

locale locked_reason =
  fixes M :: "'s monitor" and reason :: "'s \<Rightarrow> bool"
  assumes idle_no_reason: "mon_idle M s \<Longrightarrow> \<not> reason s"
    and unlocked_no_reason: "mon_unlocked M s s' \<Longrightarrow> reason s' \<Longrightarrow> reason s"
    and silent_no_reason: "mon_silent M s s' \<Longrightarrow> reason s' \<Longrightarrow> reason s"
begin

definition wait_inv :: "'s cv_state \<Rightarrow> bool" where
  "wait_inv t \<longleftrightarrow> (case t of (s, w, n) \<Rightarrow>
     (w = Tested \<longrightarrow> \<not> reason s) \<and> (w = Asleep \<and> reason s \<longrightarrow> 0 < n))"

sublocale waits: invariant_system "cv_start init" "cv_step M spurious" wait_inv
proof unfold_locales
  fix t u assume "wait_inv t" and "cv_step M spurious t u"
  then show "wait_inv u"
    by (cases t)
      (auto elim!: cv_stepE simp: wait_inv_def notify_one_def idle_no_reason dest: unlocked_no_reason silent_no_reason
        split: if_splits)
qed (auto simp: wait_inv_def cv_start_def)

lemma never_missed:
  "reach (cv_start init) (cv_step M spurious) (s, Asleep, n) \<Longrightarrow> reason s \<Longrightarrow> 0 < n"
  by (drule waits.inv_reach) (simp add: wait_inv_def)

text \<open>After the notifications on their way the thread does not sleep.\<close>

lemma wakes_up:
  assumes "reach (cv_start init) (cv_step M spurious) (s, Asleep, n)" and "reason s"
  shows "\<exists>k. n = Suc k \<and> cv_step M spurious (s, Asleep, n) (s, Working, k)"
  using never_missed [OF assms] cv_notify [of M spurious s Asleep]
  by (cases n) (auto simp: notify_one_def)

end

section \<open>Changes without the lock can be missed\<close>

lemma cv_falls_asleep:
  assumes "reach init (mon_step M) s" and "mon_idle M s"
  shows "reach (cv_start init) (cv_step M spurious) (s, Tested, 0)"
    and "reach (cv_start init) (cv_step M spurious) (s, Asleep, 0)"
proof -
  show t: "reach (cv_start init) (cv_step M spurious) (s, Tested, 0)"
    using cv_reach_complete [OF assms(1)] cv_test [OF assms(2)] by (rule reach_step)
  show "reach (cv_start init) (cv_step M spurious) (s, Asleep, 0)"
    using t cv_sleep by (rule reach_step)
qed

lemma cv_missed:
  assumes "reach init (mon_step M) s" and "mon_idle M s" and "mon_unlocked M s s'"
  shows "reach (cv_start init) (cv_step M spurious) (s', Asleep, 0)"
proof -
  let ?R = "reach (cv_start init) (cv_step M spurious)"
  have "?R (s', Tested, Suc 0)"
    using cv_falls_asleep(1) [OF assms(1,2)] cv_unlocked [OF assms(3)] by (rule reach_step)
  then have "?R (s', Tested, 0)"
    using cv_notify [of M spurious s' Tested 0] by (auto simp: notify_one_def intro: reach_step)
  then show ?thesis using cv_sleep by (rule reach_step)
qed

text \<open>A step with no notification on its way before it and after it.\<close>

definition quiet_step :: "'s monitor \<Rightarrow> 's cv_state \<Rightarrow> 's cv_state \<Rightarrow> bool" where
  "quiet_step M t u \<longleftrightarrow> cv_step M False t u \<and> snd (snd t) = 0 \<and> snd (snd u) = 0"

lemma cv_stays_asleep:
  "(quiet_step M)\<^sup>*\<^sup>* (s, Asleep, 0) t \<Longrightarrow> \<exists>s'. t = (s', Asleep, 0) \<and> (mon_silent M)\<^sup>*\<^sup>* s s'"
proof (induction rule: rtranclp_induct)
  case (step t u)
  then obtain s' where "t = (s', Asleep, 0)" "(mon_silent M)\<^sup>*\<^sup>* s s'" "cv_step M False (s', Asleep, 0) u"
    "snd (snd u) = 0"
    by (auto simp: quiet_step_def)
  then show ?case by (auto simp: cv_step_Asleep intro: rtranclp.rtrancl_into_rtrancl)
qed simp

end
