(* ===== verification/WakeUp.thy ===== *)
theory WakeUp
  imports ServerSteps CondVar
begin

text \<open>
  The three waits of the server: the logic thread in \<open>PacketManager::ProcessPacket\<close>, the Redis worker and the
  MySQL worker in \<open>TaskProcessThread\<close>. The steps of the logic thread and of the threads around it are those of
  \<open>ServerSteps\<close>, sorted by the lock they hold and by whether \<open>NotifyPacketEvent\<close> follows.
\<close>

section \<open>The logic thread\<close>

text \<open>Under \<open>mLock\<close>, with a notification after it: \<open>EnqueuePacketData\<close>, \<open>PushSystemPacket\<close>, \<open>End\<close>.\<close>

inductive lock_step :: "PacketManager \<Rightarrow> PacketManager \<Rightarrow> bool" where
  lock_enqueue: "PacketManager_EnqueuePacketData pm i = Inr pm' \<Longrightarrow> lock_step pm pm'"
| lock_system: "i < length (pm_users pm) \<Longrightarrow> k \<in> {SYS_USER_CONNECT, SYS_USER_DISCONNECT} \<Longrightarrow>
    lock_step pm (PacketManager_PushSystemPacket pm
      \<lparr>ClientIndex = i, PacketId = ucast (packet_id_val k), DataSize = 0, pDataPtr = NullPtr\<rparr>)"
| lock_end: "lock_step pm (pm\<lparr>mIsRunProcessThread := False\<rparr>)"

text \<open>
  One turn of the Redis worker. With an answer it ends in \<open>PushResponse\<close>, which holds \<open>mResLock\<close> but
  not \<open>mLock\<close>, and calls \<open>OnResponsePushed\<close>; without one it notifies nobody.
\<close>

definition redis_step ::
  "(byte list \<Rightarrow> byte list option) \<Rightarrow> (nat \<Rightarrow> byte) \<Rightarrow> bool \<Rightarrow> PacketManager \<Rightarrow> PacketManager \<Rightarrow> bool" where
  "redis_step redis_get pad answer pm pm' \<longleftrightarrow> (\<exists>red. Redis_turn redis_get pad (mRedisManager pm) = Inr (Continue red) \<and>
     pm' = pm\<lparr>mRedisManager := red\<rparr> \<and>
     (answer \<longleftrightarrow> R_mResponseTask red \<noteq> R_mResponseTask (mRedisManager pm)))"

text \<open>Neither \<open>mLock\<close> nor a notification: the ring buffers, the MySQL worker, the clock.\<close>

inductive other_step :: "PacketManager \<Rightarrow> PacketManager \<Rightarrow> bool" where
  other_receive: "i < length (pm_users pm) \<Longrightarrow>
    User_SetPacketData (pm_users pm ! i) (length ds) (Some ds) = Inr u \<Longrightarrow>
    other_step pm (pm\<lparr>mUserManager := put_user (mUserManager pm) i u\<rparr>)"
| other_mysql: "MySQL_take_front (mMySQLManager pm) = Some (t, my) \<Longrightarrow> other_step pm (pm\<lparr>mMySQLManager := my\<rparr>)"
| other_tick: "other_step pm (pm\<lparr>clock := now\<rparr>)"

lemma env_step_split:
  "env_step redis_get pad pm pm' \<longleftrightarrow> lock_step pm pm' \<or> (\<exists>answer. redis_step redis_get pad answer pm pm') \<or> other_step pm pm'"
proof
  assume "env_step redis_get pad pm pm'"
  then show "lock_step pm pm' \<or> (\<exists>answer. redis_step redis_get pad answer pm pm') \<or> other_step pm pm'"
  proof cases
    case (connected i)
    then show ?thesis using lock_system [of i pm SYS_USER_CONNECT] by simp
  next
    case (disconnected i)
    then show ?thesis using lock_system [of i pm SYS_USER_DISCONNECT] by simp
  qed (auto simp: redis_step_def intro: lock_step.intros other_step.intros)
next
  assume "lock_step pm pm' \<or> (\<exists>answer. redis_step redis_get pad answer pm pm') \<or> other_step pm pm'"
  then show "env_step redis_get pad pm pm'"
    using env_step.connected [of _ pm] env_step.disconnected [of _ pm]
    by (auto simp: redis_step_def elim!: lock_step.cases other_step.cases intro: env_step.intros)
qed

text \<open>The predicate of the wait, asked with \<open>mLock\<close> held, is \<open>wake_up\<close>.\<close>

definition logic_monitor ::
  "(byte list \<Rightarrow> byte list option) \<Rightarrow> (nat \<Rightarrow> byte) \<Rightarrow> server monitor" where
  "logic_monitor redis_get pad = \<lparr>
     mon_idle = (\<lambda>(pm, c). c = Waiting \<and> \<not> wake_up pm),
     mon_work = logic_step,
     mon_locked = (\<lambda>(pm, c) (pm', c'). c' = c \<and> lock_step pm pm'),
     mon_unlocked = (\<lambda>(pm, c) (pm', c'). c' = c \<and> redis_step redis_get pad True pm pm'),
     mon_silent = (\<lambda>(pm, c) (pm', c'). c' = c \<and> (redis_step redis_get pad False pm pm' \<or> other_step pm pm'))\<rparr>"

lemma logic_monitor_sel [simp]:
  "mon_idle (logic_monitor g pad) (pm, c) \<longleftrightarrow> c = Waiting \<and> \<not> wake_up pm"
  "mon_work (logic_monitor g pad) = logic_step"
  "mon_locked (logic_monitor g pad) (pm, c) (pm', c') \<longleftrightarrow> c' = c \<and> lock_step pm pm'"
  "mon_unlocked (logic_monitor g pad) (pm, c) (pm', c') \<longleftrightarrow> c' = c \<and> redis_step g pad True pm pm'"
  "mon_silent (logic_monitor g pad) (pm, c) (pm', c') \<longleftrightarrow>
     c' = c \<and> (redis_step g pad False pm pm' \<or> other_step pm pm')"
  by (simp_all add: logic_monitor_def)

text \<open>Without its wait the monitor is the step relation of the server.\<close>

lemma logic_monitor_steps: "mon_step (logic_monitor g pad) = server_step g pad"
proof (intro ext)
  fix s t :: server
  obtain pm c pm' c' where st: "s = (pm, c)" "t = (pm', c')" by (cases s, cases t)
  have "(\<exists>answer. redis_step g pad answer pm pm') \<longleftrightarrow> redis_step g pad True pm pm' \<or> redis_step g pad False pm pm'"
    by (metis (full_types))
  then show "mon_step (logic_monitor g pad) s t = server_step g pad s t"
    by (auto simp: st mon_step_def server_step.simps env_step_split)
qed

text \<open>What only changes under \<open>mLock\<close> bring about.\<close>

definition locked_wake_up :: "server \<Rightarrow> bool" where
  "locked_wake_up s \<longleftrightarrow> (case s of (pm, c) \<Rightarrow>
     \<not> mIsRunProcessThread pm \<or> mSystemWriteBuffer pm \<noteq> [] \<or> mWriteBuffer pm \<noteq> [])"

interpretation logic: locked_reason "logic_monitor g pad" locked_wake_up
proof unfold_locales
  fix s s' :: server
  show "mon_idle (logic_monitor g pad) s \<Longrightarrow> \<not> locked_wake_up s"
    by (cases s) (auto simp: locked_wake_up_def wake_up_def)
  show "mon_unlocked (logic_monitor g pad) s s' \<Longrightarrow> locked_wake_up s' \<Longrightarrow> locked_wake_up s"
    by (cases s; cases s') (auto simp: locked_wake_up_def redis_step_def)
  show "mon_silent (logic_monitor g pad) s s' \<Longrightarrow> locked_wake_up s' \<Longrightarrow> locked_wake_up s"
    by (cases s; cases s') (auto simp: locked_wake_up_def redis_step_def elim!: other_step.cases)
qed

section \<open>The workers\<close>

text \<open>
  Both workers read under \<open>mReqLock\<close> only what is changed under it: the queue and the flag. The logic thread
  takes answers from the Redis worker's other queue at any time. \<open>MySQLManager::PushTask\<close> notifies before it
  releases the lock, which is one of the interleavings of pushing and notifying.
\<close>

definition redis_monitor ::
  "(byte list \<Rightarrow> byte list option) \<Rightarrow> (nat \<Rightarrow> byte) \<Rightarrow> RedisManager monitor" where
  "redis_monitor redis_get pad = \<lparr>
     mon_idle = (\<lambda>m. R_mRequestTask m = [] \<and> R_mIsTaskRun m),
     mon_work = (\<lambda>m m'. Redis_turn redis_get pad m = Inr (Continue m')),
     mon_locked = (\<lambda>m m'. (\<exists>t. m' = RedisManager_PushTask m t) \<or> m' = m\<lparr>R_mIsTaskRun := False\<rparr>),
     mon_unlocked = (\<lambda>m m'. False),
     mon_silent = (\<lambda>m m'. m' = snd (RedisManager_TakeResponseTask m))\<rparr>"

definition mysql_monitor :: "mysql_state monitor" where
  "mysql_monitor = \<lparr>
     mon_idle = (\<lambda>(m, conn, rows). M_mRequestTask m = [] \<and> M_mIsTaskRun m),
     mon_work = (\<lambda>st st'. \<exists>env. MySQL_turn env st = Inr (Continue st')),
     mon_locked = (\<lambda>(m, conn, rows) st'. (\<exists>t. st' = (MySQLManager_PushTask m t, conn, rows)) \<or>
       st' = (m\<lparr>M_mIsTaskRun := False\<rparr>, conn, rows)),
     mon_unlocked = (\<lambda>st st'. False),
     mon_silent = (\<lambda>st st'. False)\<rparr>"

definition redis_ready :: "RedisManager \<Rightarrow> bool" where
  "redis_ready m \<longleftrightarrow> R_mRequestTask m \<noteq> [] \<or> \<not> R_mIsTaskRun m"

definition mysql_ready :: "mysql_state \<Rightarrow> bool" where
  "mysql_ready st \<longleftrightarrow> (case st of (m, conn, rows) \<Rightarrow> M_mRequestTask m \<noteq> [] \<or> \<not> M_mIsTaskRun m)"

interpretation redis_wait: locked_reason "redis_monitor g pad" redis_ready
  by unfold_locales
    (auto simp: redis_monitor_def redis_ready_def RedisManager_TakeResponseTask_def split: list.splits)

interpretation mysql_wait: locked_reason mysql_monitor mysql_ready
  by unfold_locales (auto simp: mysql_monitor_def mysql_ready_def)

section \<open>An answer of the Redis worker\<close>

lemma silent_keeps_answers:
  "(mon_silent (logic_monitor g pad))\<^sup>*\<^sup>* (pm, c) (pm', c') \<Longrightarrow>
     c' = c \<and> R_mResponseTask (mRedisManager pm') = R_mResponseTask (mRedisManager pm)"
proof (induction "(pm', c')" arbitrary: pm' c' rule: rtranclp_induct)
  case (step t)
  obtain pm1 c1 where t: "t = (pm1, c1)" by (cases t)
  have "c' = c1 \<and> R_mResponseTask (mRedisManager pm') = R_mResponseTask (mRedisManager pm1)"
    using step(2) unfolding t by (auto simp: redis_step_def elim!: other_step.cases)
  then show ?case using step(3) [OF t] by simp
qed simp

text \<open>
  An answer pushed while the logic thread, its predicate tested, still goes to sleep: the notification
  comes too early, and the answer waits until something else notifies.
\<close>

lemma answer_missed:
  assumes "reach (server_init mem n) (server_step g pad) (pm, Waiting)" and "\<not> wake_up pm"
    and "redis_step g pad True pm pm'"
  shows "reach (cv_start (server_init mem n)) (cv_step (logic_monitor g pad) sp) ((pm', Waiting), Asleep, 0)"
    and "wake_up pm'"
    and "(quiet_step (logic_monitor g pad))\<^sup>*\<^sup>* ((pm', Waiting), Asleep, 0) ((pm2, c), w, k) \<Longrightarrow>
      w = Asleep \<and> c = Waiting \<and> R_mResponseTask (mRedisManager pm2) = R_mResponseTask (mRedisManager pm')"
proof -
  show "reach (cv_start (server_init mem n)) (cv_step (logic_monitor g pad) sp) ((pm', Waiting), Asleep, 0)"
    by (rule cv_missed [of _ _ "(pm, Waiting)"]) (use assms in \<open>simp_all add: logic_monitor_steps\<close>)
  show "wake_up pm'"
    using assms(2,3) by (auto simp: redis_step_def wake_up_def RedisManager_HasResponseTask_def)
  assume "(quiet_step (logic_monitor g pad))\<^sup>*\<^sup>* ((pm', Waiting), Asleep, 0) ((pm2, c), w, k)"
  then show "w = Asleep \<and> c = Waiting \<and> R_mResponseTask (mRedisManager pm2) = R_mResponseTask (mRedisManager pm')"
    using silent_keeps_answers by (blast dest: cv_stays_asleep)
qed

end
