(* ===== verification/DemoWait.thy ===== *)
theory DemoWait
  imports DemoRun WakeUp
begin

text \<open>
  The run of \<open>DemoRun\<close> with the logic thread at its wait: once a connection is announced while it sleeps,
  once the worker answers the login.
\<close>

lemma demo_server_step: "demo_R s \<Longrightarrow> reach (server_init demo_mem 2) (server_step demo_get (\<lambda>_. 0)) s"
  by (erule reach_mono) (simp add: genuine_step_def)

lemma demo_before_answer:
  "\<exists>pm pm'. reach (server_init demo_mem 2) (server_step demo_get (\<lambda>_. 0)) (pm, Waiting) \<and> \<not> wake_up pm \<and>
    redis_step demo_get (\<lambda>_. 0) True pm pm' \<and> R_mResponseTask (mRedisManager pm') = [demo_answer]"
proof -
  obtain rb tb where r: "demo_R ((with_buffers demo_start 0 rb tb)\<lparr>mRedisManager :=
        RedisManager_PushTask (mRedisManager demo_start)
          (login_request_task 0 (char_field 33 alice @ char_field 33 [112])), mReadBuffer := []\<rparr>, Waiting)"
      (is "demo_R (?pm, _)")
    using demo_requested by blast
  have turn: "Redis_turn demo_get (\<lambda>_. 0) (mRedisManager ?pm) =
    Inr (Continue ((mRedisManager demo_start)\<lparr>R_mRequestTask := [], R_mResponseTask := [demo_answer]\<rparr>))"
    by (rule demo_turn) simp
  have "\<not> wake_up ?pm"
    using demo_start_eq(6)
    by (simp add: wake_up_def idle_def RedisManager_HasResponseTask_def RedisManager_PushTask_def demo_start_eq(4))
  moreover have "redis_step demo_get (\<lambda>_. 0) True ?pm (?pm\<lparr>mRedisManager :=
      (mRedisManager demo_start)\<lparr>R_mRequestTask := [], R_mResponseTask := [demo_answer]\<rparr>\<rparr>)"
    using turn by (simp add: redis_step_def RedisManager_PushTask_def demo_start_eq(4))
  ultimately show ?thesis using demo_server_step [OF r] by fastforce
qed

lemma demo_announced:
  "\<exists>pm. reach (cv_start (server_init demo_mem 2)) (cv_step (logic_monitor demo_get (\<lambda>_. 0)) False)
      ((pm, Waiting), Asleep, 1) \<and> locked_wake_up (pm, Waiting)"
proof -
  let ?pk = "\<lparr>ClientIndex = 0, PacketId = ucast (packet_id_val SYS_USER_CONNECT), DataSize = 0, pDataPtr = NullPtr\<rparr>"
  let ?pm = "PacketManager_PushSystemPacket demo_start ?pk"
  let ?M = "logic_monitor demo_get (\<lambda>_. 0)"
  have "reach (server_init demo_mem 2) (mon_step ?M) (demo_start, Waiting)"
    by (rule reach_init) (simp add: server_init_def demo_start_def demo_def)
  moreover have "mon_idle ?M (demo_start, Waiting)"
    using demo_start_eq(4,6) by (simp add: wake_up_def idle_def RedisManager_HasResponseTask_def)
  ultimately have R: "reach (cv_start (server_init demo_mem 2)) (cv_step ?M False) ((demo_start, Waiting), Asleep, 0)"
    by (rule cv_falls_asleep(2))
  have "length (pm_users demo_start) = 2" by (simp add: pm_users_def demo_start_eq)
  then have "mon_locked ?M (demo_start, Waiting) (?pm, Waiting)"
    using lock_system [of 0 demo_start SYS_USER_CONNECT] by simp
  then have "cv_step ?M False ((demo_start, Waiting), Asleep, 0) ((?pm, Waiting), Asleep, 1)"
    using cv_locked [of ?M _ _ Asleep False 0] by simp
  with R have "reach (cv_start (server_init demo_mem 2)) (cv_step ?M False) ((?pm, Waiting), Asleep, 1)"
    by (rule reach_step)
  then show ?thesis by (auto simp: locked_wake_up_def PacketManager_PushSystemPacket_def)
qed

end
