(* ===== verification/Delivery.thy ===== *)
theory Delivery
  imports WholeServer LogicRun
begin

text \<open>
  A chat message through the whole server: from the bytes a worker receives, through the ring buffer and the logic
  thread, to the send queues of the sessions. And what becomes of it when a slot changes hands on the way.
\<close>

section \<open>Packets reach the queue of their slot\<close>

text \<open>The packets for one slot, in order.\<close>

definition sends_to :: "nat \<Rightarrow> send list \<Rightarrow> packet list" where
  "sends_to j ss = map (snd \<circ> snd) (filter (\<lambda>s. fst s = j) ss)"

lemma sends_to_simps [simp]:
  "sends_to j [] = []"
  "sends_to j ((i, n, p) # ss) = (if i = j then p # sends_to j ss else sends_to j ss)"
  "sends_to j (ss @ ts) = sends_to j ss @ sends_to j ts"
  by (simp_all add: sends_to_def)

lemma SendMsg_block:
  assumes "ClientSession_SendMsg ws net s n msg = Inr (True, net', s')"
  shows "mFreeList (send_pool net') = butlast (mFreeList (send_pool net)) \<and> mFreeList (send_pool net) \<noteq> [] \<and>
    (\<forall>b. b \<noteq> last (mFreeList (send_pool net)) \<longrightarrow> payload net' b = payload net b) \<and>
    mSendDataqueue s' = mSendDataqueue s @ [last (mFreeList (send_pool net))]"
  using assms
  by (auto simp: ClientSession_SendMsg_def ClientSession_SendIO_def ObjectPool_Alloc_def result_simps Let_def
      payload_def split: if_splits prod.splits list.splits)

lemma SendMsg_one:
  assumes "sends_ready io" and "i < length (mClientInfos io)" and "packet_ok p"
    and "mFreeList (send_pool (mNet io)) \<noteq> []"
  shows "\<exists>io'. IOCP_SendMsg ws io i (packet_sizeof p) (packet_bytes ty p) = Inr (True, io') \<and> sends_ready io' \<and>
    same_slots io io' \<and> length (mClientInfos io') = length (mClientInfos io) \<and>
    length (mFreeList (send_pool (mNet io))) = Suc (length (mFreeList (send_pool (mNet io')))) \<and>
    (\<forall>j < length (mClientInfos io). waiting io' j = waiting io j @ (if i = j then [packet_bytes ty p] else []))"
proof -
  obtain ok io' where m: "IOCP_SendMsg ws io i (packet_sizeof p) (packet_bytes ty p) = Inr (ok, io')" "sends_ready io'"
    "length (mClientInfos io') = length (mClientInfos io)" "same_slots io io'" "ok"
    "waiting io' i = waiting io i @ [packet_bytes ty p]"
    using SendMsg_delivers [OF assms(1-3), of ws ty] assms(4) by auto
  obtain net' s' where c: "ClientSession_SendMsg ws (mNet io) (mClientInfos io ! i) (packet_sizeof p) (packet_bytes ty p) =
      Inr (True, net', s')" and io': "io' = put_session io i net' s'"
    using m(1,5) assms(2) by (auto simp: IOCP_SendMsg_def IOCP_GetClientInfo_def result_simps)
  let ?a = "last (mFreeList (send_pool (mNet io)))"
  note b = SendMsg_block [OF c]
  have "waiting io' j = waiting io j" if j: "j < length (mClientInfos io)" "i \<noteq> j" for j
  proof -
    have "?a \<in> set (mFreeList (send_pool (mNet io)))" using assms(4) by simp
    moreover have "queue_ok (mNet io) (mClientInfos io ! j)" using assms(1) j(1) by (simp add: sends_ready_def)
    ultimately have "?a \<notin> set (mSendDataqueue (mClientInfos io ! j))"
      by (auto simp: queue_ok_def op.in_use_def)
    then have "payload net' x = payload (mNet io) x" if "x \<in> set (mSendDataqueue (mClientInfos io ! j))" for x
      using b that by metis
    then show ?thesis using j by (simp add: waiting_def io')
  qed
  then show ?thesis
    using m b by (intro exI [of _ io']) (auto simp: io')
qed

lemma deliver_waiting:
  assumes "sends_ready io" and "list_all (send_ok (length (mClientInfos io))) ss"
    and "length ss \<le> length (mFreeList (send_pool (mNet io)))"
  shows "\<exists>io'. ChatServer_deliver ws (\<lambda>_. ty) k io ss = Inr io' \<and> sends_ready io' \<and> same_slots io io' \<and>
    (\<forall>j < length (mClientInfos io). waiting io' j = waiting io j @ map (packet_bytes ty) (sends_to j ss))"
  using assms
proof (induction ss arbitrary: io k)
  case Nil
  then show ?case by simp
next
  case (Cons x ss)
  obtain i n p where x: "x = (i, n, p)" by (metis prod.exhaust)
  have ok: "i < length (mClientInfos io)" "packet_ok p" "n = packet_sizeof p"
    using Cons.prems(2) by (simp_all add: x send_ok_def)
  have free: "mFreeList (send_pool (mNet io)) \<noteq> []" using Cons.prems(3) by auto
  obtain io1 where s: "IOCP_SendMsg (ws k) io i n (packet_bytes ty p) = Inr (True, io1)" "sends_ready io1"
    "same_slots io io1" "length (mClientInfos io1) = length (mClientInfos io)"
    "length (mFreeList (send_pool (mNet io))) = Suc (length (mFreeList (send_pool (mNet io1))))"
    "\<forall>j < length (mClientInfos io). waiting io1 j = waiting io j @ (if i = j then [packet_bytes ty p] else [])"
    using SendMsg_one [OF Cons.prems(1) ok(1,2) free, of "ws k" ty] ok(3) by blast
  obtain io' where r: "ChatServer_deliver ws (\<lambda>_. ty) (k + 1) io1 ss = Inr io'" "sends_ready io'" "same_slots io1 io'"
    "\<forall>j < length (mClientInfos io1). waiting io' j = waiting io1 j @ map (packet_bytes ty) (sends_to j ss)"
    using Cons.IH [OF s(2), of "k + 1"] Cons.prems(2,3) s(4,5) by auto
  then show ?case using s x by (simp add: same_slots_def)
qed

lemma sends_to_notify_all:
  "sends_to j (notify_all ms uid msg) = replicate (count_list ms j) (ROOM_CHAT_NOTIFY_PACKET uid msg)"
  by (induction ms) (auto simp: notify_all_def)

section \<open>The network layer leaves the people alone\<close>

text \<open>The events of the network layer only fill ring buffers and queues.\<close>

definition same_people :: "PacketManager \<Rightarrow> PacketManager \<Rightarrow> bool" where
  "same_people pm pm' \<longleftrightarrow> mRoomManager pm' = mRoomManager pm \<and> sent pm' = sent pm \<and>
     mMySQLManager pm' = mMySQLManager pm \<and> clock pm' = clock pm \<and> length (pm_users pm') = length (pm_users pm) \<and>
     (\<forall>i < length (pm_users pm). \<exists>rb. pm_users pm' ! i = (pm_users pm ! i)\<lparr>mPacketDataBuffer := rb\<rparr>)"

lemma same_buffer [simp]: "\<exists>rb. (u :: user) = u\<lparr>mPacketDataBuffer := rb\<rparr>"
  by (rule exI [of _ "mPacketDataBuffer u"]) simp

lemma same_people_refl [simp]: "same_people pm pm"
  by (simp add: same_people_def)

lemma same_people_trans: "same_people a b \<Longrightarrow> same_people b c \<Longrightarrow> same_people a c"
  unfolding same_people_def by fastforce

lemma same_people_deref: "same_people pm pm' \<Longrightarrow> deref pm (TempBuf i) = Inr mem \<Longrightarrow> deref pm' (TempBuf i) = Inr mem"
  by (fastforce simp: same_people_def deref_def UserManager_GetUserByConnIdx_def pm_users_def result_simps split: if_splits)

lemma event_people: "ChatServer_event pm e = Inr pm' \<Longrightarrow> same_people pm pm'"
proof (cases e)
  case (Ev_Receive i data)
  assume "ChatServer_event pm e = Inr pm'"
  then obtain u where i: "i < length (pm_users pm)"
    and u: "User_SetPacketData (pm_users pm ! i) (length data) (Some data) = Inr u"
    and e: "PacketManager_EnqueuePacketData (pm\<lparr>mUserManager := put_user (mUserManager pm) i u\<rparr>) i = Inr pm'"
    using Ev_Receive
    by (auto simp: ChatServer_OnReceive_def PacketManager_ReceivePacketData_def UserManager_GetUserByConnIdx_def
        pm_users_def result_simps split: if_splits)
  obtain rb where "u = (pm_users pm ! i)\<lparr>mPacketDataBuffer := rb\<rparr>" using SetPacketData_frame [OF u] by blast
  then have "same_people pm (pm\<lparr>mUserManager := put_user (mUserManager pm) i u\<rparr>)"
    using i by (auto simp: same_people_def pm_users_def nth_list_update)
  moreover have "same_people (pm\<lparr>mUserManager := put_user (mUserManager pm) i u\<rparr>) pm'"
    using e i
    by (auto simp: PacketManager_EnqueuePacketData_def UserManager_GetUserByConnIdx_def pm_users_def same_people_def
        result_simps nth_list_update)
  ultimately show "same_people pm pm'" by (rule same_people_trans)
qed (auto simp: ChatServer_OnConnect_def ChatServer_OnClose_def PacketManager_PushSystemPacket_def same_people_def
    pm_users_def)

lemma events_people: "ChatServer_events pm es = Inr pm' \<Longrightarrow> same_people pm pm'"
proof (induction es arbitrary: pm)
  case (Cons e es)
  then show ?case using event_people same_people_trans by (fastforce simp: result_simps)
qed simp

text \<open>One step of the network layer as the whole server sees it.\<close>

definition net_move :: "bool \<Rightarrow> iocp \<times> PacketManager \<Rightarrow> iocp \<times> PacketManager \<Rightarrow> bool" where
  "net_move good s t \<longleftrightarrow> net_step good ((fst s)\<lparr>app_events := []\<rparr>) (fst t) \<and>
     ChatServer_events (snd s) (app_events (fst t)) = Inr (snd t)"

lemma net_moves_whole:
  "(net_move good)\<^sup>*\<^sup>* (io, pm) (io', pm') \<Longrightarrow> (whole_step good g pad)\<^sup>*\<^sup>* (io, pm, c) (io', pm', c)"
proof (induction "(io', pm')" arbitrary: io' pm' rule: rtranclp_induct)
  case (step t)
  obtain io1 pm1 where t: "t = (io1, pm1)" by (cases t)
  have "whole_step good g pad (io1, pm1, c) (io', pm', c)"
    using step(2) by (intro whole_net) (simp_all add: net_move_def t)
  then show ?case using step(3) [OF t] by (rule rtranclp.rtrancl_into_rtrancl [rotated])
qed simp

lemma net_moves_people: "(net_move good)\<^sup>*\<^sup>* s t \<Longrightarrow> same_people (snd s) (snd t)"
proof (induction rule: rtranclp_induct)
  case (step t u)
  then show ?case using events_people same_people_trans by (fastforce simp: net_move_def)
qed simp

lemma whole_steps_inv: "(whole_step good g pad)\<^sup>*\<^sup>* s t \<Longrightarrow> whole_inv good n s \<Longrightarrow> whole_inv good n t"
  by (rule whole.inv_steps)

section \<open>A chat message is handled\<close>

definition chat_sends :: "nat list \<Rightarrow> nat \<Rightarrow> byte list \<Rightarrow> byte list \<Rightarrow> send list" where
  "chat_sends ms i uid msg = (i, 7, ROOM_CHAT_RESPONSE_PACKET (error_val EC_NONE)) # notify_all ms uid msg"

text \<open>The members of the room a user is in.\<close>

definition room_mates :: "PacketManager \<Rightarrow> nat \<Rightarrow> nat list" where
  "room_mates pm i = (case RoomManager_GetRoomByNumber (mRoomManager pm) (roomIndex (pm_users pm ! i)) of
     None \<Rightarrow> [] | Some k \<Rightarrow> mUserList (mRoomList (mRoomManager pm) ! k))"

text \<open>What the handler of a chat message makes of the packet manager.\<close>

definition after_chat :: "PacketManager \<Rightarrow> nat \<Rightarrow> byte list \<Rightarrow> PacketManager" where
  "after_chat pm i msg = send_all (push_activity pm i
     (ChatActivity (mUserID (pm_users pm ! i)) (roomIndex (pm_users pm ! i)) msg (clock pm)))
     (chat_sends (room_mates pm i) i (mUserID (pm_users pm ! i)) msg)"

definition chat_ready :: "PacketManager \<Rightarrow> nat \<Rightarrow> byte list \<Rightarrow> bool" where
  "chat_ready pm i msg \<longleftrightarrow> i < length (pm_users pm) \<and> mCurDomainState (pm_users pm ! i) = DS_ROOM \<and>
     name_ok (mUserID (pm_users pm ! i)) \<and> 0 \<notin> set msg \<and> length msg \<le> MAX_CHAT_MSG"

lemma recv_chat:
  assumes "pm_inv pm" and "chat_ready pm i msg"
    and "PacketId pk = ucast (packet_id_val ROOM_CHAT_REQUEST)" and "deref pm (pDataPtr pk) = Inr mem"
    and "c_str (drop off_Message mem) = Inr msg"
  shows "recv pm i pk = Inr (after_chat pm i msg)" and "i \<in> set (room_mates pm i)"
proof -
  have c: "i < length (pm_users pm)" "mCurDomainState (pm_users pm ! i) = DS_ROOM" "name_ok (mUserID (pm_users pm ! i))"
    "length msg \<le> MAX_CHAT_MSG" using assms(2) by (simp_all add: chat_ready_def)
  note ch = Chat_success [OF assms(1) c(1-3) assms(4,5) c(4)]
  have "ProcessRoomChatMessage pm i sz (pDataPtr pk) = Inr (after_chat pm i msg)" for sz
    using ch [of sz]
    by (auto simp: after_chat_def chat_sends_def room_mates_def send_all_def pm_send_def push_activity_def
        packet_consts)
  then show "recv pm i pk = Inr (after_chat pm i msg)"
    using assms(3) by (simp add: recv_def ProcessRecvPacket_def mPacketHandlers_def)
  show "i \<in> set (room_mates pm i)" using ch [of 0] by (auto simp: room_mates_def)
qed

text \<open>
  The step of the whole server that handles the message: whoever is connected on the slots of the room's
  members, the packets go to the queues of these slots.
\<close>

lemma whole_chat:
  assumes "whole_inv good n (io, pm, Handling i pk ts)" and "sends_ready io" and "chat_ready pm i msg"
    and "PacketId pk = ucast (packet_id_val ROOM_CHAT_REQUEST)" and "deref pm (pDataPtr pk) = Inr mem"
    and "c_str (drop off_Message mem) = Inr msg"
    and "length (room_mates pm i) < length (mFreeList (send_pool (mNet io)))"
  shows "\<exists>io'. whole_step good g pad (io, pm, Handling i pk ts) (io', after_chat pm i msg, InTask i ts) \<and>
    (\<forall>j < n. waiting io' j = waiting io j @ (if j = i then [packet_bytes ty (ROOM_CHAT_RESPONSE_PACKET (error_val EC_NONE))] else []) @
      replicate (count_list (room_mates pm i) j) (packet_bytes ty (ROOM_CHAT_NOTIFY_PACKET (mUserID (pm_users pm ! i)) msg)))"
proof -
  have inv: "server_inv n (pm, Handling i pk ts)" "pm_inv pm" "length (mClientInfos io) = n"
    using assms(1) by (simp_all add: whole_inv_def server_inv_def net_inv_def)
  have st: "logic_step (pm, Handling i pk ts) (after_chat pm i msg, InTask i ts)"
    using recv_chat(1) [OF inv(2) assms(3-6)] by (rule logic_step.handle)
  let ?ss = "chat_sends (room_mates pm i) i (mUserID (pm_users pm ! i)) msg"
  have n: "new_sends pm (after_chat pm i msg) = ?ss"
    by (simp add: new_sends_def after_chat_def send_all_def push_activity_def)
  have "list_all (send_ok (length (mClientInfos io))) ?ss"
    using new_sends_ok [OF logic_step_inv [OF st inv(1)], of pm] inv(3) by (simp add: n)
  moreover have "length ?ss \<le> length (mFreeList (send_pool (mNet io)))"
    using assms(7) by (simp add: chat_sends_def notify_all_def)
  ultimately obtain io' where d: "ChatServer_deliver undefined (\<lambda>_. ty) 0 io ?ss = Inr io'"
    "\<forall>j < length (mClientInfos io). waiting io' j = waiting io j @ map (packet_bytes ty) (sends_to j ?ss)"
    using deliver_waiting [OF assms(2), of ?ss undefined ty 0] by blast
  have "whole_step good g pad (io, pm, Handling i pk ts) (io', after_chat pm i msg, InTask i ts)"
    using st d(1) by (intro whole_logic [where ws = undefined and ty = "\<lambda>_. ty"]) (simp_all add: n)
  then show ?thesis
    using d(2) inv(3) by (auto simp: chat_sends_def sends_to_notify_all)
qed

section \<open>From the bytes of a segment to the queues\<close>

lemma silent_whole:
  assumes "silent_step\<^sup>*\<^sup>* (pm, c) t"
  shows "(whole_step good g pad)\<^sup>*\<^sup>* (io, pm, c) (io, t)"
  using assms
proof (induction rule: rtranclp_induct)
  case (step t u)
  obtain pm1 c1 pm2 c2 where tu: "t = (pm1, c1)" "u = (pm2, c2)" by (cases t, cases u)
  have "whole_step good g pad (io, t) (io, u)"
    using step(2) unfolding tu by (intro whole_logic) (simp_all add: silent_step_def new_sends_def)
  then show ?case using step(3) by (rule rtranclp.rtrancl_into_rtrancl [rotated])
qed simp

text \<open>A received segment changes the session and its buffer, but no queue.\<close>

lemma recv_queues:
  assumes "IOCP_recv ws io i p m data = Inr io'"
  shows "send_pool (mNet io') = send_pool (mNet io) \<and> blocks (mNet io') = blocks (mNet io) \<and>
    map mSendDataqueue (mClientInfos io') = map mSendDataqueue (mClientInfos io)"
  using assms
  by (auto simp: IOCP_recv_def IOCP_GetClientInfo_def result_simps Let_def ClientSession_UpdateActivity_def
      ClientSession_BindRecv_def ClientSession_Closed_def map_update list_update_same_conv split: if_splits)

lemma same_queues:
  assumes "send_pool (mNet io') = send_pool (mNet io)" and "blocks (mNet io') = blocks (mNet io)"
    and "map mSendDataqueue (mClientInfos io') = map mSendDataqueue (mClientInfos io)"
  shows "sends_ready io' = sends_ready io" and "j < length (mClientInfos io) \<Longrightarrow> waiting io' j = waiting io j"
proof -
  have len: "length (mClientInfos io') = length (mClientInfos io)" using assms(3) by (metis length_map)
  have q: "mSendDataqueue (mClientInfos io' ! j) = mSendDataqueue (mClientInfos io ! j)"
    if "j < length (mClientInfos io)" for j
    using assms(3) len that by (metis nth_map)
  have pl: "payload (mNet io') = payload (mNet io)" using assms(2) by (simp add: payload_def fun_eq_iff)
  show "sends_ready io' = sends_ready io"
    using assms(1,2) len q by (simp add: sends_ready_def net_ok_def queue_ok_def)
  show "waiting io' j = waiting io j" if "j < length (mClientInfos io)"
    using q [OF that] pl by (simp add: waiting_def)
qed

lemma chat_packet:
  assumes "0 \<notin> set msg" and "length msg \<le> MAX_CHAT_MSG"
  shows "wf_packet (ROOM_CHAT_REQUEST_PACKET t msg)" and "frame_id (ROOM_CHAT_REQUEST_PACKET t msg) = packet_id_val ROOM_CHAT_REQUEST"
    and "length (ROOM_CHAT_REQUEST_PACKET t msg) = 262"
proof -
  let ?r = "char_field (MAX_CHAT_MSG + 1) msg" and ?h = "header_bytes 262 (packet_id_val ROOM_CHAT_REQUEST) t"
  have p: "ROOM_CHAT_REQUEST_PACKET t msg = ?h @ ?r" by (simp add: ROOM_CHAT_REQUEST_PACKET_def)
  have r: "length ?r = 257" using assms(2) by (simp add: packet_consts)
  note f = header_bytes_facts [of 262 "packet_id_val ROOM_CHAT_REQUEST" t]
  show id: "frame_id (ROOM_CHAT_REQUEST_PACKET t msg) = packet_id_val ROOM_CHAT_REQUEST" unfolding p by (rule f(3))
  show len: "length (ROOM_CHAT_REQUEST_PACKET t msg) = 262" unfolding p using f(1) r by simp
  have "frame_length (ROOM_CHAT_REQUEST_PACKET t msg) = 262" unfolding p f(2) by simp
  then show "wf_packet (ROOM_CHAT_REQUEST_PACKET t msg)"
    using id len by (simp add: wf_packet_def packet_consts)
qed

lemma with_buffers_chat:
  assumes "chat_ready pm i msg"
    and "q = with_buffers (pm\<lparr>mUserManager := put_user (mUserManager pm) i ((pm_users pm ! i)\<lparr>mPacketDataBuffer := rb\<rparr>)\<rparr>) i rb' tb"
  shows "chat_ready q i msg" and "room_mates q i = room_mates pm i" and "mUserID (pm_users q ! i) = mUserID (pm_users pm ! i)"
    and "roomIndex (pm_users q ! i) = roomIndex (pm_users pm ! i)" and "clock q = clock pm"
    and "mMySQLManager q = mMySQLManager pm" and "mRedisManager q = mRedisManager pm"
  using assms by (simp_all add: with_buffers_def pm_users_def chat_ready_def room_mates_def split: option.split)

text \<open>
  The run: the worker receives the segment, the ring buffer takes it, the logic thread wakes up, handles the
  packet and waits again.
\<close>

lemma chat_run:
  assumes "whole_inv good n (io, pm, Waiting)" and "idle pm" and "R_mResponseTask (mRedisManager pm) = []"
    and "chat_ready pm i msg" and "slot_bytes pm i = []" and "262 \<le> BufferSize (mPacketDataBuffer (pm_users pm ! i))"
    and "p = ROOM_CHAT_REQUEST_PACKET t msg"
    and "ws_recv ws" and "IOCP_recv ws (io\<lparr>app_events := []\<rparr>) i q 262 p = Inr io1" and "app_events io1 = [Ev_Receive i p]"
    and "sends_ready io" and "length (room_mates pm i) < length (mFreeList (send_pool (mNet io)))"
  shows "\<exists>io' pm'. (whole_step good g pad)\<^sup>*\<^sup>* (io, pm, Waiting) (io', pm', Waiting) \<and>
    (\<forall>j < n. waiting io' j = waiting io j @ (if j = i then [packet_bytes ty (ROOM_CHAT_RESPONSE_PACKET (error_val EC_NONE))] else []) @
      replicate (count_list (room_mates pm i) j) (packet_bytes ty (ROOM_CHAT_NOTIFY_PACKET (mUserID (pm_users pm ! i)) msg))) \<and>
    mMySQLManager pm' = MySQLManager_PushTask (mMySQLManager pm) (task_of i
      (ChatActivity (mUserID (pm_users pm ! i)) (roomIndex (pm_users pm ! i)) msg (clock pm)))"
proof -
  let ?u = "pm_users pm ! i" and ?W = "whole_step good g pad"
  have inv: "pm_inv pm" "length (mClientInfos io) = n" using assms(1) by (simp_all add: whole_inv_def server_inv_def net_inv_def)
  have i: "i < length (pm_users pm)" and m: "0 \<notin> set msg" "length msg \<le> MAX_CHAT_MSG"
    using assms(4) by (simp_all add: chat_ready_def)
  note p = chat_packet [OF m, of t, folded assms(7)]
  obtain rb where rb: "User_SetPacketData ?u (length p) (Some p) = Inr (?u\<lparr>mPacketDataBuffer := rb\<rparr>)"
    "pm_inv (pm\<lparr>mUserManager := put_user (mUserManager pm) i (?u\<lparr>mPacketDataBuffer := rb\<rparr>)\<rparr>)"
    "slot_bytes (pm\<lparr>mUserManager := put_user (mUserManager pm) i (?u\<lparr>mPacketDataBuffer := rb\<rparr>)\<rparr>) i = p"
    using receive_on_empty [OF inv(1) i assms(5)] assms(6) p(3) by metis
  let ?A = "pm\<lparr>mUserManager := put_user (mUserManager pm) i (?u\<lparr>mPacketDataBuffer := rb\<rparr>)\<rparr>"
  let ?B = "?A\<lparr>mWriteBuffer := [\<lparr>clientIndex = i, generation = mGeneration (pm_users ?A ! i)\<rparr>]\<rparr>"
  have iA: "i < length (pm_users ?A)" "idle ?A" using i assms(2) by (simp_all add: pm_users_def idle_def)
  have "ChatServer_events pm (app_events io1) = Inr ?B"
    using rb(1) i assms(2,10)
    by (simp add: ChatServer_OnReceive_def PacketManager_ReceivePacketData_def PacketManager_EnqueuePacketData_def
        UserManager_GetUserByConnIdx_def User_GetGeneration_def pm_users_def idle_def)
  then have 1: "?W (io, pm, Waiting) (io1, ?B, Waiting)"
    using net_step.receive [OF assms(8,9)] by (intro whole_net)
  obtain rb' tb t' pk where g: "silent_step\<^sup>*\<^sup>* (?B, Waiting) (with_buffers ?A i rb' tb, Handling i pk [])"
    "deref (with_buffers ?A i rb' tb) (TempBuf i) = Inr (p @ t')" "slot_bytes (with_buffers ?A i rb' tb) i = []"
    "pk = \<lparr>ClientIndex = 0, PacketId = ucast (frame_id p), DataSize = of_nat (length p), pDataPtr = TempBuf i\<rparr>"
    using logic_to_handler [OF rb(2) iA(2,1) rb(3) p(1)] by blast
  let ?q = "with_buffers ?A i rb' tb"
  have 2: "?W\<^sup>*\<^sup>* (io, pm, Waiting) (io1, ?q, Handling i pk [])"
    using 1 silent_whole [OF g(1)] by (rule converse_rtranclp_into_rtranclp)
  note same = with_buffers_chat [OF assms(4) refl, of rb rb' tb]
  have resp: "R_mResponseTask (mRedisManager ?q) = []" using same(7) assms(3) by simp
  have rq: "send_pool (mNet io1) = send_pool (mNet io)" "blocks (mNet io1) = blocks (mNet io)"
    "map mSendDataqueue (mClientInfos io1) = map mSendDataqueue (mClientInfos io)"
    using recv_queues [OF assms(9)] by simp_all
  have cs: "c_str (drop off_Message (p @ t')) = Inr msg"
    unfolding assms(7) using m by (rule chat_request_Message)
  obtain io' where c: "?W (io1, ?q, Handling i pk []) (io', after_chat ?q i msg, InTask i [])"
    "\<forall>j < n. waiting io' j = waiting io1 j @ (if j = i then [packet_bytes ty (ROOM_CHAT_RESPONSE_PACKET (error_val EC_NONE))] else []) @
      replicate (count_list (room_mates pm i) j) (packet_bytes ty (ROOM_CHAT_NOTIFY_PACKET (mUserID ?u) msg))"
    using whole_chat [OF whole_steps_inv [OF 2 assms(1)] _ same(1) _ _ cs, where ty = ty and g = g and pad = pad]
      same_queues(1) [OF rq] assms(11,12) g(2,4) p(2) rq(1) same by auto
  have 3: "?W\<^sup>*\<^sup>* (io, pm, Waiting) (io', after_chat ?q i msg, InTask i [])"
    using 2 c(1) by (rule rtranclp.rtrancl_into_rtrancl)
  have "pm_inv (after_chat ?q i msg)"
    using whole_steps_inv [OF 3 assms(1)] by (simp add: whole_inv_def server_inv_def)
  moreover have "i < length (pm_users (after_chat ?q i msg))" "slot_bytes (after_chat ?q i msg) i = []"
    "R_mResponseTask (mRedisManager (after_chat ?q i msg)) = []"
    using same(1) resp g(3)
    by (simp_all add: after_chat_def send_all_def push_activity_def slot_bytes_def pm_users_def chat_ready_def)
  ultimately have "silent_step\<^sup>*\<^sup>* (after_chat ?q i msg, InTask i []) ((after_chat ?q i msg)\<lparr>mReadBuffer := []\<rparr>, Waiting)"
    by (rule logic_to_end)
  then have "?W\<^sup>*\<^sup>* (io, pm, Waiting) (io', (after_chat ?q i msg)\<lparr>mReadBuffer := []\<rparr>, Waiting)"
    using 3 silent_whole by (meson rtranclp_trans)
  moreover have "mMySQLManager ((after_chat ?q i msg)\<lparr>mReadBuffer := []\<rparr>) = MySQLManager_PushTask (mMySQLManager pm)
      (task_of i (ChatActivity (mUserID ?u) (roomIndex ?u) msg (clock pm)))"
    using same by (simp add: after_chat_def send_all_def push_activity_def)
  moreover have "waiting io1 j = waiting io j" if "j < n" for j using same_queues(2) [OF rq] that inv(2) by simp
  ultimately show ?thesis using c(2) by metis
qed

section \<open>A slot changes hands before the message is handled\<close>

text \<open>
  The network layer may close the connection of a member and accept a new client on its slot while the message waits
  or its handler is about to run. The system packets that say so are handled later: the room's list, the names and the
  generations are still those of the old connection, and the packets go to the queue of the slot.
\<close>

lemma same_people_chat:
  assumes "same_people pm pm'" and "chat_ready pm i msg"
  shows "chat_ready pm' i msg" and "room_mates pm' i = room_mates pm i" and "mUserID (pm_users pm' ! i) = mUserID (pm_users pm ! i)"
proof -
  have i: "i < length (pm_users pm)" using assms(2) by (simp add: chat_ready_def)
  then obtain rb where u: "pm_users pm' ! i = (pm_users pm ! i)\<lparr>mPacketDataBuffer := rb\<rparr>"
    using assms(1) by (auto simp: same_people_def)
  then show "chat_ready pm' i msg" "room_mates pm' i = room_mates pm i" "mUserID (pm_users pm' ! i) = mUserID (pm_users pm ! i)"
    using assms by (simp_all add: same_people_def chat_ready_def room_mates_def split: option.split)
qed

lemma chat_after_moves:
  assumes "whole_inv good n (io, pm, Handling i pk ts)" and "(net_move good)\<^sup>*\<^sup>* (io, pm) (io', pm')"
    and "chat_ready pm i msg" and "PacketId pk = ucast (packet_id_val ROOM_CHAT_REQUEST)"
    and "pDataPtr pk = TempBuf i" and "deref pm (TempBuf i) = Inr mem" and "c_str (drop off_Message mem) = Inr msg"
    and "sends_ready io'" and "length (room_mates pm i) < length (mFreeList (send_pool (mNet io')))"
  shows "\<exists>io'' pm''. whole_step good g pad (io', pm', Handling i pk ts) (io'', pm'', InTask i ts) \<and>
    (\<forall>j < n. waiting io'' j = waiting io' j @ (if j = i then [packet_bytes ty (ROOM_CHAT_RESPONSE_PACKET (error_val EC_NONE))] else []) @
      replicate (count_list (room_mates pm i) j) (packet_bytes ty (ROOM_CHAT_NOTIFY_PACKET (mUserID (pm_users pm ! i)) msg)))"
proof -
  have sp: "same_people pm pm'" using net_moves_people [OF assms(2)] by simp
  note q = same_people_chat [OF sp assms(3)]
  have inv: "whole_inv good n (io', pm', Handling i pk ts)"
    using whole_steps_inv [OF net_moves_whole [OF assms(2)] assms(1)] .
  have "deref pm' (pDataPtr pk) = Inr mem" using same_people_deref [OF sp assms(6)] assms(5) by simp
  then show ?thesis
    using whole_chat [OF inv assms(8) q(1) assms(4) _ assms(7), of g pad ty] assms(9) q(2,3) by metis
qed

end
