(* ===== verification/AcceptSupply.thy ===== *)
theory AcceptSupply
  imports NetworkSteps
begin

text \<open>
  The accepts that are posted. Only \<open>StartServer\<close> and the completion of another accept post one; closing a
  connection returns its index to the free list and posts nothing. So the number of posted accepts never grows, an accept
  that completes while the free list is empty is not replaced, and a server that was full once accepts
  nobody any more.
\<close>

section \<open>The number of posted accepts\<close>

lemma post_next_posted: "IOCP_post_next ws io = Inr io' \<Longrightarrow> length (posted io') \<le> Suc (length (posted io))"
  by (auto simp: IOCP_post_next_def IOCP_PopFreeSessionIndex_def IOCP_GetClientInfo_def result_simps
      split: if_splits prod.splits)

lemma CloseSocket_posted: "IOCP_CloseSocket ws io i f = Inr io' \<Longrightarrow> posted io' = posted io"
  by (auto simp: IOCP_CloseSocket_def IOCP_PushFreeSessionIndex_def result_simps Let_def split: if_splits prod.splits)

lemma accept_posted:
  assumes "i \<in> set (posted io)" and "IOCP_accept ws ws' (accepted io i) i = Inr io'"
  shows "length (posted io') \<le> length (posted io)"
proof -
  obtain s ok net' s' where s: "IOCP_GetClientInfo (accepted io i) i = Inr s"
    "ClientSession_AcceptCompletion ws (mNet (accepted io i)) s = (ok, net', s')"
    using assms(2) by (auto simp: IOCP_accept_def result_simps) (metis prod.exhaust)
  obtain io1 where "posted io1 = posted (accepted io i)" "IOCP_post_next ws' io1 = Inr io'"
  proof (cases ok)
    case True
    let ?io1 = "(put_session (accepted io i) i net' s')\<lparr>mClientCnt := mClientCnt (accepted io i) + 1,
      app_events := app_events (accepted io i) @ [Ev_Connect (S_mIndex s')]\<rparr>"
    show ?thesis
      by (rule that [of ?io1]) (use True assms(2) s in \<open>simp_all add: IOCP_accept_def Let_def\<close>)
  next
    case False
    then show ?thesis
      using assms(2) s that CloseSocket_posted [of ws "put_session (accepted io i) i net' s'" i True]
      by (auto simp: IOCP_accept_def result_simps)
  qed
  then have "length (posted io') \<le> Suc (length (remove1 i (posted io)))"
    using post_next_posted [of ws' io1 io'] by (simp add: accepted_def)
  moreover have "0 < length (posted io)" using assms(1) by (cases "posted io") simp_all
  ultimately show ?thesis using assms(1) by (simp add: length_remove1)
qed

lemma net_step_posted:
  assumes "net_step good io io'"
  shows "length (posted io') \<le> length (posted io)"
  using assms
proof cases
  case (accept i ws ws')
  then show ?thesis using accept_posted by blast
next
  case (receive ws i p n data)
  then show ?thesis using recv_posted by simp
next
  case (send_done ws i p n)
  then show ?thesis using send_done_slots [of ws io i p n io'] by (simp add: same_slots_def)
next
  case (close ws i f)
  then show ?thesis using CloseSocket_posted by simp
next
  case (send ws i n msg ok)
  then show ?thesis using IOCP_SendMsg_slots [of ws io i n msg ok io'] by (simp add: same_slots_def)
next
  case (timeouts ws now "is")
  then show ?thesis using TimeoutCheck_slots [of ws now io "is" io'] by (simp add: same_slots_def)
qed

lemma net_steps_posted: "(net_step good)\<^sup>*\<^sup>* io io' \<Longrightarrow> length (posted io') \<le> length (posted io)"
proof (induction rule: rtranclp_induct)
  case (step io1 io2)
  then show ?case using net_step_posted by fastforce
qed simp

text \<open>\<open>StartServer\<close> posts \<open>MAX_PENDING_ACCEPT\<close> at most.\<close>

lemma post_loop_posted: "IOCP_post_loop ws k m io = Inr io' \<Longrightarrow> length (posted io') \<le> length (posted io) + m"
proof (induction m arbitrary: k io)
  case (Suc m)
  then obtain io1 where "IOCP_post_next (ws k) io = Inr io1" "IOCP_post_loop ws (k + 1) m io1 = Inr io'"
    by (auto simp: result_simps)
  then show ?case using Suc.IH post_next_posted by fastforce
qed simp

lemma net_init_posted:
  assumes "net_init good n io"
  shows "length (posted io) \<le> MAX_PENDING_ACCEPT"
proof -
  obtain mem ws blk h ok where
    s: "IOCP_StartServer mem ws ((IOCompletionPort_new blk)\<lparr>mIOCPHandle := h\<rparr>) n = Inr (ok, io)"
    using assms by (auto simp: net_init_def)
  let ?io1 = "IOCP_CreateClient mem ((IOCompletionPort_new blk)\<lparr>mIOCPHandle := h\<rparr>) n"
  let ?io2 = "?io1\<lparr>mIsWorkerRun := True, mIOWorkerThreads := mIOWorkerThreads ?io1 + MAX_WORKERTHREAD\<rparr>"
  obtain io3 where l: "IOCP_post_loop ws 0 MAX_PENDING_ACCEPT ?io2 = Inr io3" "io = io3\<lparr>mIsTimeoutRun := True\<rparr>"
    using s by (auto simp: IOCP_StartServer_def IOCP_CreateWorkerThread_def result_simps)
  have "posted ?io2 = []" by (simp add: IOCP_CreateClient_def IOCompletionPort_new_def)
  then show ?thesis using post_loop_posted [OF l(1)] l(2) by simp
qed

lemma posted_bound: "reach (net_init good n) (net_step good) io \<Longrightarrow> length (posted io) \<le> MAX_PENDING_ACCEPT"
proof (induction rule: reach.induct)
  case (reach_init s)
  then show ?case by (rule net_init_posted)
next
  case (reach_step s t)
  then show ?case using net_step_posted by fastforce
qed

section \<open>A server without a posted accept\<close>

lemma CloseSocket_connected:
  assumes "i < length (mClientInfos io)" and "S_mIndex (mClientInfos io ! i) = i"
    and "IOCP_CloseSocket ws io i f = Inr io'"
  shows "connected_slots io' = connected_slots io - {i}"
proof (cases "mIsConnected (mClientInfos io ! i)")
  case True
  then show ?thesis
    using assms CloseSocket_eq [OF assms(1), of ws f] by (auto simp: connected_slots_def nth_list_update split: if_splits)
next
  case False
  then show ?thesis using assms CloseSocket_eq [OF assms(1), of ws f] by (auto simp: connected_slots_def)
qed

text \<open>Nobody is connected who was not.\<close>

lemma net_step_connected:
  assumes "slots_ok io" and "posted io = []" and "net_step good io io'"
  shows "connected_slots io' \<subseteq> connected_slots io"
  using assms(3)
proof cases
  case (receive ws i p n data)
  then show ?thesis using recv_slots_ok(3) assms(1) by blast
next
  case (send_done ws i p n)
  then show ?thesis using send_done_slots same_slots_connected by blast
next
  case (close ws i f)
  then have "i < length (mClientInfos io)"
    by (auto simp: IOCP_CloseSocket_def IOCP_GetClientInfo_def result_simps)
  then show ?thesis using CloseSocket_connected [OF _ _ close(1)] assms(1) by (auto simp: slots_ok_def)
next
  case (send ws i n msg ok)
  then show ?thesis using IOCP_SendMsg_slots same_slots_connected by blast
next
  case (timeouts ws now "is")
  then show ?thesis using TimeoutCheck_slots same_slots_connected by blast
qed (use assms(2) in simp)

lemma net_steps_connected:
  assumes "(net_step good)\<^sup>*\<^sup>* io io'" and "net_inv good n io" and "posted io = []"
  shows "posted io' = [] \<and> net_inv good n io' \<and> connected_slots io' \<subseteq> connected_slots io"
  using assms(1)
proof (induction rule: rtranclp_induct)
  case (step io1 io2)
  then have "posted io1 = []" "net_inv good n io1" "connected_slots io1 \<subseteq> connected_slots io" by simp_all
  then show ?case
    using net_step_posted [OF step(2)] net_inv_step [OF _ step(2)] net_step_connected [OF _ _ step(2)]
    by (auto simp: net_inv_def)
qed (use assms in simp)

text \<open>Every client may leave; then all slots they had are free.\<close>

lemma all_clients_leave:
  assumes "slots_ok io"
  shows "\<exists>io'. (net_step good)\<^sup>*\<^sup>* io io' \<and> connected_slots io' = {} \<and> slots_ok io' \<and> posted io' = posted io \<and>
    set (mFreeSessionList io') = set (mFreeSessionList io) \<union> connected_slots io \<and>
    length (mClientInfos io') = length (mClientInfos io)"
  using assms
proof (induction "card (connected_slots io)" arbitrary: io)
  case 0
  then have "connected_slots io = {}" by simp
  then show ?case using 0(2) by blast
next
  case (Suc k)
  then obtain i where i: "i \<in> connected_slots io" by fastforce
  then have il: "i < length (mClientInfos io)" "mIsConnected (mClientInfos io ! i)" by (simp_all add: connected_slots_def)
  have ix: "S_mIndex (mClientInfos io ! i) = i" using Suc(3) il(1) by (simp add: slots_ok_def)
  obtain io1 where c: "IOCP_CloseSocket undefined io i False = Inr io1"
    and f: "mFreeSessionList io1 = mFreeSessionList io @ [i]"
    using CloseSocket_eq [OF il(1), of undefined False] il(2) ix by simp
  have s: "slots_ok io1" "length (mClientInfos io1) = length (mClientInfos io)"
    using CloseSocket_slots [OF Suc(3) c] by simp_all
  have con: "connected_slots io1 = connected_slots io - {i}" using CloseSocket_connected [OF il(1) ix c] .
  have "k = card (connected_slots io1)" using Suc(2) i con by simp
  from Suc(1) [OF this s(1)] obtain io' where io': "(net_step good)\<^sup>*\<^sup>* io1 io'" "connected_slots io' = {}"
    "slots_ok io'" "posted io' = posted io1" "set (mFreeSessionList io') = set (mFreeSessionList io1) \<union> connected_slots io1"
    "length (mClientInfos io') = length (mClientInfos io1)" by blast
  have "(net_step good)\<^sup>*\<^sup>* io io'"
    using net_step.close [OF c] io'(1) by (rule converse_rtranclp_into_rtranclp)
  then show ?case using io' s con f i CloseSocket_posted [OF c] by auto
qed

text \<open>Every slot connected: no accept is posted.\<close>

lemma full_nothing_posted:
  assumes "slots_ok io" and "connected_slots io = {0..<length (mClientInfos io)}"
  shows "posted io = [] \<and> mFreeSessionList io = []"
proof -
  have "i \<notin> set (mFreeSessionList io @ posted io)" for i
    using waiting_slot(1,2) [OF assms(1), of i] assms(2) by auto
  then have "set (mFreeSessionList io @ posted io) = {}" by (simp only: set_eq_iff empty_iff not_False_eq_True simp_thms)
  then show ?thesis by simp
qed

end
