(* ===== verification/DemoDelivery.thy ===== *)
theory DemoDelivery
  imports Demo Delivery AcceptSupply
begin

text \<open>
  Two slots: \<open>alice\<close> is connected on slot 0 and in room 0, an accept is posted on slot 1. Her chat message is received
  and handled; and slot 0 changes hands before it is handled.
\<close>

definition demo_two :: iocp where
  "demo_two = (demo_io 2)\<lparr>mClientInfos := [(demo_session 0)\<lparr>mIsConnected := True, m_socketClient := Some 7\<rparr>, demo_session 1],
     mFreeSessionList := [], posted := [1], mClientCnt := 1\<rparr>"

lemma demo_two_fields [simp]:
  "mClientInfos demo_two = [(demo_session 0)\<lparr>mIsConnected := True, m_socketClient := Some 7\<rparr>, demo_session 1]"
  "mFreeSessionList demo_two = []" "posted demo_two = [1]" "mClientCnt demo_two = 1" "mNet demo_two = demo_net 8"
  by (simp_all add: demo_two_def)

lemma less_2: "(i :: nat) < 2 \<longleftrightarrow> i = 0 \<or> i = 1" "(i :: nat) < Suc (Suc 0) \<longleftrightarrow> i = 0 \<or> i = 1" by arith+

lemma demo_two_net: "net_inv good 2 demo_two" "sized (mNet demo_two)" "sends_ready demo_two"
proof -
  have c: "connected_slots demo_two = {0}" by (auto simp: connected_slots_def less_2)
  have "slots_ok demo_two" by (simp add: slots_ok_def c UINT32_MAX_def All_less_Suc)
  moreover have "slots_complete demo_two" by (simp add: slots_complete_def c) (simp add: atLeast0_lessThan_Suc numeral_2_eq_2 insert_commute)
  ultimately show "net_inv good 2 demo_two" by (simp add: net_inv_def)
  show "sized (mNet demo_two)" by (simp add: sized_def demo_net_def demo_block_def)
  show "sends_ready demo_two" by (auto simp: sends_ready_def less_2 queue_ok_def)
qed

definition demo_talk :: PacketManager where
  "demo_talk = (demo_room_state 2 0 alice)\<lparr>mIsRunProcessThread := True\<rparr>"

lemma demo_talk_fields [simp]:
  "pm_users demo_talk = pm_users (demo_room_state 2 0 alice)" "mRoomManager demo_talk = mRoomManager (demo_room_state 2 0 alice)"
  "idle demo_talk" "R_mResponseTask (mRedisManager demo_talk) = []" "slot_bytes demo_talk 0 = []"
  "room_mates demo_talk 0 = [0]"
proof -
  show u: "pm_users demo_talk = pm_users (demo_room_state 2 0 alice)" by (simp add: demo_talk_def pm_users_def)
  show r: "mRoomManager demo_talk = mRoomManager (demo_room_state 2 0 alice)" by (simp add: demo_talk_def)
  show "idle demo_talk" by (simp add: demo_talk_def idle_def demo_room_state_def demo_login_def)
  show "R_mResponseTask (mRedisManager demo_talk) = []"
    by (simp add: demo_talk_def demo_room_state_def demo_login_def RedisManager_new_def)
  have "user_bytes (demo_user 0) = []" by simp
  then show "slot_bytes demo_talk 0 = []" using u by (simp add: slot_bytes_def user_bytes_def del: demo_user_fields)
  show "room_mates demo_talk 0 = [0]"
    by (simp add: room_mates_def u r RoomManager_GetRoomByNumber_def RoomManager_Init_def entered_def Room_Init_def Room_new_def)
qed

lemma demo_talk_inv: "server_inv 2 (demo_talk, Waiting)"
proof -
  have "pm_inv demo_talk" using demo_room_inv [of 0 2 alice] by (simp add: demo_talk_def pm_inv_def pm_users_def)
  then show ?thesis
    by (simp add: server_inv_def queues_ok_def demo_talk_def demo_room_state_def demo_login_def RedisManager_new_def pm_users_def)
qed

lemma demo_whole: "whole_inv good 2 (demo_two, demo_talk, Waiting)"
  using demo_two_net demo_talk_inv by (simp add: whole_inv_def)

lemma demo_chat_ready: "chat_ready demo_talk 0 [104, 105]"
  by (simp add: chat_ready_def packet_consts)

section \<open>The message is received\<close>

lemma demo_chat_received:
  "\<exists>io1. IOCP_recv demo_ws (demo_two\<lparr>app_events := []\<rparr>) 0 (OvlRecv 0) 262 (ROOM_CHAT_REQUEST_PACKET 0 [104, 105]) = Inr io1 \<and>
    app_events io1 = [Ev_Receive 0 (ROOM_CHAT_REQUEST_PACKET 0 [104, 105])]"
proof -
  have "length (ROOM_CHAT_REQUEST_PACKET 0 [104, 105]) = 262" by (rule chat_packet) (simp_all add: packet_consts)
  then show ?thesis
    by (simp add: IOCP_recv_def ovl_gen_def IOCP_GetClientInfo_def ClientSession_GetGeneration_def mem_write_def mem_read_def
        SESSION_SOCKBUF_def Let_def ClientSession_UpdateActivity_def ClientSession_BindRecv_def demo_ws_def split: prod.splits)
qed

section \<open>Slot 0 changes hands\<close>

text \<open>Slot 0 is closed, a client comes in on slot 1, so that slot 0 is posted, and another one on slot 0.\<close>

lemma demo_reuse:
  "\<exists>io1 io2 io3. net_step True (demo_two\<lparr>app_events := []\<rparr>) io1 \<and> net_step True (io1\<lparr>app_events := []\<rparr>) io2 \<and>
    net_step True (io2\<lparr>app_events := []\<rparr>) io3 \<and> mIsConnected (mClientInfos io3 ! 0) \<and>
    S_mGeneration (mClientInfos io3 ! 0) \<noteq> S_mGeneration (mClientInfos demo_two ! 0) \<and>
    send_pool (mNet io3) = send_pool (demo_net 8) \<and> blocks (mNet io3) = blocks (demo_net 8) \<and>
    map mSendDataqueue (mClientInfos io3) = [[], []]"
proof -
  have ok: "calls_succeed demo_ws" "ws_bind demo_ws \<noteq> INVALID_HANDLE_VALUE" by (simp_all add: calls_succeed_def demo_ws_def)
  obtain io1 s0 where 1: "IOCP_CloseSocket demo_ws (demo_two\<lparr>app_events := []\<rparr>) 0 False = Inr io1"
    "mClientInfos io1 = [s0, demo_session 1]" "\<not> mIsConnected s0" "S_mGeneration s0 = 0" "S_mIndex s0 = 0" "mSendDataqueue s0 = []"
    "mFreeSessionList io1 = [0]" "posted io1 = [1]" "send_pool (mNet io1) = send_pool (demo_net 8)"
    "blocks (mNet io1) = blocks (demo_net 8)"
    by (simp add: IOCP_CloseSocket_def IOCP_GetClientInfo_def ClientSession_IsConnected_def ClientSession_Closed_def Let_def
        IOCP_PushFreeSessionIndex_def put_session_def)
  obtain io2 s1 s2 where 2: "IOCP_accept demo_ws demo_ws (accepted (io1\<lparr>app_events := []\<rparr>) 1) 1 = Inr io2"
    "mClientInfos io2 = [s1, s2]" "\<not> mIsConnected s1" "S_mGeneration s1 = 0" "mSendDataqueue s1 = []" "mSendDataqueue s2 = []"
    "mFreeSessionList io2 = []" "posted io2 = [0]" "send_pool (mNet io2) = send_pool (demo_net 8)"
    "blocks (mNet io2) = blocks (demo_net 8)"
    using 1(2-10)
    by (simp add: IOCP_accept_def IOCP_GetClientInfo_def accepted_def ClientSession_AcceptCompletion_def ClientSession_OnConnect_def
        Let_def demo_ws_def ClientSession_BindIOCompletionPort_def ClientSession_BindRecv_def ClientSession_UpdateActivity_def
        IOCP_post_next_def IOCP_PopFreeSessionIndex_def UINT32_MAX_def ClientSession_PostImmediateAccept_def
        split: prod.splits)
  obtain io3 where 3: "IOCP_accept demo_ws demo_ws (accepted (io2\<lparr>app_events := []\<rparr>) 0) 0 = Inr io3"
    "mIsConnected (mClientInfos io3 ! 0)" "S_mGeneration (mClientInfos io3 ! 0) = 1"
    "send_pool (mNet io3) = send_pool (demo_net 8)" "blocks (mNet io3) = blocks (demo_net 8)"
    "map mSendDataqueue (mClientInfos io3) = [[], []]"
    using 2(2-10)
    by (simp add: IOCP_accept_def IOCP_GetClientInfo_def accepted_def ClientSession_AcceptCompletion_def ClientSession_OnConnect_def
        Let_def demo_ws_def ClientSession_BindIOCompletionPort_def ClientSession_BindRecv_def ClientSession_UpdateActivity_def
        IOCP_post_next_def IOCP_PopFreeSessionIndex_def split: prod.splits)
  have "net_step True (demo_two\<lparr>app_events := []\<rparr>) io1" using 1(1) by (rule net_step.close)
  moreover have "net_step True (io1\<lparr>app_events := []\<rparr>) io2"
    by (rule net_step.accept [OF _ ok(2) _ 2(1)]) (simp_all add: 1(8) ok)
  moreover have "net_step True (io2\<lparr>app_events := []\<rparr>) io3"
    by (rule net_step.accept [OF _ ok(2) _ 3(1)]) (simp_all add: 2(8) ok)
  ultimately show ?thesis using 3 by (intro exI [of _ io1] exI [of _ io2] exI [of _ io3]) simp
qed

text \<open>The handler of alice's message is about to run when this happens.\<close>

lemma demo_moves:
  assumes "whole_inv True 2 (demo_two, pm, c)"
  shows "\<exists>io3 pm3. (net_move True)\<^sup>*\<^sup>* (demo_two, pm) (io3, pm3) \<and> sends_ready io3 \<and> mIsConnected (mClientInfos io3 ! 0) \<and>
    S_mGeneration (mClientInfos io3 ! 0) \<noteq> S_mGeneration (mClientInfos demo_two ! 0) \<and>
    length (mFreeList (send_pool (mNet io3))) = 8 \<and> waiting io3 0 = []"
proof -
  obtain io1 io2 io3 where n: "net_step True (demo_two\<lparr>app_events := []\<rparr>) io1" "net_step True (io1\<lparr>app_events := []\<rparr>) io2"
    "net_step True (io2\<lparr>app_events := []\<rparr>) io3"
    and f: "mIsConnected (mClientInfos io3 ! 0)" "S_mGeneration (mClientInfos io3 ! 0) \<noteq> S_mGeneration (mClientInfos demo_two ! 0)"
      "send_pool (mNet io3) = send_pool (demo_net 8)" "blocks (mNet io3) = blocks (demo_net 8)"
      "map mSendDataqueue (mClientInfos io3) = [[], []]"
    using demo_reuse by (elim exE conjE) (rule that)
  have move: "\<exists>q'. net_move True (io, q) (io', q') \<and> whole_inv True 2 (io', q', c)"
    if w: "whole_inv True 2 (io, q, c)" and m: "net_step True (io\<lparr>app_events := []\<rparr>) io'" for io io' q
  proof -
    obtain q' where q': "ChatServer_events q (app_events io') = Inr q'"
      using whole_events_handled [OF w m] by blast
    have "whole_inv True 2 (io', q', c)"
      using whole_inv_step [OF w whole_net [OF m q', where redis_get = "\<lambda>_. None" and pad = "\<lambda>_. 0"]] .
    then show ?thesis using m q' by (auto simp: net_move_def)
  qed
  obtain q1 where 1: "net_move True (demo_two, pm) (io1, q1)" "whole_inv True 2 (io1, q1, c)"
    using move [OF assms n(1)] by blast
  obtain q2 where 2: "net_move True (io1, q1) (io2, q2)" "whole_inv True 2 (io2, q2, c)"
    using move [OF 1(2) n(2)] by blast
  obtain q3 where 3: "net_move True (io2, q2) (io3, q3)" using move [OF 2(2) n(3)] by blast
  have "(net_move True)\<^sup>*\<^sup>* (demo_two, pm) (io3, q3)"
    using 1(1) 2(1) 3 by (meson converse_rtranclp_into_rtranclp r_into_rtranclp)
  moreover have "map mSendDataqueue (mClientInfos io3) = map mSendDataqueue (mClientInfos demo_two)"
    using f(5) by simp
  then have "sends_ready io3 = sends_ready demo_two" "waiting io3 0 = waiting demo_two 0"
    using same_queues(1) [of io3 demo_two] same_queues(2) [of io3 demo_two 0] f(3,4) by simp_all
  then have "sends_ready io3" "waiting io3 0 = []" using demo_two_net(3) by (simp_all add: waiting_def)
  moreover have "length (mFreeList (send_pool (mNet io3))) = 8" using f(3) by (simp add: demo_net_def ObjectPool_Init_eq)
  ultimately show ?thesis using f(1,2) by blast
qed

lemma demo_handling:
  "\<exists>pm pk mem. whole_inv True 2 (demo_two, pm, Handling 0 pk []) \<and> chat_ready pm 0 [104, 105] \<and> room_mates pm 0 = [0] \<and>
    mUserID (pm_users pm ! 0) = alice \<and> PacketId pk = ucast (packet_id_val ROOM_CHAT_REQUEST) \<and> pDataPtr pk = TempBuf 0 \<and>
    deref pm (TempBuf 0) = Inr mem \<and> c_str (drop off_Message mem) = Inr [104, 105]"
proof -
  let ?p = "ROOM_CHAT_REQUEST_PACKET 0 [104, 105]" and ?u = "pm_users demo_talk ! 0"
  have m: "0 \<notin> set [104, 105 :: byte]" "length [104, 105 :: byte] \<le> MAX_CHAT_MSG" by (simp_all add: packet_consts)
  note p = chat_packet [OF m, of 0]
  have inv: "pm_inv demo_talk" "0 < length (pm_users demo_talk)"
    using demo_talk_inv by (simp_all add: server_inv_def)
  obtain rb where rb: "pm_inv (demo_talk\<lparr>mUserManager := put_user (mUserManager demo_talk) 0 (?u\<lparr>mPacketDataBuffer := rb\<rparr>)\<rparr>)"
    "slot_bytes (demo_talk\<lparr>mUserManager := put_user (mUserManager demo_talk) 0 (?u\<lparr>mPacketDataBuffer := rb\<rparr>)\<rparr>) 0 = ?p"
    using receive_on_empty [OF inv, of ?p] p(3) by auto
  let ?A = "demo_talk\<lparr>mUserManager := put_user (mUserManager demo_talk) 0 (?u\<lparr>mPacketDataBuffer := rb\<rparr>)\<rparr>"
  let ?B = "?A\<lparr>mWriteBuffer := [\<lparr>clientIndex = 0, generation = mGeneration (pm_users ?A ! 0)\<rparr>]\<rparr>"
  have A: "idle ?A" "0 < length (pm_users ?A)" using inv(2) demo_talk_fields(3) by (simp_all add: idle_def pm_users_def)
  obtain rb' tb t pk where g: "silent_step\<^sup>*\<^sup>* (?B, Waiting) (with_buffers ?A 0 rb' tb, Handling 0 pk [])"
    "deref (with_buffers ?A 0 rb' tb) (TempBuf 0) = Inr (?p @ t)"
    "pk = \<lparr>ClientIndex = 0, PacketId = ucast (frame_id ?p), DataSize = of_nat (length ?p), pDataPtr = TempBuf 0\<rparr>"
    using logic_to_handler [OF rb(1) A rb(2) p(1)] by blast
  have "server_inv 2 (?B, Waiting)"
    using rb(1) demo_talk_inv by (simp add: server_inv_def queues_ok_def pm_inv_def pm_users_def)
  then have "whole_inv True 2 (demo_two, with_buffers ?A 0 rb' tb, Handling 0 pk [])"
    using silent_inv [OF g(1)] demo_two_net by (simp add: whole_inv_def)
  moreover have "chat_ready (with_buffers ?A 0 rb' tb) 0 [104, 105]" "room_mates (with_buffers ?A 0 rb' tb) 0 = [0]"
    "mUserID (pm_users (with_buffers ?A 0 rb' tb) ! 0) = alice"
    using with_buffers_chat(1-3) [OF demo_chat_ready refl, of rb rb' tb] by simp_all
  moreover have "c_str (drop off_Message (?p @ t)) = Inr [104, 105]" using m by (rule chat_request_Message)
  ultimately show ?thesis using g(2,3) p(2) by (intro exI conjI) (assumption | simp)+
qed

end
