(* ===== verification/LoginFlow.thy ===== *)
theory LoginFlow
  imports Disconnect
begin

text \<open>
  A login from the request to the verdict: the handler \<open>ProcessLogin\<close> on the logic thread, the turn of
  the Redis worker, and the handler of the response, composed through the two queues between them.
\<close>

section \<open>A login end to end\<close>

lemma login_fields_bytes:
  assumes "length uid \<le> MAX_USER_ID_LENGTH" and "length pw \<le> MAX_USER_PW_LENGTH"
  shows "login_fields (login_request_bytes ty uid pw @ rest) = char_field 33 uid @ char_field 33 pw"
  "drop off_UserID (login_request_bytes ty uid pw @ rest) = char_field 33 uid @ char_field 33 pw @ rest"
    "length (login_request_bytes ty uid pw) = 71"
  using assms by (simp_all add: login_fields_def login_request_bytes_def packet_consts)

text \<open>The worker's turn on a queue that holds one request.\<close>

lemma Redis_turn_login:
  assumes "R_mRequestTask red = []" and "name_ok uid" and "0 \<notin> set pw" and "length pw \<le> MAX_USER_PW_LENGTH"
  shows "Redis_turn redis_get pad (RedisManager_PushTask red (login_request_task i (char_field 33 uid @ char_field 33 pw))) =
    Inr (Continue (red\<lparr>R_mRequestTask := [], R_mResponseTask := R_mResponseTask red @
      [\<lparr>R_UserIndex = i, R_TaskID = RESPONSE_LOGIN, R_DataSize = RedisLoginRes_size,
        R_pData = Some (RedisLoginRes_bytes pad (error_val (redis_verdict redis_get uid pw)) uid)\<rparr>]\<rparr>))"
  using assms Redis_login_response_ok [of uid pw redis_get pad i]
  by (simp add: name_ok_def Redis_turn_def Redis_take_front_def RedisManager_PushTask_def
      RedisManager_PushResponse_def login_request_task_def)

text \<open>The logic thread's turn on the answer.\<close>

lemma DBResult_verdict:
  assumes "i < length (pm_users pm)" and "name_ok uid" and "mUserIDDictionary (mUserManager pm) uid = None"
    and "e = EC_NONE \<or> e = LOGIN_USER_INVALID_PW"
  shows "\<exists>pm'. ProcessLoginDBResult pm i sz (HeapBuf (RedisLoginRes_bytes pad (error_val e) uid)) = Inr pm' \<and>
    sent pm' = sent pm @ [(i, 7, LOGIN_RESPONSE_PACKET (error_val e))] \<and>
    mUserManager pm' = (if e = EC_NONE
      then UserManager_IncreaseUserCnt (put_user
        (mUserManager pm\<lparr>mUserIDDictionary := (mUserIDDictionary (mUserManager pm))(uid \<mapsto> int i)\<rparr>) i
        ((pm_users pm ! i)\<lparr>mCurDomainState := DS_LOGIN, mUserID := uid\<rparr>))
      else mUserManager pm)"
proof -
  let ?mem = "RedisLoginRes_bytes pad (error_val e) uid"
  have d: "deref pm (HeapBuf ?mem) = Inr ?mem" by (simp add: deref_def)
  show ?thesis
  proof (cases "e = EC_NONE")
    case True
    then show ?thesis
      using DBResult_logged_in [OF assms(1) d _ _ assms(2,3)] Redis_answer_fields [OF assms(2), of pad "error_val e"]
      by (simp add: packet_consts)
  next
    case False
    then have "e = LOGIN_USER_INVALID_PW" using assms(4) by simp
    then show ?thesis
      using DBResult_refused [OF d, of "error_val e"] Redis_answer_fields [OF assms(2), of pad "error_val e"]
      by (simp add: packet_consts)
  qed
qed

lemma login_round_trip:
  assumes "pm_inv pm" and "i < length (pm_users pm)" and "deref pm p = Inr (login_request_bytes ty uid pw @ rest)"
    and "name_ok uid" and "0 \<notin> set pw" and "length pw \<le> MAX_USER_PW_LENGTH"
    and "\<not> is_test_user (char_field 33 uid @ char_field 33 pw @ rest)"
    and "mUserIDDictionary (mUserManager pm) uid = None"
    and "mCurrentUserCnt (mUserManager pm) < mMaxUserCnt (mUserManager pm)"
    and "R_mRequestTask (mRedisManager pm) = []" and "R_mResponseTask (mRedisManager pm) = []"
  shows "\<exists>pm1 red t pm2 pm3. ProcessLogin pm i 71 p = Inr pm1 \<and>
    Redis_turn redis_get pad (mRedisManager pm1) = Inr (Continue red) \<and>
    take_response (pm1\<lparr>mRedisManager := red\<rparr>) = (t, pm2) \<and> handle_response pm2 t = Inr pm3 \<and>
    sent pm3 = sent pm @ [(i, 7, LOGIN_RESPONSE_PACKET (error_val (redis_verdict redis_get uid pw)))] \<and>
    mUserManager pm3 = (if redis_get uid = Some pw
      then UserManager_IncreaseUserCnt (put_user
        (mUserManager pm\<lparr>mUserIDDictionary := (mUserIDDictionary (mUserManager pm))(uid \<mapsto> int i)\<rparr>) i
        ((pm_users pm ! i)\<lparr>mCurDomainState := DS_LOGIN, mUserID := uid\<rparr>))
      else mUserManager pm)"
proof -
  let ?mem = "login_request_bytes ty uid pw @ rest" and ?red = "mRedisManager pm"
  let ?e = "redis_verdict redis_get uid pw"
  let ?req = "login_request_task i (char_field 33 uid @ char_field 33 pw)"
  let ?t = "\<lparr>R_UserIndex = i, R_TaskID = RESPONSE_LOGIN, R_DataSize = RedisLoginRes_size,
    R_pData = Some (RedisLoginRes_bytes pad (error_val ?e) uid)\<rparr>"
  have uid: "0 \<notin> set uid" "length uid \<le> MAX_USER_ID_LENGTH" using assms(4) by (simp_all add: name_ok_def)
  note fields = login_fields_bytes [OF uid(2) assms(6)]
  have c: "c_str (drop off_UserID ?mem) = Inr uid"
    unfolding fields(2) using uid by (intro c_str_char_field) (simp_all add: packet_consts)
  have "ProcessLogin pm i 71 p = Inr (login_branch pm i uid ?mem)"
    using assms(7) fields(3) by (intro Login_ordinary [OF assms(1,3) _ c]) (simp, simp only: fields(2) not_False_eq_True)
  then have p1: "ProcessLogin pm i 71 p = Inr (pm\<lparr>mRedisManager := RedisManager_PushTask ?red ?req\<rparr>)"
    using assms(8,9) by (simp add: login_branch_def fields(1))
  have p2: "Redis_turn redis_get pad (RedisManager_PushTask ?red ?req) =
      Inr (Continue (?red\<lparr>R_mRequestTask := [], R_mResponseTask := [?t]\<rparr>))"
    using Redis_turn_login [OF assms(10,4-6)] assms(11) by simp
  let ?pm2 = "pm\<lparr>mRedisManager := ?red\<lparr>R_mRequestTask := [], R_mResponseTask := []\<rparr>\<rparr>"
  have p3: "take_response (pm\<lparr>mRedisManager := ?red\<lparr>R_mRequestTask := [], R_mResponseTask := [?t]\<rparr>\<rparr>) = (?t, ?pm2)"
    by (simp add: take_response_def RedisManager_TakeResponseTask_def)
  have e: "?e = EC_NONE \<longleftrightarrow> redis_get uid = Some pw" "?e = EC_NONE \<or> ?e = LOGIN_USER_INVALID_PW"
    by (simp_all add: redis_verdict_def)
  have pm2: "i < length (pm_users ?pm2)" "mUserIDDictionary (mUserManager ?pm2) uid = None"
    "pm_users ?pm2 = pm_users pm"
    using assms(2,8) by (simp_all add: pm_users_def)
  obtain pm3 where "ProcessLoginDBResult ?pm2 i (of_nat RedisLoginRes_size)
        (HeapBuf (RedisLoginRes_bytes pad (error_val ?e) uid)) = Inr pm3"
    "sent pm3 = sent pm @ [(i, 7, LOGIN_RESPONSE_PACKET (error_val ?e))]"
    "mUserManager pm3 = (if ?e = EC_NONE
      then UserManager_IncreaseUserCnt (put_user
        (mUserManager pm\<lparr>mUserIDDictionary := (mUserIDDictionary (mUserManager pm))(uid \<mapsto> int i)\<rparr>) i
        ((pm_users pm ! i)\<lparr>mCurDomainState := DS_LOGIN, mUserID := uid\<rparr>))
      else mUserManager pm)"
    using DBResult_verdict [OF pm2(1) assms(4) pm2(2) e(2), of "of_nat RedisLoginRes_size" pad] pm2(3) by auto
  moreover from this(1) have "handle_response ?pm2 ?t = Inr pm3"
    by (simp add: handle_response_def ProcessRecvPacket_def mPacketHandlers_def response_ptr_def)
  ultimately show ?thesis
    by (intro exI [of _ "pm\<lparr>mRedisManager := RedisManager_PushTask ?red ?req\<rparr>"]
        exI [of _ "?red\<lparr>R_mRequestTask := [], R_mResponseTask := [?t]\<rparr>"] exI [of _ ?t] exI [of _ ?pm2] exI [of _ pm3])
      (simp add: p1 p2 p3 e(1))
qed

section \<open>Answers and slots\<close>

text \<open>
  A response names the slot only, not the connection: when the client that asked has gone before its
  login was finished, the answer logs in whoever has the slot.
\<close>

lemma response_after_disconnect:
  assumes "pm_inv pm" and "i < length (pm_users pm)" and "mCurDomainState (pm_users pm ! i) = DS_NONE"
    and "name_ok uid" and "mUserIDDictionary (mUserManager pm) uid = None"
    and "R_mResponseTask (mRedisManager pm) = [t]"
    and "t = \<lparr>R_UserIndex = i, R_TaskID = RESPONSE_LOGIN, R_DataSize = RedisLoginRes_size,
      R_pData = Some (RedisLoginRes_bytes pad (error_val EC_NONE) uid)\<rparr>"
  shows "\<exists>pm1 pm2 pm3. PacketManager_ClearConnectionInfo pm i = Inr pm1 \<and>
    take_response pm1 = (t, pm2) \<and> handle_response pm2 t = Inr pm3 \<and>
    mUserID (pm_users pm3 ! i) = uid \<and> mCurDomainState (pm_users pm3 ! i) = DS_LOGIN \<and>
    sent pm3 = sent pm @ [(i, 7, LOGIN_RESPONSE_PACKET (error_val EC_NONE))]"
proof -
  let ?pm1 = "without_tasks pm i"
  let ?pm2 = "?pm1\<lparr>mRedisManager := (mRedisManager pm)\<lparr>R_mResponseTask := []\<rparr>\<rparr>"
  have c: "PacketManager_ClearConnectionInfo pm i = Inr ?pm1"
    using ClearConnectionInfo_eq [OF assms(1,2)] assms(3) by simp
  have t: "take_response ?pm1 = (t, ?pm2)"
    using assms(6) by (simp add: take_response_def RedisManager_TakeResponseTask_def without_tasks_def)
  have pm2: "pm_users ?pm2 = pm_users pm" "mUserManager ?pm2 = mUserManager pm" "sent ?pm2 = sent pm"
    by simp_all
  obtain pm3 where "ProcessLoginDBResult ?pm2 i (of_nat RedisLoginRes_size)
        (HeapBuf (RedisLoginRes_bytes pad (error_val EC_NONE) uid)) = Inr pm3"
    "sent pm3 = sent pm @ [(i, 7, LOGIN_RESPONSE_PACKET (error_val EC_NONE))]"
    "mUserManager pm3 = UserManager_IncreaseUserCnt (put_user
        (mUserManager pm\<lparr>mUserIDDictionary := (mUserIDDictionary (mUserManager pm))(uid \<mapsto> int i)\<rparr>) i
        ((pm_users pm ! i)\<lparr>mCurDomainState := DS_LOGIN, mUserID := uid\<rparr>))"
    using DBResult_verdict [of i ?pm2 uid EC_NONE "of_nat RedisLoginRes_size" pad] assms(2,4,5)
    unfolding pm2 by auto
  moreover from this(1) have "handle_response ?pm2 t = Inr pm3"
    by (simp add: assms(7) handle_response_def ProcessRecvPacket_def mPacketHandlers_def response_ptr_def)
  moreover have "pm_users pm3 ! i = (pm_users pm ! i)\<lparr>mCurDomainState := DS_LOGIN, mUserID := uid\<rparr>"
    using calculation(3) assms(2) by (simp add: pm_users_def)
  ultimately show ?thesis using c t by (intro exI [of _ ?pm1] exI [of _ ?pm2] exI [of _ pm3]) simp
qed

text \<open>
  The identifiers of the server's own messages are not kept from the clients. A forged \<open>RESPONSE_LOGIN\<close>
  packet reads its result from the length field of its own header, which is not the success code.
\<close>

lemma forged_response:
  assumes "i < length (pm_users pm)" and "deref pm ptr = Inr (p @ rest)" and "wf_packet p"
    and "frame_id p = redis_task_val RESPONSE_LOGIN"
  shows "ProcessRecvPacket pm i (frame_id p) sz ptr =
    Inr (pm_send pm i (LOGIN_RESPONSE_PACKET (of_nat (length p))))"
proof -
  have l: "2 \<le> length p" "of_le (take 2 p) = length p" "0 < length p"
    using assms(3) by (auto simp: wf_packet_def packet_consts frame_length_def)
  have "length p < 2 ^ 16" using frame_length_bound [of p] l(2) by (simp add: frame_length_def)
  then have "unat (of_nat (length p) :: UINT16) = length p" by (simp add: unat_of_nat)
  then have "(of_nat (length p) :: UINT16) \<noteq> 0" using l(3) by (metis unat_0 less_irrefl)
  moreover have "get_UINT16 (p @ rest) 0 = Inr (of_nat (length p))"
    using l by (simp add: get_UINT16_def mem_read_def)
  ultimately have "ProcessLoginDBResult pm i sz ptr = Inr (pm_send pm i (LOGIN_RESPONSE_PACKET (of_nat (length p))))"
    using DBResult_refused [OF assms(2)] by simp
  then show ?thesis using assms(4) by (simp add: ProcessRecvPacket_def mPacketHandlers_def)
qed

end
