(* ===== verification/CloseRace.thy ===== *)
theory CloseRace
  imports SlotAccounting
begin

text \<open>
  \<open>IOCompletionPort::CloseSocket\<close> without the assumption that it runs alone. The test of \<open>mIsConnected\<close>, a plain
  \<open>bool\<close>, and the closing after it are not under a lock: a receive and a send of one connection that complete
  on two workers at once may both pass the test. The step relation interleaves the two halves; a worker
  alone does what \<open>IOCP_CloseSocket\<close> does.
\<close>

section \<open>The two halves\<close>

definition CloseSocket_check :: "iocp \<Rightarrow> nat \<Rightarrow> bool result" where
  "CloseSocket_check io i = bindr (IOCP_GetClientInfo io i) (\<lambda>s. Inr (ClientSession_IsConnected s))"

definition CloseSocket_act :: "winsock \<Rightarrow> iocp \<Rightarrow> nat \<Rightarrow> bool \<Rightarrow> iocp result" where
  "CloseSocket_act ws io i bIsForce =
     bindr (IOCP_GetClientInfo io i) (\<lambda>s.
       let clientIndex = S_mIndex s;
           (net', s') = ClientSession_Closed ws (mNet io) s bIsForce;
           io1 = put_session io i net' s';
           io2 = io1\<lparr>app_events := app_events io1 @ [Ev_Close clientIndex]\<rparr>;
           io3 = IOCP_PushFreeSessionIndex io2 clientIndex
       in Inr (io3\<lparr>mClientCnt := mClientCnt io3 - 1\<rparr>))"

lemma CloseSocket_halves:
  "IOCP_CloseSocket ws io i f =
     bindr (CloseSocket_check io i) (\<lambda>go. if go then CloseSocket_act ws io i f else Inr io)"
  by (cases "IOCP_GetClientInfo io i")
    (simp_all add: IOCP_CloseSocket_def CloseSocket_check_def CloseSocket_act_def)

text \<open>
  A worker is before the test, past a test that said yes, or done: it was turned away by the test, or it has closed.
\<close>

datatype closer = Before | Past | TurnedAway | HasClosed

inductive close_step :: "(nat \<Rightarrow> winsock) \<Rightarrow> nat \<Rightarrow> iocp \<times> (nat \<Rightarrow> closer) \<Rightarrow> iocp \<times> (nat \<Rightarrow> closer) \<Rightarrow> bool"
  for ws i where
  check: "pc w = Before \<Longrightarrow> CloseSocket_check io i = Inr go \<Longrightarrow>
    close_step ws i (io, pc) (io, pc(w := if go then Past else TurnedAway))"
| act: "pc w = Past \<Longrightarrow> CloseSocket_act (ws w) io i f = Inr io' \<Longrightarrow>
    close_step ws i (io, pc) (io', pc(w := HasClosed))"

inductive_cases close_stepE: "close_step ws i s s'"

definition close_start :: "iocp \<Rightarrow> iocp \<times> (nat \<Rightarrow> closer) \<Rightarrow> bool" where
  "close_start io0 s \<longleftrightarrow> s = (io0, \<lambda>_. Before)"

section \<open>What any interleaving does\<close>

lemma CloseSocket_act_fields:
  assumes "i < length (mClientInfos io)" and "S_mIndex (mClientInfos io ! i) = i"
  shows "\<exists>io'. CloseSocket_act ws io i f = Inr io' \<and> app_events io' = app_events io @ [Ev_Close i] \<and>
    mFreeSessionList io' = mFreeSessionList io @ [i] \<and> mClientCnt io' = mClientCnt io - 1 \<and> posted io' = posted io \<and>
    length (mClientInfos io') = length (mClientInfos io) \<and> S_mIndex (mClientInfos io' ! i) = i \<and>
    \<not> mIsConnected (mClientInfos io' ! i)"
  using assms
  by (simp add: CloseSocket_act_def IOCP_GetClientInfo_def ClientSession_Closed_def Let_def
      IOCP_PushFreeSessionIndex_def)

text \<open>The workers that have closed, and all that got past the test.\<close>

definition closed_by :: "(nat \<Rightarrow> closer) \<Rightarrow> nat set" where
  "closed_by pc = {w. pc w = HasClosed}"

definition passed_by :: "(nat \<Rightarrow> closer) \<Rightarrow> nat set" where
  "passed_by pc = {w. pc w = Past \<or> pc w = HasClosed}"

text \<open>
  The index was pushed once for each worker that has closed, and the counter went down as often. The
  session counts as connected exactly as long as none has, and then nobody is done.
\<close>

definition close_inv :: "iocp \<Rightarrow> nat \<Rightarrow> iocp \<times> (nat \<Rightarrow> closer) \<Rightarrow> bool" where
  "close_inv io0 i s \<longleftrightarrow> (case s of (io, pc) \<Rightarrow> \<exists>k.
     finite (passed_by pc) \<and> k = card (closed_by pc) \<and>
     mFreeSessionList io = mFreeSessionList io0 @ replicate k i \<and> mClientCnt io = mClientCnt io0 - int k \<and>
     app_events io = app_events io0 @ replicate k (Ev_Close i) \<and> posted io = posted io0 \<and>
     length (mClientInfos io) = length (mClientInfos io0) \<and> S_mIndex (mClientInfos io ! i) = i \<and>
     (mIsConnected (mClientInfos io ! i) \<longleftrightarrow> k = 0) \<and> (\<forall>w. pc w = TurnedAway \<longrightarrow> 0 < k))"

lemma closed_passed: "closed_by pc \<subseteq> passed_by pc"
  by (auto simp: closed_by_def passed_by_def)

lemma closer_sets [simp]:
  "closed_by (pc(w := TurnedAway)) = closed_by pc - {w}" "passed_by (pc(w := TurnedAway)) = passed_by pc - {w}"
  "closed_by (pc(w := Past)) = closed_by pc - {w}" "passed_by (pc(w := Past)) = insert w (passed_by pc)"
  "closed_by (pc(w := HasClosed)) = insert w (closed_by pc)" "passed_by (pc(w := HasClosed)) = insert w (passed_by pc)"
  "closed_by (\<lambda>_. Before) = {}" "passed_by (\<lambda>_. Before) = {}"
  by (auto simp: closed_by_def passed_by_def)

lemma close_inv_facts:
  assumes "i < length (mClientInfos io0)" and "close_inv io0 i (io, pc)"
  shows "mFreeSessionList io = mFreeSessionList io0 @ replicate (card (closed_by pc)) i \<and>
    mClientCnt io = mClientCnt io0 - int (card (closed_by pc)) \<and>
    app_events io = app_events io0 @ replicate (card (closed_by pc)) (Ev_Close i) \<and>
    finite (passed_by pc) \<and> closed_by pc \<subseteq> passed_by pc \<and>
    (mIsConnected (mClientInfos io ! i) \<longleftrightarrow> closed_by pc = {}) \<and>
    (\<forall>w. pc w = TurnedAway \<longrightarrow> closed_by pc \<noteq> {}) \<and>
    (\<forall>w. passed_by pc = {w} \<and> pc w = HasClosed \<longrightarrow>
       mFreeSessionList io = mFreeSessionList io0 @ [i] \<and> mClientCnt io = mClientCnt io0 - 1 \<and>
       app_events io = app_events io0 @ [Ev_Close i])"
proof -
  have fin: "finite (closed_by pc)" using assms(2) finite_subset [OF closed_passed] by (auto simp: close_inv_def)
  have one: "closed_by pc = {w}" if "passed_by pc = {w}" "pc w = HasClosed" for w
    using that closed_passed [of pc] by (auto simp: closed_by_def)
  show ?thesis
    using assms(2) fin closed_passed [of pc] by (auto simp: close_inv_def one)
qed

lemma close_inv_start:
  "slots_ok io0 \<Longrightarrow> i < length (mClientInfos io0) \<Longrightarrow> mIsConnected (mClientInfos io0 ! i) \<Longrightarrow>
     close_start io0 s \<Longrightarrow> close_inv io0 i s"
  by (auto simp: close_inv_def close_start_def slots_ok_def intro!: exI [of _ 0])

lemma close_inv_step:
  assumes "i < length (mClientInfos io0)" and "close_inv io0 i s" and "close_step ws i s s'"
  shows "close_inv io0 i s'"
  using assms(3)
proof cases
  case (check pc w io go)
  have "closed_by pc - {w} = closed_by pc" using check(3) by (auto simp: closed_by_def)
  then show ?thesis
    using assms(1,2) check
    by (auto simp: close_inv_def CloseSocket_check_def IOCP_GetClientInfo_def ClientSession_IsConnected_def)
next
  case (act pc w io f io')
  obtain k where k: "k = card (closed_by pc)" "finite (passed_by pc)" "mFreeSessionList io = mFreeSessionList io0 @ replicate k i" "mClientCnt io = mClientCnt io0 - int k"
    "app_events io = app_events io0 @ replicate k (Ev_Close i)" "posted io = posted io0"
    "length (mClientInfos io) = length (mClientInfos io0)" "S_mIndex (mClientInfos io ! i) = i"
    using assms(2) act(1) by (auto simp: close_inv_def)
  have i: "i < length (mClientInfos io)" using assms(1) k(7) by simp
  have "w \<notin> closed_by pc" using act(3) by (simp add: closed_by_def)
  then have "card (insert w (closed_by pc)) = Suc k"
    using k(1,2) finite_subset [OF closed_passed] by simp
  then show ?thesis
    using CloseSocket_act_fields [OF i k(8), of "ws w" f] act k
    by (auto simp: close_inv_def replicate_append_same)
qed

lemma close_inv_reach:
  assumes "slots_ok io0" and "i < length (mClientInfos io0)" and "mIsConnected (mClientInfos io0 ! i)"
    and "reach (close_start io0) (close_step ws i) s"
  shows "close_inv io0 i s"
  using assms(4)
proof (induction rule: reach.induct)
  case (reach_init s)
  then show ?case by (rule close_inv_start [OF assms(1-3)])
next
  case (reach_step s t)
  then show ?case using close_inv_step [OF assms(2)] by blast
qed

section \<open>Two workers close one connection\<close>

lemma double_close_run:
  assumes "slots_ok io" and "i < length (mClientInfos io)" and "mIsConnected (mClientInfos io ! i)"
  shows "\<exists>io2 pc. reach (close_start io) (close_step ws i) (io2, pc) \<and> closed_by pc = {0, 1} \<and>
    mFreeSessionList io2 = mFreeSessionList io @ [i, i] \<and> mClientCnt io2 = mClientCnt io - 2 \<and>
    app_events io2 = app_events io @ [Ev_Close i, Ev_Close i]"
proof -
  let ?pc1 = "(\<lambda>_. Before)(0 := Past)" and ?pc2 = "((\<lambda>_. Before)(0 := Past))(1 := Past)"
  have ix: "S_mIndex (mClientInfos io ! i) = i" using assms(1,2) by (simp add: slots_ok_def)
  have go: "CloseSocket_check io i = Inr True"
    using assms(2,3) by (simp add: CloseSocket_check_def IOCP_GetClientInfo_def ClientSession_IsConnected_def)
  have r0: "reach (close_start io) (close_step ws i) (io, \<lambda>_. Before)"
    by (rule reach_init) (simp add: close_start_def)
  have r1: "reach (close_start io) (close_step ws i) (io, ?pc1)"
    using reach_step [OF r0 close_step.check [where w = 0 and ws = ws, OF _ go]] by simp
  have r2: "reach (close_start io) (close_step ws i) (io, ?pc2)"
    using reach_step [OF r1 close_step.check [where w = 1 and ws = ws, OF _ go]] by simp
  obtain io1 where a1: "CloseSocket_act (ws 0) io i True = Inr io1"
    and f1: "app_events io1 = app_events io @ [Ev_Close i]" "mFreeSessionList io1 = mFreeSessionList io @ [i]"
      "mClientCnt io1 = mClientCnt io - 1" "length (mClientInfos io1) = length (mClientInfos io)"
      "S_mIndex (mClientInfos io1 ! i) = i"
    using CloseSocket_act_fields [OF assms(2) ix] by blast
  have r3: "reach (close_start io) (close_step ws i) (io1, ?pc2(0 := HasClosed))"
    by (rule reach_step [OF r2 close_step.act [where w = 0 and ws = ws, OF _ a1]]) simp
  obtain io2 where a2: "CloseSocket_act (ws 1) io1 i True = Inr io2"
    and f2: "app_events io2 = app_events io1 @ [Ev_Close i]" "mFreeSessionList io2 = mFreeSessionList io1 @ [i]"
      "mClientCnt io2 = mClientCnt io1 - 1"
    using CloseSocket_act_fields [of i io1 "ws 1" True] assms(2) f1(4,5) by auto
  have r4: "reach (close_start io) (close_step ws i) (io2, (?pc2(0 := HasClosed))(1 := HasClosed))"
    by (rule reach_step [OF r3 close_step.act [where w = 1 and ws = ws, OF _ a2]]) simp
  moreover have "closed_by ((?pc2(0 := HasClosed))(1 := HasClosed)) = {0, 1}" by (auto simp: closed_by_def)
  ultimately show ?thesis using f1 f2 by (intro exI conjI) (assumption | simp)+
qed

end
