(* ===== verification/Shutdown.thy ===== *)
theory Shutdown
  imports IOCompletionPort
begin

text \<open>
  The end of the worker threads in \<open>IOCompletionPort::DestroyThread\<close>: one null entry is posted for each worker, and
  all workers are joined before the port is closed. A worker inside \<open>GetQueuedCompletionStatusEx\<close> waits without a timeout
  and gets any number of entries up to the limit it passes. The step relation starts when all I/O is done and all workers
  wait; from then on the call has no reason to fail, since the port is still open.
\<close>

section \<open>Steps\<close>

definition MAX_COMPLETION_ENTRIES :: nat where "MAX_COMPLETION_ENTRIES = 64"

text \<open>\<open>PostQueuedCompletionStatus(mIOCPHandle, 0, 0, NULL)\<close>.\<close>

definition null_entry :: completion where
  "null_entry = \<lparr>lpCompletionKey = 0, dwNumberOfBytesTransferred = 0, lpOverlapped = None, received = []\<rparr>"

text \<open>Step 4 of \<open>DestroyThread\<close>, up to the joins.\<close>

definition IOCP_wake_workers :: "iocp \<Rightarrow> iocp \<times> completion list" where
  "IOCP_wake_workers io = (io\<lparr>mIsWorkerRun := False\<rparr>, replicate (mIOWorkerThreads io) null_entry)"

text \<open>A worker is at the test of its loop, inside the call, or has returned from \<open>WorkerThread\<close>.\<close>

datatype worker = AtLoop | InCall | Gone

type_synonym workers = "iocp \<times> completion list \<times> (nat \<Rightarrow> worker)"

inductive worker_step :: "nat \<Rightarrow> workers \<Rightarrow> workers \<Rightarrow> bool" for limit where
  worker_call: "pc w = AtLoop \<Longrightarrow> mIsWorkerRun io \<Longrightarrow> worker_step limit (io, q, pc) (io, q, pc(w := InCall))"
| worker_leave: "pc w = AtLoop \<Longrightarrow> \<not> mIsWorkerRun io \<Longrightarrow> worker_step limit (io, q, pc) (io, q, pc(w := Gone))"
| worker_entries: "pc w = InCall \<Longrightarrow> es \<noteq> [] \<Longrightarrow> length es \<le> limit \<Longrightarrow> IOCP_entries ws 0 io es = Inr io' \<Longrightarrow>
    worker_step limit (io, es @ rest, pc) (io', rest, pc(w := AtLoop))"

inductive_cases worker_stepE: "worker_step limit s t"

text \<open>All I/O is done: every worker waits in the call when the null entries are posted.\<close>

definition workers_start :: "iocp \<Rightarrow> workers \<Rightarrow> bool" where
  "workers_start io s \<longleftrightarrow> (case IOCP_wake_workers io of (io', q) \<Rightarrow>
     s = (io', q, \<lambda>w. if w < mIOWorkerThreads io then InCall else Gone))"

text \<open>The joins of the threads return.\<close>

definition all_gone :: "workers \<Rightarrow> bool" where
  "all_gone s \<longleftrightarrow> (case s of (io, q, pc) \<Rightarrow> \<forall>w < mIOWorkerThreads io. pc w = Gone)"

section \<open>The null entries\<close>

lemma null_entries: "IOCP_entries ws k io (replicate (Suc m) null_entry) = Inr (io\<lparr>mIsWorkerRun := False\<rparr>)"
  by (induction m arbitrary: k io) (simp_all add: IOCP_entry_def null_entry_def)

lemma flag_off: "\<not> mIsWorkerRun io \<Longrightarrow> io\<lparr>mIsWorkerRun := False\<rparr> = io"
  by (cases io) simp

definition in_call :: "workers \<Rightarrow> nat set" where
  "in_call s = (case s of (io, q, pc) \<Rightarrow> {w. w < mIOWorkerThreads io \<and> pc w = InCall})"

definition workers_inv :: "iocp \<Rightarrow> workers \<Rightarrow> bool" where
  "workers_inv io0 s \<longleftrightarrow> (case s of (io, q, pc) \<Rightarrow> io = io0\<lparr>mIsWorkerRun := False\<rparr> \<and>
     (\<forall>e \<in> set q. e = null_entry) \<and> (\<forall>w \<ge> mIOWorkerThreads io0. pc w = Gone))"

lemma workers_inv_start: "workers_start io0 s \<Longrightarrow> workers_inv io0 s"
  by (auto simp: workers_start_def workers_inv_def IOCP_wake_workers_def)

text \<open>Only null entries are taken, so the state of the network layer stays.\<close>

lemma only_null:
  assumes "\<forall>e \<in> set es. e = null_entry" and "es \<noteq> []" and "\<not> mIsWorkerRun io" and "IOCP_entries ws k io es = Inr io'"
  shows "io' = io"
proof -
  obtain m where "length es = Suc m" using assms(2) by (cases es) auto
  then have "es = replicate (Suc m) null_entry" using assms(1) by (metis replicate_length_same)
  then have "Inr io' = IOCP_entries ws k io (replicate (Suc m) null_entry)" using assms(4) by metis
  also have "\<dots> = Inr io" by (simp only: null_entries flag_off [OF assms(3)])
  finally show ?thesis by simp
qed

lemma workers_inv_step:
  assumes "workers_inv io0 s" and "worker_step limit s t"
  shows "workers_inv io0 t"
  using assms(2)
proof cases
  case (worker_entries pc w es ws io io' rest)
  then show ?thesis
    using only_null [of es io ws 0 io'] assms(1) by (auto simp: workers_inv_def)
qed (use assms(1) in \<open>auto simp: workers_inv_def\<close>)

interpretation workers: invariant_system "workers_start io0" "worker_step limit" "workers_inv io0"
  by unfold_locales (auto intro: workers_inv_start workers_inv_step)

section \<open>One entry for each call\<close>

text \<open>As long as each call takes one entry, there is one left for every worker that waits.\<close>

definition enough_entries :: "workers \<Rightarrow> bool" where
  "enough_entries s \<longleftrightarrow> (case s of (io, q, pc) \<Rightarrow> card (in_call s) \<le> length q)"

lemma in_call_finite [simp]: "finite (in_call s)"
  by (cases s) (simp add: in_call_def)

lemma enough_start: "workers_start io0 s \<Longrightarrow> enough_entries s"
proof -
  assume "workers_start io0 s"
  then have "in_call s = {0..<mIOWorkerThreads io0}" "fst (snd s) = replicate (mIOWorkerThreads io0) null_entry"
    by (auto simp: workers_start_def IOCP_wake_workers_def in_call_def)
  then show ?thesis by (cases s) (simp add: enough_entries_def)
qed

text \<open>What is left to do for all workers.\<close>

definition todo :: "workers \<Rightarrow> nat" where
  "todo s = (case s of (io, q, pc) \<Rightarrow> (\<Sum>w < mIOWorkerThreads io. case pc w of InCall \<Rightarrow> 2 | AtLoop \<Rightarrow> 1 | Gone \<Rightarrow> 0))"

lemma sum_fun_upd_less:
  assumes "w < (n :: nat)" and "f x < (f (pc w) :: nat)"
  shows "(\<Sum>v < n. f ((pc(w := x)) v)) < (\<Sum>v < n. f (pc v))"
  using assms by (intro sum_strict_mono_ex1) auto

lemma workers_progress:
  assumes "workers_inv io0 s" and "worker_step limit s t"
  shows "todo t < todo s"
  using assms(2)
proof cases
  case (worker_call pc w io q)
  then show ?thesis using assms(1) by (auto simp: workers_inv_def)
next
  case (worker_leave pc w io q)
  have "w < mIOWorkerThreads io0" using assms(1) worker_leave by (auto simp: workers_inv_def intro: leI ccontr)
  then show ?thesis
    using sum_fun_upd_less [of w "mIOWorkerThreads io0" "\<lambda>x. case x of InCall \<Rightarrow> 2 | AtLoop \<Rightarrow> 1 | Gone \<Rightarrow> 0" Gone pc]
      assms(1) worker_leave by (simp add: todo_def workers_inv_def)
next
  case (worker_entries pc w es ws io io' rest)
  have "w < mIOWorkerThreads io0" using assms(1) worker_entries by (auto simp: workers_inv_def intro: leI ccontr)
  moreover have "io' = io"
    using only_null [of es io ws 0 io'] assms(1) worker_entries by (simp add: workers_inv_def)
  ultimately show ?thesis
    using sum_fun_upd_less [of w "mIOWorkerThreads io0" "\<lambda>x. case x of InCall \<Rightarrow> 2 | AtLoop \<Rightarrow> 1 | Gone \<Rightarrow> 0" AtLoop pc]
      assms(1) worker_entries by (simp add: todo_def workers_inv_def)
qed

lemma enough_step:
  assumes "workers_inv io0 s" and "enough_entries s" and "worker_step 1 s t"
  shows "enough_entries t"
  using assms(3)
proof cases
  case (worker_call pc w io q)
  then show ?thesis using assms(1) by (auto simp: workers_inv_def)
next
  case (worker_leave pc w io q)
  then have "in_call t = in_call s" by (auto simp: in_call_def)
  then show ?thesis using assms(2) worker_leave by (simp add: enough_entries_def)
next
  case (worker_entries pc w es ws io io' rest)
  have w: "w < mIOWorkerThreads io0" using assms(1) worker_entries by (auto simp: workers_inv_def intro: leI ccontr)
  have io': "io' = io"
    using only_null [of es io ws 0 io'] assms(1) worker_entries by (simp add: workers_inv_def)
  then have "in_call t = in_call s - {w}" using worker_entries by (auto simp: in_call_def)
  moreover have "w \<in> in_call s" using w worker_entries assms(1) by (simp add: in_call_def workers_inv_def)
  ultimately have "Suc (card (in_call t)) = card (in_call s)" by (metis card_Suc_Diff1 in_call_finite)
  moreover have "length es = 1" using worker_entries(4,5) by (cases es) auto
  ultimately show ?thesis using assms(2) worker_entries by (simp add: enough_entries_def)
qed

lemma enough_reach: "reach (workers_start io0) (worker_step 1) s \<Longrightarrow> enough_entries s"
proof (induction rule: reach.induct)
  case (reach_init s)
  then show ?case by (rule enough_start)
next
  case (reach_step s t)
  then show ?case using enough_step workers.inv_reach by blast
qed

lemma one_entry_no_deadlock:
  assumes "reach (workers_start io0) (worker_step 1) s"
  shows "all_gone s \<or> (\<exists>t. worker_step 1 s t)"
proof (cases "all_gone s")
  case False
  obtain io q pc where s: "s = (io, q, pc)" by (metis prod.exhaust)
  have inv: "workers_inv io0 s" using workers.inv_reach [OF assms] .
  obtain w where w: "w < mIOWorkerThreads io" "pc w \<noteq> Gone" using False by (auto simp: all_gone_def s)
  show ?thesis
  proof (cases "pc w")
    case AtLoop
    moreover have "\<not> mIsWorkerRun io" using inv by (auto simp: workers_inv_def s)
    ultimately show ?thesis unfolding s by (metis worker_leave)
  next
    case InCall
    then have "w \<in> in_call s" using w(1) by (simp add: in_call_def s)
    then have "0 < length q"
      using enough_reach [OF assms] card_gt_0_iff [of "in_call s"] by (auto simp: enough_entries_def s)
    then obtain rest where q: "q = [null_entry] @ rest"
      using inv by (cases q) (auto simp: workers_inv_def s)
    have "IOCP_entries (\<lambda>_. undefined) 0 io [null_entry] = Inr (io\<lparr>mIsWorkerRun := False\<rparr>)"
      using null_entries [of _ 0 io 0] by simp
    from worker_entries [where pc = pc and w = w and limit = 1 and rest = rest, OF InCall _ _ this]
    have "worker_step 1 (io, [null_entry] @ rest, pc) (io\<lparr>mIsWorkerRun := False\<rparr>, rest, pc(w := AtLoop))" by simp
    then show ?thesis unfolding s q by blast
  qed (use w in simp)
qed simp

text \<open>So the joins can always still return, and no run goes on for ever (\<open>workers_progress\<close>).\<close>

lemma one_entry_ends:
  assumes "reach (workers_start io0) (worker_step 1) s"
  shows "\<exists>t. reach (workers_start io0) (worker_step 1) t \<and> all_gone t"
  using assms
proof (induction "todo s" arbitrary: s rule: less_induct)
  case less
  show ?case
  proof (cases "all_gone s")
    case False
    then obtain t where t: "worker_step 1 s t" using one_entry_no_deadlock [OF less.prems] by blast
    have "todo t < todo s" using workers.inv_reach [OF less.prems] t by (rule workers_progress)
    moreover have "reach (workers_start io0) (worker_step 1) t" using less.prems t by (rule reach_step)
    ultimately show ?thesis by (rule less.hyps)
  qed (use less.prems in blast)
qed

lemma worker_step_mono: "worker_step limit s t \<Longrightarrow> limit \<le> limit' \<Longrightarrow> worker_step limit' s t"
  by (induction rule: worker_step.induct) (auto intro: worker_step.intros)

lemma reach_limit_mono:
  "reach (workers_start io0) (worker_step limit) s \<Longrightarrow> limit \<le> limit' \<Longrightarrow> reach (workers_start io0) (worker_step limit') s"
  by (induction rule: reach.induct) (auto intro: reach_init reach_step worker_step_mono)

lemma workers_start_exists: "\<exists>s. workers_start io0 s"
  by (auto simp: workers_start_def IOCP_wake_workers_def)

lemma shutdown_may_end:
  assumes "1 \<le> limit"
  shows "\<exists>s. reach (workers_start io0) (worker_step limit) s \<and> all_gone s"
  using workers_start_exists one_entry_ends reach_init reach_limit_mono [OF _ assms] by metis

section \<open>Many entries for one call\<close>

text \<open>The first worker takes all entries and leaves; the others wait for ever.\<close>

lemma one_takes_all:
  assumes "2 \<le> mIOWorkerThreads io0" and "mIOWorkerThreads io0 \<le> limit"
  shows "\<exists>s. reach (workers_start io0) (worker_step limit) s \<and> \<not> all_gone s \<and> (\<forall>t. \<not> worker_step limit s t)"
proof -
  let ?n = "mIOWorkerThreads io0" and ?io = "io0\<lparr>mIsWorkerRun := False\<rparr>"
  let ?pc = "\<lambda>w. if w < mIOWorkerThreads io0 then InCall else Gone"
  let ?R = "reach (workers_start io0) (worker_step limit)"
  have e: "IOCP_entries (\<lambda>_. undefined) 0 ?io (replicate ?n null_entry) = Inr ?io"
    using null_entries [of _ 0 ?io "?n - 1"] assms(1) by simp
  have "?R (?io, replicate ?n null_entry @ [], ?pc)"
    by (rule reach_init) (simp add: workers_start_def IOCP_wake_workers_def)
  moreover have "worker_step limit (?io, replicate ?n null_entry @ [], ?pc) (?io, [], ?pc(0 := AtLoop))"
    by (rule worker_entries [OF _ _ _ e]) (use assms in auto)
  ultimately have "?R (?io, [], ?pc(0 := AtLoop))" by (rule reach_step)
  moreover have "worker_step limit (?io, [], ?pc(0 := AtLoop)) (?io, [], (?pc(0 := AtLoop))(0 := Gone))"
    by (rule worker_leave) simp_all
  ultimately have "?R (?io, [], (?pc(0 := AtLoop))(0 := Gone))" by (rule reach_step)
  moreover have "\<not> all_gone (?io, [], (?pc(0 := AtLoop))(0 := Gone))"
    using assms(1) by (auto simp: all_gone_def intro!: exI [of _ 1])
  moreover have "\<not> worker_step limit (?io, [], (?pc(0 := AtLoop))(0 := Gone)) t" for t
    by (auto elim!: worker_stepE split: if_splits)
  ultimately show ?thesis by blast
qed

end
