(* ===== verification/Sds.thy ===== *)
theory Sds
  imports Prelude
begin

unbundle bit_operations_syntax

text \<open>
  The header of a dynamic string of hiredis (\<open>include/hiredis/sds.h\<close>): the inline functions that read and
  change the length and the capacity stored before the characters. A string is an offset \<open>s\<close> into a memory
  object; everything before \<open>s\<close> is the header. The flag \<open>packed\<close> tells whether the compiler honours
  \<open>__attribute__((__packed__))\<close>: under MSVC the header file defines it away, so the structures are padded
  to a multiple of the width of their fields. \<open>size_t\<close> has 64 bits.
\<close>

section \<open>The header\<close>

text \<open>\<open>sizeof(struct sdshdr##T)\<close>: two fields of \<open>w\<close> bytes and the flags byte, padded or not.\<close>

definition sizeof_sdshdr :: "bool \<Rightarrow> nat \<Rightarrow> nat" where
  "sizeof_sdshdr packed w = (if packed then 2 * w + 1 else 3 * w)"

definition SDS_TYPE_5 :: byte where "SDS_TYPE_5 = 0"
definition SDS_TYPE_8 :: byte where "SDS_TYPE_8 = 1"
definition SDS_TYPE_16 :: byte where "SDS_TYPE_16 = 2"
definition SDS_TYPE_32 :: byte where "SDS_TYPE_32 = 3"
definition SDS_TYPE_64 :: byte where "SDS_TYPE_64 = 4"
definition SDS_TYPE_MASK :: byte where "SDS_TYPE_MASK = 7"
definition SDS_TYPE_BITS :: nat where "SDS_TYPE_BITS = 3"

lemmas sds_consts = SDS_TYPE_5_def SDS_TYPE_8_def SDS_TYPE_16_def SDS_TYPE_32_def SDS_TYPE_64_def
  SDS_TYPE_MASK_def SDS_TYPE_BITS_def

text \<open>The number of bytes of a field of type \<open>uintN_t\<close>, and \<open>SDS_HDR(T,s)\<close>: where the structure starts.\<close>

definition field_width :: "'w::len word \<Rightarrow> nat" where
  "field_width x = size x div 8"

definition SDS_HDR :: "bool \<Rightarrow> nat \<Rightarrow> nat \<Rightarrow> nat result" where
  "SDS_HDR packed w s = (if sizeof_sdshdr packed w \<le> s then Inr (s - sizeof_sdshdr packed w) else Inl OutOfBounds)"

text \<open>An integer field of the width of its type at an offset of the structure, read and stored.\<close>

definition hdr_get :: "bool \<Rightarrow> (nat \<Rightarrow> nat) \<Rightarrow> byte list \<Rightarrow> nat \<Rightarrow> 'w::len word result" where
  "hdr_get packed field m s =
     (let w = field_width (0 :: 'w word) in
      bindr (SDS_HDR packed w s) (\<lambda>sh.
      bindr (mem_read m (sh + field w) w) (\<lambda>bs. Inr (of_nat (of_le bs)))))"

definition hdr_put :: "bool \<Rightarrow> (nat \<Rightarrow> nat) \<Rightarrow> byte list \<Rightarrow> nat \<Rightarrow> 'w::len word \<Rightarrow> byte list result" where
  "hdr_put packed field m s v =
     (let w = field_width v in
      bindr (SDS_HDR packed w s) (\<lambda>sh. mem_write m (sh + field w) (le_bytes w (unat v))))"

text \<open>The fields \<open>len\<close> (first) and \<open>alloc\<close> (second).\<close>

definition fld_len :: "nat \<Rightarrow> nat" where "fld_len w = 0"
definition fld_alloc :: "nat \<Rightarrow> nat" where "fld_alloc w = w"

text \<open>\<open>s[-1]\<close>, and a store to it.\<close>

definition sds_flags :: "byte list \<Rightarrow> nat \<Rightarrow> byte result" where
  "sds_flags m s = (if s = 0 then Inl OutOfBounds else vec_at m (s - 1))"

definition sds_put_flags :: "byte list \<Rightarrow> nat \<Rightarrow> byte \<Rightarrow> byte list result" where
  "sds_put_flags m s f = (if s = 0 then Inl OutOfBounds else mem_write m (s - 1) [f])"

definition SDS_TYPE_5_LEN :: "byte \<Rightarrow> byte" where
  "SDS_TYPE_5_LEN f = drop_bit SDS_TYPE_BITS f"

section \<open>The inline functions\<close>

definition sdslen :: "bool \<Rightarrow> byte list \<Rightarrow> nat \<Rightarrow> UINT64 result" where
  "sdslen packed m s =
     bindr (sds_flags m s) (\<lambda>flags. let t = flags AND SDS_TYPE_MASK in
       if t = SDS_TYPE_5 then Inr (ucast (SDS_TYPE_5_LEN flags))
       else if t = SDS_TYPE_8 then bindr (hdr_get packed fld_len m s) (\<lambda>l::byte. Inr (ucast l))
       else if t = SDS_TYPE_16 then bindr (hdr_get packed fld_len m s) (\<lambda>l::UINT16. Inr (ucast l))
       else if t = SDS_TYPE_32 then bindr (hdr_get packed fld_len m s) (\<lambda>l::UINT32. Inr (ucast l))
       else if t = SDS_TYPE_64 then bindr (hdr_get packed fld_len m s) (\<lambda>l::UINT64. Inr l)
       else Inr 0)"

text \<open>
  \<open>sh->alloc - sh->len\<close>: the 8- and 16-bit fields are promoted to \<open>int\<close>, so a negative difference is
  sign-extended into \<open>size_t\<close>; the 32-bit difference wraps around at 32 bits before it is widened.
\<close>

definition sdsavail :: "bool \<Rightarrow> byte list \<Rightarrow> nat \<Rightarrow> UINT64 result" where
  "sdsavail packed m s =
     bindr (sds_flags m s) (\<lambda>flags. let t = flags AND SDS_TYPE_MASK in
       if t = SDS_TYPE_5 then Inr 0
       else if t = SDS_TYPE_8 then
         bindr (hdr_get packed fld_alloc m s) (\<lambda>a::byte. bindr (hdr_get packed fld_len m s) (\<lambda>l::byte.
           Inr (of_int (uint a - uint l))))
       else if t = SDS_TYPE_16 then
         bindr (hdr_get packed fld_alloc m s) (\<lambda>a::UINT16. bindr (hdr_get packed fld_len m s) (\<lambda>l::UINT16.
           Inr (of_int (uint a - uint l))))
       else if t = SDS_TYPE_32 then
         bindr (hdr_get packed fld_alloc m s) (\<lambda>a::UINT32. bindr (hdr_get packed fld_len m s) (\<lambda>l::UINT32.
           Inr (ucast (a - l))))
       else if t = SDS_TYPE_64 then
         bindr (hdr_get packed fld_alloc m s) (\<lambda>a::UINT64. bindr (hdr_get packed fld_len m s) (\<lambda>l::UINT64.
           Inr (a - l)))
       else Inr 0)"

definition sdssetlen :: "bool \<Rightarrow> byte list \<Rightarrow> nat \<Rightarrow> UINT64 \<Rightarrow> byte list result" where
  "sdssetlen packed m s newlen =
     bindr (sds_flags m s) (\<lambda>flags. let t = flags AND SDS_TYPE_MASK in
       if t = SDS_TYPE_5 then sds_put_flags m s (ucast (ucast SDS_TYPE_5 OR push_bit SDS_TYPE_BITS newlen))
       else if t = SDS_TYPE_8 then hdr_put packed fld_len m s (ucast newlen :: byte)
       else if t = SDS_TYPE_16 then hdr_put packed fld_len m s (ucast newlen :: UINT16)
       else if t = SDS_TYPE_32 then hdr_put packed fld_len m s (ucast newlen :: UINT32)
       else if t = SDS_TYPE_64 then hdr_put packed fld_len m s newlen
       else Inr m)"

text \<open>\<open>SDS_HDR(T,s)->len += (uintT_t)inc\<close>: read, add at the width of the field, store.\<close>

definition hdr_add_len :: "bool \<Rightarrow> byte list \<Rightarrow> nat \<Rightarrow> 'w::len word \<Rightarrow> byte list result" where
  "hdr_add_len packed m s inc =
     bindr (hdr_get packed fld_len m s) (\<lambda>l. hdr_put packed fld_len m s (l + inc))"

definition sdsinclen :: "bool \<Rightarrow> byte list \<Rightarrow> nat \<Rightarrow> UINT64 \<Rightarrow> byte list result" where
  "sdsinclen packed m s inc =
     bindr (sds_flags m s) (\<lambda>flags. let t = flags AND SDS_TYPE_MASK in
       if t = SDS_TYPE_5 then
         (let newlen = SDS_TYPE_5_LEN flags + ucast inc
          in sds_put_flags m s (SDS_TYPE_5 OR push_bit SDS_TYPE_BITS newlen))
       else if t = SDS_TYPE_8 then hdr_add_len packed m s (ucast inc :: byte)
       else if t = SDS_TYPE_16 then hdr_add_len packed m s (ucast inc :: UINT16)
       else if t = SDS_TYPE_32 then hdr_add_len packed m s (ucast inc :: UINT32)
       else if t = SDS_TYPE_64 then hdr_add_len packed m s inc
       else Inr m)"

definition sdsalloc :: "bool \<Rightarrow> byte list \<Rightarrow> nat \<Rightarrow> UINT64 result" where
  "sdsalloc packed m s =
     bindr (sds_flags m s) (\<lambda>flags. let t = flags AND SDS_TYPE_MASK in
       if t = SDS_TYPE_5 then Inr (ucast (SDS_TYPE_5_LEN flags))
       else if t = SDS_TYPE_8 then bindr (hdr_get packed fld_alloc m s) (\<lambda>l::byte. Inr (ucast l))
       else if t = SDS_TYPE_16 then bindr (hdr_get packed fld_alloc m s) (\<lambda>l::UINT16. Inr (ucast l))
       else if t = SDS_TYPE_32 then bindr (hdr_get packed fld_alloc m s) (\<lambda>l::UINT32. Inr (ucast l))
       else if t = SDS_TYPE_64 then bindr (hdr_get packed fld_alloc m s) (\<lambda>l::UINT64. Inr l)
       else Inr 0)"

definition sdssetalloc :: "bool \<Rightarrow> byte list \<Rightarrow> nat \<Rightarrow> UINT64 \<Rightarrow> byte list result" where
  "sdssetalloc packed m s newlen =
     bindr (sds_flags m s) (\<lambda>flags. let t = flags AND SDS_TYPE_MASK in
       if t = SDS_TYPE_5 then Inr m
       else if t = SDS_TYPE_8 then hdr_put packed fld_alloc m s (ucast newlen :: byte)
       else if t = SDS_TYPE_16 then hdr_put packed fld_alloc m s (ucast newlen :: UINT16)
       else if t = SDS_TYPE_32 then hdr_put packed fld_alloc m s (ucast newlen :: UINT32)
       else if t = SDS_TYPE_64 then hdr_put packed fld_alloc m s newlen
       else Inr m)"


section \<open>Memory\<close>

lemma mem_write_in:
  "off + length bs \<le> length mem \<Longrightarrow>
     mem_write mem off bs = Inr (take off mem @ bs @ drop (off + length bs) mem)"
  by (simp add: mem_write_def)

lemma mem_read_write_same: "mem_write mem off bs = Inr mem' \<Longrightarrow> mem_read mem' off (length bs) = Inr bs"
  by (auto simp: mem_write_def mem_read_def split: if_splits)

lemma mem_write_nth:
  "mem_write mem off bs = Inr mem' \<Longrightarrow> i < length mem \<Longrightarrow>
     mem' ! i = (if off \<le> i \<and> i < off + length bs then bs ! (i - off) else mem ! i)"
  by (auto simp: mem_write_def nth_append min_def split: if_splits)

lemma mem_read_write_other:
  assumes "mem_write mem off bs = Inr mem'" and "off' + n \<le> off \<or> off + length bs \<le> off'"
  shows "mem_read mem' off' n = mem_read mem off' n"
proof (cases "off' + n \<le> length mem")
  case True
  have len: "length mem' = length mem" using assms(1) by (rule mem_write_length)
  have "take n (drop off' mem') = take n (drop off' mem)"
    using True len assms(2) by (auto intro!: nth_equalityI simp: mem_write_nth [OF assms(1)])
  then show ?thesis using True len by (simp add: mem_read_def)
next
  case False
  then show ?thesis using mem_write_length [OF assms(1)] by (simp add: mem_read_def)
qed

section \<open>Reading back the header\<close>

text \<open>
  A field of a header of \<open>w\<close>-byte integers is readable where the header lies inside the memory; a store to a
  field changes what is read from it, and nothing else: not the other field, not the flags byte, not the
  characters of the string.
\<close>

definition hdr_in :: "bool \<Rightarrow> nat \<Rightarrow> byte list \<Rightarrow> nat \<Rightarrow> bool" where
  "hdr_in packed w m s \<longleftrightarrow> 0 < w \<and> sizeof_sdshdr packed w \<le> s \<and> s \<le> length m"

named_theorems hdr_simps \<open>reading the header after a store\<close>

lemma hdr_put_in:
  fixes v :: "'w::len word"
  assumes "hdr_in packed (field_width v) m s" and "field \<in> {fld_len, fld_alloc}"
  obtains m' where "hdr_put packed field m s v = Inr m'" and "length m' = length m"
    and "mem_write m (s - sizeof_sdshdr packed (field_width v) + field (field_width v)) (le_bytes (field_width v) (unat v)) = Inr m'"
proof -
  have "s - sizeof_sdshdr packed (field_width v) + field (field_width v) + field_width v \<le> length m"
    using assms by (auto simp: hdr_in_def sizeof_sdshdr_def fld_len_def fld_alloc_def)
  then obtain m' where
    w: "mem_write m (s - sizeof_sdshdr packed (field_width v) + field (field_width v)) (le_bytes (field_width v) (unat v)) = Inr m'"
    by (simp add: mem_write_def)
  moreover have "hdr_put packed field m s v = Inr m'"
    using w assms(1) by (simp add: hdr_put_def SDS_HDR_def hdr_in_def)
  ultimately show thesis using that mem_write_length by blast
qed

lemma hdr_get_in:
  assumes "hdr_in packed (field_width (0 :: 'w::len word)) m s" and "field \<in> {fld_len, fld_alloc}"
  obtains v :: "'w::len word" where "hdr_get packed field m s = Inr v"
proof -
  let ?w = "field_width (0 :: 'w word)"
  have "s - sizeof_sdshdr packed ?w + field ?w + ?w \<le> length m"
    using assms by (auto simp: hdr_in_def sizeof_sdshdr_def fld_len_def fld_alloc_def)
  then show thesis
    using that assms(1) by (simp add: hdr_get_def hdr_in_def SDS_HDR_def Let_def)
qed

lemma field_width_simps [simp]:
  "field_width (a :: byte) = 1" "field_width (b :: UINT16) = 2" "field_width (c :: UINT32) = 4" "field_width (d :: UINT64) = 8"
  by (simp_all add: field_width_def word_size)

lemma hdr_put_length [hdr_simps]: "hdr_put packed field m s v = Inr m' \<Longrightarrow> length m' = length m"
  by (auto simp: hdr_put_def Let_def result_simps intro: mem_write_length)

lemma hdr_in_put: "hdr_put packed field m s v = Inr m' \<Longrightarrow> hdr_in p w m' s = hdr_in p w m s"
  by (simp add: hdr_in_def hdr_put_length)

lemma hdr_put_eq:
  fixes v :: "'w::len word"
  assumes "hdr_put packed field m s v = Inr m'" and "hdr_in packed (field_width v) m s"
  shows "mem_write m (s - sizeof_sdshdr packed (field_width v) + field (field_width v)) (le_bytes (field_width v) (unat v)) = Inr m'"
  using assms by (simp add: hdr_put_def SDS_HDR_def hdr_in_def Let_def)

lemma hdr_get_put_same [hdr_simps]:
  fixes v :: "'w::len word"
  assumes "hdr_put packed field m s v = Inr m'" and "hdr_in packed (field_width v) m s"
    and "LENGTH('w) = 8 * field_width v"
  shows "hdr_get packed field m' s = Inr v"
proof -
  have w: "field_width (0 :: 'w word) = field_width v" by (simp add: field_width_def word_size)
  show ?thesis
    using mem_read_write_same [OF hdr_put_eq [OF assms(1,2)]] assms(2,3)
    by (simp add: hdr_get_def SDS_HDR_def hdr_in_def w of_nat_le_bytes_mod)
qed

lemma hdr_get_put_other [hdr_simps]:
  fixes v :: "'w::len word"
  assumes "hdr_put packed field m s v = Inr m'" and "hdr_in packed (field_width v) m s"
    and "field = fld_len \<and> field' = fld_alloc \<or> field = fld_alloc \<and> field' = fld_len"
  shows "(hdr_get packed field' m' s :: 'w word result) = hdr_get packed field' m s"
proof -
  have w: "field_width (0 :: 'w word) = field_width v" by (simp add: field_width_def word_size)
  let ?b = "s - sizeof_sdshdr packed (field_width v)"
  have "mem_read m' (?b + field' (field_width v)) (field_width v) = mem_read m (?b + field' (field_width v)) (field_width v)"
    by (rule mem_read_write_other [OF hdr_put_eq [OF assms(1,2)]])
      (use assms(3) in \<open>auto simp: fld_len_def fld_alloc_def\<close>)
  then show ?thesis using assms(2) by (simp add: hdr_get_def SDS_HDR_def hdr_in_def w)
qed

text \<open>A store to a field leaves every byte outside the fields, in particular the flags, as it is.\<close>

lemma hdr_put_frame:
  assumes "hdr_put packed field m s v = Inr m'" and "hdr_in packed (field_width v) m s"
    and "field \<in> {fld_len, fld_alloc}" and "i < s - sizeof_sdshdr packed (field_width v) \<or> s - 1 \<le> i" and "i < length m"
  shows "m' ! i = m ! i"
  using mem_write_nth [OF hdr_put_eq [OF assms(1,2)] assms(5)] assms(2-4)
  by (auto simp: hdr_in_def sizeof_sdshdr_def fld_len_def fld_alloc_def split: if_splits)

lemma hdr_put_flags [hdr_simps]:
  assumes "hdr_put packed field m s v = Inr m'" and "hdr_in packed (field_width v) m s"
    and "field \<in> {fld_len, fld_alloc}"
  shows "sds_flags m' s = sds_flags m s"
  using hdr_put_frame [OF assms, of "s - 1"] assms(2) hdr_put_length [OF assms(1)]
  by (auto simp: sds_flags_def vec_at_def hdr_in_def sizeof_sdshdr_def)

section \<open>The string as an abstract header\<close>

text \<open>
  The type of a string, the field_width in bits of the length it can store (five for type 5, where the length
  shares the flags byte), and the strings whose header lies inside the memory.
\<close>

definition sds_type :: "byte list \<Rightarrow> nat \<Rightarrow> byte" where
  "sds_type m s = m ! (s - 1) AND SDS_TYPE_MASK"

definition sds_bits :: "byte \<Rightarrow> nat" where
  "sds_bits t = (if t = SDS_TYPE_5 then 5 else if t = SDS_TYPE_8 then 8 else if t = SDS_TYPE_16 then 16
                 else if t = SDS_TYPE_32 then 32 else 64)"

definition sds_valid :: "bool \<Rightarrow> byte list \<Rightarrow> nat \<Rightarrow> bool" where
  "sds_valid packed m s \<longleftrightarrow> 0 < s \<and> s \<le> length m \<and>
     (let t = sds_type m s in
        t = SDS_TYPE_5 \<or> t = SDS_TYPE_8 \<and> hdr_in packed 1 m s \<or> t = SDS_TYPE_16 \<and> hdr_in packed 2 m s \<or>
        t = SDS_TYPE_32 \<and> hdr_in packed 4 m s \<or> t = SDS_TYPE_64 \<and> hdr_in packed 8 m s)"

lemma sds_valid_flags: "sds_valid packed m s \<Longrightarrow> sds_flags m s = Inr (m ! (s - 1))"
  unfolding sds_valid_def sds_flags_def by (auto simp: vec_at_def)

lemma sds_valid_cases [consumes 1, case_names Type5 Type8 Type16 Type32 Type64]:
  assumes "sds_valid packed m s"
  obtains "sds_type m s = SDS_TYPE_5"
  | "sds_type m s = SDS_TYPE_8" "hdr_in packed 1 m s"
  | "sds_type m s = SDS_TYPE_16" "hdr_in packed 2 m s"
  | "sds_type m s = SDS_TYPE_32" "hdr_in packed 4 m s"
  | "sds_type m s = SDS_TYPE_64" "hdr_in packed 8 m s"
  using assms unfolding sds_valid_def Let_def by metis

lemma of_int_diff_add: "of_int (uint a - uint l) + ucast l = (ucast a :: 'v::len word)"
  for a l :: "'w::len word"
  by (metis add_diff_cancel_right' diff_add_cancel of_int_diff of_int_uint)

lemma ucast_diff_add32:
  fixes a l :: UINT32
  shows "ucast (a - l) + ucast l = (if (ucast a :: UINT64) < ucast l then ucast a + 2 ^ 32 else ucast a :: UINT64)"
proof -
  have u: "uint (ucast x :: UINT64) = uint x" for x :: UINT32
    by (simp add: uint_up_ucast is_up)
  have c: "ucast x = (of_int (uint x) :: UINT64)" for x :: UINT32
    by (simp add: u flip: of_int_uint [where ?'a = 64])
  show ?thesis
    unfolding word_less_def u by (simp only: c uint_sub_if') simp
qed

text \<open>On a valid string the dispatch on the type goes by \<open>sds_type\<close>; the five types are distinct.\<close>

lemma sds_types_distinct [simp]:
  "SDS_TYPE_8 \<noteq> SDS_TYPE_5" "SDS_TYPE_16 \<noteq> SDS_TYPE_5" "SDS_TYPE_32 \<noteq> SDS_TYPE_5" "SDS_TYPE_64 \<noteq> SDS_TYPE_5"
  "SDS_TYPE_16 \<noteq> SDS_TYPE_8" "SDS_TYPE_32 \<noteq> SDS_TYPE_8" "SDS_TYPE_64 \<noteq> SDS_TYPE_8"
  "SDS_TYPE_32 \<noteq> SDS_TYPE_16" "SDS_TYPE_64 \<noteq> SDS_TYPE_16" "SDS_TYPE_64 \<noteq> SDS_TYPE_32"
  by (simp_all add: sds_consts)

lemmas sds_types_distinct' [simp] = sds_types_distinct [THEN not_sym]

lemmas sds_ops = sdslen_def sdsavail_def sdssetlen_def sdsinclen_def sdsalloc_def sdssetalloc_def

lemma sds_dispatch:
  "sds_valid packed m s \<Longrightarrow> sds_type m s = t \<Longrightarrow> sds_flags m s = Inr (m ! (s - 1)) \<and> m ! (s - 1) AND SDS_TYPE_MASK = t"
  by (simp add: sds_valid_flags sds_type_def)

theorem sdsalloc_is_avail_plus_len:
  assumes "sds_valid packed m s"
  shows "\<exists>len avail alloc. sdslen packed m s = Inr len \<and> sdsavail packed m s = Inr avail \<and>
    sdsalloc packed m s = Inr alloc \<and>
    avail + len = (if sds_type m s = SDS_TYPE_32 \<and> alloc < len then alloc + 2 ^ 32 else alloc)"
  using assms
proof (cases rule: sds_valid_cases)
  case Type5
  then show ?thesis using sds_dispatch [OF assms Type5] by (simp add: sds_ops)
next
  case Type8
  obtain a :: byte where a: "hdr_get packed fld_alloc m s = Inr a"
    using hdr_get_in [of packed m s fld_alloc, where ?'w = 8] Type8(2) by auto
  obtain l :: byte where l: "hdr_get packed fld_len m s = Inr l"
    using hdr_get_in [of packed m s fld_len, where ?'w = 8] Type8(2) by auto
  show ?thesis using sds_dispatch [OF assms Type8(1)] Type8(1) by (simp add: sds_ops a l of_int_diff_add)
next
  case Type16
  obtain a :: UINT16 where a: "hdr_get packed fld_alloc m s = Inr a"
    using hdr_get_in [of packed m s fld_alloc, where ?'w = 16] Type16(2) by auto
  obtain l :: UINT16 where l: "hdr_get packed fld_len m s = Inr l"
    using hdr_get_in [of packed m s fld_len, where ?'w = 16] Type16(2) by auto
  show ?thesis using sds_dispatch [OF assms Type16(1)] Type16(1) by (simp add: sds_ops a l of_int_diff_add)
next
  case Type32
  obtain a :: UINT32 where a: "hdr_get packed fld_alloc m s = Inr a"
    using hdr_get_in [of packed m s fld_alloc, where ?'w = 32] Type32(2) by auto
  obtain l :: UINT32 where l: "hdr_get packed fld_len m s = Inr l"
    using hdr_get_in [of packed m s fld_len, where ?'w = 32] Type32(2) by auto
  show ?thesis using sds_dispatch [OF assms Type32(1)] Type32(1) ucast_diff_add32 [of a l] by (simp add: sds_ops a l)
next
  case Type64
  obtain a :: UINT64 where a: "hdr_get packed fld_alloc m s = Inr a"
    using hdr_get_in [of packed m s fld_alloc, where ?'w = 64] Type64(2) by auto
  obtain l :: UINT64 where l: "hdr_get packed fld_len m s = Inr l"
    using hdr_get_in [of packed m s fld_len, where ?'w = 64] Type64(2) by auto
  show ?thesis using sds_dispatch [OF assms Type64(1)] Type64(1) by (simp add: sds_ops a l)
qed

text \<open>What a store to a field keeps: the type, the other strings' bytes, the characters.\<close>

lemma hdr_put_keeps:
  assumes "hdr_put packed field m s v = Inr m'" and "hdr_in packed (field_width v) m s"
    and "field \<in> {fld_len, fld_alloc}"
  shows "length m' = length m" and "sds_type m' s = sds_type m s" and "drop s m' = drop s m"
    and "sds_valid packed m' s = sds_valid packed m s"
proof -
  have s: "0 < s" "s \<le> length m" using assms(2) by (auto simp: hdr_in_def sizeof_sdshdr_def split: if_splits)
  show len: "length m' = length m" using assms(1) by (rule hdr_put_length)
  show ty: "sds_type m' s = sds_type m s"
    using hdr_put_frame [OF assms, of "s - 1"] s by (simp add: sds_type_def)
  show "drop s m' = drop s m"
  proof (rule nth_equalityI)
    show "length (drop s m') = length (drop s m)" using len by simp
    fix i assume "i < length (drop s m')"
    then show "drop s m' ! i = drop s m ! i"
      using hdr_put_frame [OF assms disjI2, of "s + i"] len by simp
  qed
  show "sds_valid packed m' s = sds_valid packed m s"
    by (simp add: sds_valid_def ty len hdr_in_put [OF assms(1)])
qed

lemma ucast_ucast_mask:
  "ucast (ucast n :: byte) = take_bit 8 (n :: UINT64)"
  "ucast (ucast n :: UINT16) = take_bit 16 (n :: UINT64)"
  "ucast (ucast n :: UINT32) = take_bit 32 (n :: UINT64)"
  by (simp_all add: bit_eq_iff bit_simps)

lemma SDS_TYPE_MASK_mask: "SDS_TYPE_MASK = mask SDS_TYPE_BITS"
  by (simp add: sds_consts mask_eq_exp_minus_1)

lemma type5_flags:
  "(SDS_TYPE_5 OR push_bit SDS_TYPE_BITS f) AND SDS_TYPE_MASK = SDS_TYPE_5"
  "ucast (ucast SDS_TYPE_5 OR push_bit SDS_TYPE_BITS (n :: UINT64)) AND SDS_TYPE_MASK = SDS_TYPE_5"
  by (auto simp: SDS_TYPE_MASK_mask bit_eq_iff bit_simps) (simp_all add: sds_consts)

lemma type5_len:
  "ucast (SDS_TYPE_5_LEN (ucast (ucast SDS_TYPE_5 OR push_bit SDS_TYPE_BITS n))) = take_bit 5 (n :: UINT64)"
  by (auto simp: SDS_TYPE_5_LEN_def sds_consts bit_eq_iff bit_simps)

lemma ucast_add_down:
  fixes a b :: UINT64
  assumes "LENGTH('b::len) \<le> 64"
  shows "(ucast (a + b) :: 'b word) = ucast a + ucast b"
proof -
  have t: "(of_int (take_bit 64 k) :: 'b word) = of_int k" for k :: int
    by (rule bit_word_eqI) (use assms in \<open>auto simp: bit_simps\<close>)
  have "(ucast (a + b) :: 'b word) = of_int (take_bit 64 (uint a + uint b))"
    by (simp only: ucast_eq uint_word_ariths take_bit_eq_mod len_of_numeral_defs) simp
  also have "\<dots> = of_int (uint a) + of_int (uint b)"
    by (simp only: t of_int_add)
  finally show ?thesis by (simp only: ucast_eq)
qed
lemma ucast_up_down: "LENGTH('b::len) \<le> 64 \<Longrightarrow> (ucast (ucast y :: UINT64) :: 'b word) = y"
  by (rule bit_word_eqI) (auto simp: bit_simps)

lemma type5_inc:
  "ucast (ucast SDS_TYPE_5 OR push_bit SDS_TYPE_BITS (ucast (SDS_TYPE_5_LEN f) + inc)) =
     SDS_TYPE_5 OR push_bit SDS_TYPE_BITS (SDS_TYPE_5_LEN f + ucast inc)" for inc :: UINT64
proof -
  have p: "(ucast (push_bit SDS_TYPE_BITS x) :: byte) = push_bit SDS_TYPE_BITS (ucast x)" for x :: UINT64
    by (rule bit_word_eqI) (auto simp: bit_simps)
  show ?thesis by (simp add: SDS_TYPE_5_def p ucast_add_down ucast_up_down)
qed

lemma sds_put_flags_type5:
  assumes "sds_valid packed m s" and "sds_type m s = SDS_TYPE_5" and "f AND SDS_TYPE_MASK = SDS_TYPE_5"
  obtains m' where "sds_put_flags m s f = Inr m'" and "length m' = length m" and "sds_type m' s = SDS_TYPE_5"
    and "sds_valid packed m' s" and "drop s m' = drop s m" and "sds_flags m' s = Inr f"
proof -
  have s: "0 < s" "s \<le> length m" using assms(1) by (auto simp: sds_valid_def)
  then obtain m' where w: "mem_write m (s - 1) [f] = Inr m'" by (simp add: mem_write_def)
  have len: "length m' = length m" using w by (rule mem_write_length)
  have nth: "m' ! i = (if i = s - 1 then f else m ! i)" if "i < length m" for i
    using mem_write_nth [OF w that] s by auto
  have ty: "sds_type m' s = SDS_TYPE_5" using nth [of "s - 1"] s assms(3) by (simp add: sds_type_def)
  have "m' ! (s + i) = m ! (s + i)" if "i < length m - s" for i
    using nth [of "s + i"] that s by (auto split: if_splits)
  then have "drop s m' = drop s m" using len by (auto intro!: nth_equalityI)
  then show thesis
    using that [of m'] w len ty s nth [of "s - 1"] by (simp add: sds_put_flags_def sds_valid_def sds_flags_def)
qed

text \<open>
  A round trip: after \<open>sdssetlen\<close> the length read is the one stored, cut to the bits of the type (five, where it
  lies in the flags byte); the type, the capacity of the types that have one, and the characters stay.
\<close>

theorem sdssetlen_sdslen:
  assumes "sds_valid packed m s"
  shows "\<exists>m'. sdssetlen packed m s n = Inr m' \<and>
    sdslen packed m' s = Inr (take_bit (sds_bits (sds_type m s)) n) \<and>
    (sds_type m s \<noteq> SDS_TYPE_5 \<longrightarrow> sdsalloc packed m' s = sdsalloc packed m s) \<and>
    sds_valid packed m' s \<and> sds_type m' s = sds_type m s \<and> length m' = length m \<and> drop s m' = drop s m"
  using assms
proof (cases rule: sds_valid_cases)
  case Type5
  obtain m' where m': "sds_put_flags m s (ucast (ucast SDS_TYPE_5 OR push_bit SDS_TYPE_BITS n)) = Inr m'"
    "length m' = length m" "sds_type m' s = SDS_TYPE_5" "sds_valid packed m' s" "drop s m' = drop s m"
    "sds_flags m' s = Inr (ucast (ucast SDS_TYPE_5 OR push_bit SDS_TYPE_BITS n))"
    using sds_put_flags_type5 [OF assms Type5 type5_flags(2)] by blast
  then show ?thesis
    using sds_dispatch [OF assms Type5] type5_flags(2) [of n] type5_len [of n] Type5
    by (simp add: sds_ops sds_bits_def)
next
  case Type8
  obtain m' where m': "hdr_put packed fld_len m s (ucast n :: byte) = Inr m'"
    using hdr_put_in [of packed "ucast n :: byte" m s fld_len] Type8(2) by auto
  show ?thesis
    using sds_dispatch [OF assms Type8(1)] Type8 m' hdr_put_keeps [OF m'] hdr_put_flags [OF m']
      hdr_get_put_same [OF m'] hdr_get_put_other [OF m', of fld_alloc] assms
    by (simp add: sds_ops sds_bits_def ucast_ucast_mask)
next
  case Type16
  obtain m' where m': "hdr_put packed fld_len m s (ucast n :: UINT16) = Inr m'"
    using hdr_put_in [of packed "ucast n :: UINT16" m s fld_len] Type16(2) by auto
  show ?thesis
    using sds_dispatch [OF assms Type16(1)] Type16 m' hdr_put_keeps [OF m'] hdr_put_flags [OF m']
      hdr_get_put_same [OF m'] hdr_get_put_other [OF m', of fld_alloc] assms
    by (simp add: sds_ops sds_bits_def ucast_ucast_mask)
next
  case Type32
  obtain m' where m': "hdr_put packed fld_len m s (ucast n :: UINT32) = Inr m'"
    using hdr_put_in [of packed "ucast n :: UINT32" m s fld_len] Type32(2) by auto
  show ?thesis
    using sds_dispatch [OF assms Type32(1)] Type32 m' hdr_put_keeps [OF m'] hdr_put_flags [OF m']
      hdr_get_put_same [OF m'] hdr_get_put_other [OF m', of fld_alloc] assms
    by (simp add: sds_ops sds_bits_def ucast_ucast_mask)
next
  case Type64
  obtain m' where m': "hdr_put packed fld_len m s n = Inr m'"
    using hdr_put_in [of packed n m s fld_len] Type64(2) by auto
  show ?thesis
    using sds_dispatch [OF assms Type64(1)] Type64 m' hdr_put_keeps [OF m'] hdr_put_flags [OF m']
      hdr_get_put_same [OF m'] hdr_get_put_other [OF m', of fld_alloc] assms
    by (simp add: sds_ops sds_bits_def take_bit_word_eq_self)
qed

text \<open>The same for the capacity, which strings of type 5 do not store: for them \<open>sdssetalloc\<close> does nothing.\<close>

theorem sdssetalloc_sdsalloc:
  assumes "sds_valid packed m s" and "sds_type m s \<noteq> SDS_TYPE_5"
  shows "\<exists>m'. sdssetalloc packed m s n = Inr m' \<and>
    sdsalloc packed m' s = Inr (take_bit (sds_bits (sds_type m s)) n) \<and>
    sdslen packed m' s = sdslen packed m s \<and>
    sds_valid packed m' s \<and> sds_type m' s = sds_type m s \<and> length m' = length m \<and> drop s m' = drop s m"
  using assms(1)
proof (cases rule: sds_valid_cases)
  case Type5
  then show ?thesis using assms(2) by simp
next
  case Type8
  obtain m' where m': "hdr_put packed fld_alloc m s (ucast n :: byte) = Inr m'"
    using hdr_put_in [of packed "ucast n :: byte" m s fld_alloc] Type8(2) by auto
  show ?thesis
    using sds_dispatch [OF assms(1) Type8(1)] Type8 m' hdr_put_keeps [OF m'] hdr_put_flags [OF m']
      hdr_get_put_same [OF m'] hdr_get_put_other [OF m', of fld_len] assms
    by (simp add: sds_ops sds_bits_def ucast_ucast_mask)
next
  case Type16
  obtain m' where m': "hdr_put packed fld_alloc m s (ucast n :: UINT16) = Inr m'"
    using hdr_put_in [of packed "ucast n :: UINT16" m s fld_alloc] Type16(2) by auto
  show ?thesis
    using sds_dispatch [OF assms(1) Type16(1)] Type16 m' hdr_put_keeps [OF m'] hdr_put_flags [OF m']
      hdr_get_put_same [OF m'] hdr_get_put_other [OF m', of fld_len] assms
    by (simp add: sds_ops sds_bits_def ucast_ucast_mask)
next
  case Type32
  obtain m' where m': "hdr_put packed fld_alloc m s (ucast n :: UINT32) = Inr m'"
    using hdr_put_in [of packed "ucast n :: UINT32" m s fld_alloc] Type32(2) by auto
  show ?thesis
    using sds_dispatch [OF assms(1) Type32(1)] Type32 m' hdr_put_keeps [OF m'] hdr_put_flags [OF m']
      hdr_get_put_same [OF m'] hdr_get_put_other [OF m', of fld_len] assms
    by (simp add: sds_ops sds_bits_def ucast_ucast_mask)
next
  case Type64
  obtain m' where m': "hdr_put packed fld_alloc m s n = Inr m'"
    using hdr_put_in [of packed "n" m s fld_alloc] Type64(2) by auto
  show ?thesis
    using sds_dispatch [OF assms(1) Type64(1)] Type64 m' hdr_put_keeps [OF m'] hdr_put_flags [OF m']
      hdr_get_put_same [OF m'] hdr_get_put_other [OF m', of fld_len] assms
    by (simp add: sds_ops sds_bits_def take_bit_word_eq_self)
qed

lemma sdssetalloc_type5: "sds_valid packed m s \<Longrightarrow> sds_type m s = SDS_TYPE_5 \<Longrightarrow> sdssetalloc packed m s n = Inr m"
  using sds_dispatch [of packed m s SDS_TYPE_5] by (simp add: sds_ops)

text \<open>Adding to the length is setting it to the sum, at every width.\<close>

theorem sdsinclen_is_setlen:
  assumes "sds_valid packed m s" and "sdslen packed m s = Inr len"
  shows "sdsinclen packed m s inc = sdssetlen packed m s (len + inc)"
  using assms(1)
proof (cases rule: sds_valid_cases)
  case Type5
  have "ucast (ucast SDS_TYPE_5 OR push_bit SDS_TYPE_BITS (ucast (SDS_TYPE_5_LEN f) + inc)) =
      SDS_TYPE_5 OR push_bit SDS_TYPE_BITS (SDS_TYPE_5_LEN f + ucast inc)" for f
    by (rule type5_inc)
  then show ?thesis using sds_dispatch [OF assms(1) Type5] assms(2) by (auto simp: sds_ops)
next
  case Type8
  then show ?thesis using sds_dispatch [OF assms(1) Type8(1)] assms(2)
    by (auto simp: sds_ops hdr_add_len_def result_simps ucast_add_down ucast_up_down)
next
  case Type16
  then show ?thesis using sds_dispatch [OF assms(1) Type16(1)] assms(2)
    by (auto simp: sds_ops hdr_add_len_def result_simps ucast_add_down ucast_up_down)
next
  case Type32
  then show ?thesis using sds_dispatch [OF assms(1) Type32(1)] assms(2)
    by (auto simp: sds_ops hdr_add_len_def result_simps ucast_add_down ucast_up_down)
next
  case Type64
  then show ?thesis using sds_dispatch [OF assms(1) Type64(1)] assms(2)
    by (auto simp: sds_ops hdr_add_len_def result_simps ucast_add_down ucast_up_down)
qed

end
