(* ===== verification/HiAlloc.thy ===== *)
theory HiAlloc
  imports Prelude
begin

text \<open>
  The allocation functions of hiredis (\<open>include/hiredis/alloc.h\<close>, outside Windows): they go through a table of
  functions the program may replace. An allocator's state is threaded through; an address is a number, \<open>None\<close> is
  \<open>NULL\<close>; \<open>size_t\<close> has 64 bits.
\<close>

record 's hiredisAllocFuncs =
  mallocFn :: "UINT64 \<Rightarrow> 's \<Rightarrow> nat option \<times> 's"
  callocFn :: "UINT64 \<Rightarrow> UINT64 \<Rightarrow> 's \<Rightarrow> nat option \<times> 's"
  reallocFn :: "nat option \<Rightarrow> UINT64 \<Rightarrow> 's \<Rightarrow> nat option \<times> 's"
  strdupFn :: "nat \<Rightarrow> 's \<Rightarrow> nat option \<times> 's"
  freeFn :: "nat option \<Rightarrow> 's \<Rightarrow> 's"

definition SIZE_MAX :: UINT64 where "SIZE_MAX = 18446744073709551615"

definition hi_malloc :: "'s hiredisAllocFuncs \<Rightarrow> UINT64 \<Rightarrow> 's \<Rightarrow> nat option \<times> 's" where
  "hi_malloc fns sz = mallocFn fns sz"

text \<open>The division of the overflow check by a zero size is undefined in C: the argument must not be zero.\<close>

definition hi_calloc :: "'s hiredisAllocFuncs \<Rightarrow> UINT64 \<Rightarrow> UINT64 \<Rightarrow> 's \<Rightarrow> (nat option \<times> 's) result" where
  "hi_calloc fns nmemb sz s =
     (if sz = 0 then Inl InvalidParameter
      else if SIZE_MAX div sz < nmemb then Inr (None, s) else Inr (callocFn fns nmemb sz s))"

definition hi_realloc :: "'s hiredisAllocFuncs \<Rightarrow> nat option \<Rightarrow> UINT64 \<Rightarrow> 's \<Rightarrow> nat option \<times> 's" where
  "hi_realloc fns ptr sz = reallocFn fns ptr sz"

definition hi_strdup :: "'s hiredisAllocFuncs \<Rightarrow> nat \<Rightarrow> 's \<Rightarrow> nat option \<times> 's" where
  "hi_strdup fns str = strdupFn fns str"

definition hi_free_fn :: "'s hiredisAllocFuncs \<Rightarrow> nat option \<Rightarrow> 's \<Rightarrow> 's" where
  "hi_free_fn fns ptr = freeFn fns ptr"

lemma pred_less_iff: "(2 :: nat) ^ 64 - 1 < x \<longleftrightarrow> 2 ^ 64 \<le> x"
  by (simp, presburger)

text \<open>The check refuses exactly the requests whose size in bytes does not fit a \<open>size_t\<close>.\<close>

lemma hi_calloc_refuses:
  assumes "sz \<noteq> 0"
  shows "SIZE_MAX div sz < nmemb \<longleftrightarrow> 2 ^ 64 \<le> unat nmemb * unat sz"
proof -
  have pos: "0 < unat sz" using assms by (simp add: unat_gt_0)
  have m: "unat SIZE_MAX = 2 ^ 64 - 1" by (simp add: SIZE_MAX_def)
  have "SIZE_MAX div sz < nmemb \<longleftrightarrow> (2 ^ 64 - 1) div unat sz < unat nmemb"
    by (simp add: word_less_nat_alt unat_div m)
  also have "\<dots> \<longleftrightarrow> 2 ^ 64 - 1 < unat nmemb * unat sz"
    by (rule div_less_iff_less_mult [OF pos])
  also have "\<dots> \<longleftrightarrow> 2 ^ 64 \<le> unat nmemb * unat sz"
    by (rule pred_less_iff)
  finally show ?thesis .
qed

theorem hi_calloc_never_overflows:
  assumes "sz \<noteq> 0"
  shows "hi_calloc fns nmemb sz s =
    (if unat nmemb * unat sz < 2 ^ 64 then Inr (callocFn fns nmemb sz s) else Inr (None, s))"
  using hi_calloc_refuses [OF assms, of nmemb] assms by (auto simp: hi_calloc_def)

end
