(* ===== verification/HiredisOptions.thy ===== *)
theory HiredisOptions
  imports Prelude
begin

unbundle bit_operations_syntax

text \<open>
  The connection options of hiredis (\<open>include/hiredis/hiredis.h\<close>) and the macros that fill them in. The member
  \<open>endpoint\<close> is a union: on a 64-bit machine its three alternatives share the first eight bytes, where the TCP
  alternative keeps its source address, the Unix alternative the path, and the third the descriptor. It is modelled
  as those bytes: three words of which the alternatives are views. Pointers are addresses, zero is \<open>NULL\<close>.
\<close>

datatype redisConnectionType = REDIS_CONN_TCP | REDIS_CONN_UNIX | REDIS_CONN_USERFD

definition REDIS_OPT_PREFER_IPV4 :: "32 word" where "REDIS_OPT_PREFER_IPV4 = 0x20"
definition REDIS_OPT_PREFER_IPV6 :: "32 word" where "REDIS_OPT_PREFER_IPV6 = 0x40"
definition REDIS_OPT_PREFER_IP_UNSPEC :: "32 word" where
  "REDIS_OPT_PREFER_IP_UNSPEC = REDIS_OPT_PREFER_IPV4 OR REDIS_OPT_PREFER_IPV6"

record endpoint =
  word0 :: UINT64
  word1 :: UINT64
  word2 :: UINT64

record redisOptions =
  opt_type :: redisConnectionType
  opt_options :: "32 word"
  opt_endpoint :: endpoint
  opt_privdata :: UINT64
  opt_free_privdata :: UINT64

text \<open>The alternatives of the union.\<close>

definition tcp_source_addr :: "endpoint \<Rightarrow> UINT64" where "tcp_source_addr e = word0 e"
definition tcp_ip :: "endpoint \<Rightarrow> UINT64" where "tcp_ip e = word1 e"
definition tcp_port :: "endpoint \<Rightarrow> 32 word" where "tcp_port e = ucast (word2 e)"
definition unix_socket :: "endpoint \<Rightarrow> UINT64" where "unix_socket e = word0 e"

definition set_tcp_port :: "32 word \<Rightarrow> endpoint \<Rightarrow> endpoint" where
  "set_tcp_port port e = e\<lparr>word2 := (word2 e AND NOT (mask 32)) OR ucast port\<rparr>"

definition REDIS_OPTIONS_SET_TCP :: "redisOptions \<Rightarrow> UINT64 \<Rightarrow> 32 word \<Rightarrow> redisOptions" where
  "REDIS_OPTIONS_SET_TCP opts ip port =
     (let o1 = opts\<lparr>opt_type := REDIS_CONN_TCP\<rparr>;
          o2 = o1\<lparr>opt_endpoint := (opt_endpoint o1)\<lparr>word1 := ip\<rparr>\<rparr>
      in o2\<lparr>opt_endpoint := set_tcp_port port (opt_endpoint o2)\<rparr>)"

definition REDIS_OPTIONS_SET_UNIX :: "redisOptions \<Rightarrow> UINT64 \<Rightarrow> redisOptions" where
  "REDIS_OPTIONS_SET_UNIX opts path =
     opts\<lparr>opt_type := REDIS_CONN_UNIX, opt_endpoint := (opt_endpoint opts)\<lparr>word0 := path\<rparr>\<rparr>"

definition REDIS_OPTIONS_SET_PRIVDATA :: "redisOptions \<Rightarrow> UINT64 \<Rightarrow> UINT64 \<Rightarrow> redisOptions" where
  "REDIS_OPTIONS_SET_PRIVDATA opts data dtor = opts\<lparr>opt_privdata := data, opt_free_privdata := dtor\<rparr>"

lemma tcp_port_set: "tcp_port (set_tcp_port port e) = port"
  by (rule bit_word_eqI) (simp add: tcp_port_def set_tcp_port_def bit_simps)

text \<open>The macros set what they name, and the private data do not disturb the endpoint.\<close>

lemma options_set:
  "tcp_ip (opt_endpoint (REDIS_OPTIONS_SET_TCP opts ip port)) = ip"
  "tcp_port (opt_endpoint (REDIS_OPTIONS_SET_TCP opts ip port)) = port"
  "opt_type (REDIS_OPTIONS_SET_TCP opts ip port) = REDIS_CONN_TCP"
  "unix_socket (opt_endpoint (REDIS_OPTIONS_SET_UNIX opts path)) = path"
  "opt_type (REDIS_OPTIONS_SET_UNIX opts path) = REDIS_CONN_UNIX"
  "opt_endpoint (REDIS_OPTIONS_SET_PRIVDATA opts data dtor) = opt_endpoint opts"
  by (simp_all add: REDIS_OPTIONS_SET_TCP_def REDIS_OPTIONS_SET_UNIX_def REDIS_OPTIONS_SET_PRIVDATA_def Let_def
      tcp_port_set tcp_ip_def unix_socket_def set_tcp_port_def)
    (simp add: tcp_port_def set_tcp_port_def bit_eq_iff bit_simps)

text \<open>
  The TCP macro leaves the source address alone: options filled in for a Unix socket and then for TCP keep the path
  as the address to bind to. Only options cleared in between connect from any address.
\<close>

lemma options_reused_for_tcp:
  "tcp_source_addr (opt_endpoint (REDIS_OPTIONS_SET_TCP (REDIS_OPTIONS_SET_UNIX opts path) ip port)) = path"
  by (simp add: REDIS_OPTIONS_SET_TCP_def REDIS_OPTIONS_SET_UNIX_def tcp_source_addr_def set_tcp_port_def Let_def)

end
