(* ===== verification/AsyncHooks.thy ===== *)
theory AsyncHooks
  imports Prelude Complex_Main
begin

text \<open>
  What the event-loop adapters of hiredis (\<open>include/hiredis/adapters\<close>) share: the hooks by which the
  asynchronous client drives an event loop (\<open>redisAsyncContext\<close> in \<open>async.h\<close>), the allocation of the adapters'
  containers, and the contract of an adapter as a locale. The asynchronous client itself is not part of the
  headers: a call of \<open>redisAsyncHandleRead\<close> and its siblings is described by the hooks it calls.
\<close>

section \<open>Memory of a container\<close>

text \<open>
  A container from \<open>hi_malloc\<close>; every access to it goes through \<open>access\<close>, which faults once it has been given
  to \<open>hi_free\<close>.
\<close>

record hi_block =
  freed :: bool

definition access :: "'a hi_block_scheme \<Rightarrow> 'b result \<Rightarrow> 'b result" where
  "access e r = (if freed e then Inl UseAfterFree else r)"

definition hi_free :: "'a hi_block_scheme \<Rightarrow> 'a hi_block_scheme result" where
  "hi_free e = access e (Inr (e\<lparr>freed := True\<rparr>))"

lemma access_live [simp]: "\<not> freed e \<Longrightarrow> access e r = r"
  by (simp add: access_def)

lemma access_freed [simp]: "freed e \<Longrightarrow> access e r = Inl UseAfterFree"
  by (simp add: access_def)

lemma hi_free_live [simp]: "\<not> freed e \<Longrightarrow> hi_free e = Inr (e\<lparr>freed := True\<rparr>)"
  by (simp add: hi_free_def)

section \<open>The hooks of an asynchronous context\<close>

definition REDIS_OK :: int where "REDIS_OK = 0"
definition REDIS_ERR :: int where "REDIS_ERR = -1"

record timeval =
  tv_sec :: int
  tv_usec :: int

text \<open>The member \<open>ev\<close> of \<open>redisAsyncContext\<close>: the container and the function pointers; \<open>None\<close> is \<open>NULL\<close>.\<close>

record 'e event_hooks =
  ev_data :: "'e option"
  ev_addRead :: "('e \<Rightarrow> 'e result) option"
  ev_delRead :: "('e \<Rightarrow> 'e result) option"
  ev_addWrite :: "('e \<Rightarrow> 'e result) option"
  ev_delWrite :: "('e \<Rightarrow> 'e result) option"
  ev_cleanup :: "('e \<Rightarrow> 'e result) option"
  ev_scheduleTimer :: "('e \<Rightarrow> timeval \<Rightarrow> 'e result) option"

text \<open>The context: its identity, the descriptor \<open>c.fd\<close> of its connection, and the hooks.\<close>

record 'e redisAsyncContext =
  ac_id :: nat
  ac_fd :: int
  ac_ev :: "'e event_hooks"

datatype hook = AddRead | DelRead | AddWrite | DelWrite | Cleanup | ScheduleTimer timeval

text \<open>The client calls a hook on the container where the pointer is set.\<close>

fun run_hook :: "'e event_hooks \<Rightarrow> hook \<Rightarrow> 'e \<Rightarrow> 'e result" where
  "run_hook t AddRead e = (case ev_addRead t of None \<Rightarrow> Inr e | Some f \<Rightarrow> f e)"
| "run_hook t DelRead e = (case ev_delRead t of None \<Rightarrow> Inr e | Some f \<Rightarrow> f e)"
| "run_hook t AddWrite e = (case ev_addWrite t of None \<Rightarrow> Inr e | Some f \<Rightarrow> f e)"
| "run_hook t DelWrite e = (case ev_delWrite t of None \<Rightarrow> Inr e | Some f \<Rightarrow> f e)"
| "run_hook t Cleanup e = (case ev_cleanup t of None \<Rightarrow> Inr e | Some f \<Rightarrow> f e)"
| "run_hook t (ScheduleTimer tv) e = (case ev_scheduleTimer t of None \<Rightarrow> Inr e | Some f \<Rightarrow> f e tv)"

fun run_hooks :: "'e event_hooks \<Rightarrow> hook list \<Rightarrow> 'e \<Rightarrow> 'e result" where
  "run_hooks t [] e = Inr e"
| "run_hooks t (h # hs) e = bindr (run_hook t h e) (run_hooks t hs)"

lemma run_hooks_append: "run_hooks t (hs @ hs') e = bindr (run_hooks t hs e) (run_hooks t hs')"
proof (induction hs arbitrary: e)
  case (Cons h hs)
  then show ?case by (cases "run_hook t h e") simp_all
qed simp

text \<open>
  The macros \<open>_EL_ADD_READ\<close>, \<open>_EL_DEL_READ\<close>, ... of the client: the hook is called with the pointer \<open>ev.data\<close>
  whatever it is, and after a cleanup the pointer to the cleanup hook is \<open>NULL\<close>.
\<close>

definition el_call :: "hook \<Rightarrow> 'e redisAsyncContext \<Rightarrow> 'e redisAsyncContext result" where
  "el_call h ac =
     (let t = ac_ev ac;
          registered = (case h of AddRead \<Rightarrow> ev_addRead t \<noteq> None | DelRead \<Rightarrow> ev_delRead t \<noteq> None
             | AddWrite \<Rightarrow> ev_addWrite t \<noteq> None | DelWrite \<Rightarrow> ev_delWrite t \<noteq> None
             | Cleanup \<Rightarrow> ev_cleanup t \<noteq> None | ScheduleTimer tv \<Rightarrow> ev_scheduleTimer t \<noteq> None);
          t' = (if h = Cleanup then t\<lparr>ev_cleanup := None\<rparr> else t)
      in if \<not> registered then Inr (ac\<lparr>ac_ev := t'\<rparr>)
         else (case ev_data t of None \<Rightarrow> Inl NullPointer
               | Some e \<Rightarrow> bindr (run_hook t h e) (\<lambda>e'. Inr (ac\<lparr>ac_ev := t'\<lparr>ev_data := Some e'\<rparr>\<rparr>))))"

text \<open>
  What a call of \<open>redisAsyncHandleRead\<close>, \<open>redisAsyncHandleWrite\<close> or \<open>redisAsyncHandleTimeout\<close> does to an adapter:
  the hooks it calls, in order, and whether the context is freed by it (a callback may disconnect). Such a call
  needs a live context; the state is the container together with whether the context is alive.
\<close>

record client_call =
  cb_hooks :: "hook list"
  cb_frees :: bool

definition redisAsyncHandle :: "'e event_hooks \<Rightarrow> client_call \<Rightarrow> 'e \<times> bool \<Rightarrow> ('e \<times> bool) result" where
  "redisAsyncHandle t b = (\<lambda>(e, alive).
     if alive then bindr (run_hooks t (cb_hooks b) e) (\<lambda>e'. Inr (e', \<not> cb_frees b)) else Inl UseAfterFree)"

text \<open>
  The documented order: the cleanup hook is called at most once and no hook after it, and a context is not freed
  without its cleanup (\<open>async.h\<close>; a context that does not free itself may survive the cleanup).
\<close>

definition client_call_ok :: "client_call \<Rightarrow> bool" where
  "client_call_ok b \<longleftrightarrow> Cleanup \<notin> set (butlast (cb_hooks b)) \<and> (cb_frees b \<longrightarrow> Cleanup \<in> set (cb_hooks b))"

lemma client_call_ok_cases:
  assumes "client_call_ok b"
  obtains "Cleanup \<notin> set (cb_hooks b)" and "\<not> cb_frees b"
  | hs where "cb_hooks b = hs @ [Cleanup]" and "Cleanup \<notin> set hs"
proof (cases "Cleanup \<in> set (cb_hooks b)")
  case True
  then have "cb_hooks b = butlast (cb_hooks b) @ [last (cb_hooks b)]" by (cases "cb_hooks b") auto
  moreover from this True assms have "last (cb_hooks b) = Cleanup"
    by (metis client_call_ok_def Un_iff empty_iff empty_set insert_iff list.set(2) set_append)
  ultimately show thesis using that(2) assms by (metis client_call_ok_def)
next
  case False
  then show thesis using that(1) assms by (simp add: client_call_ok_def)
qed

section \<open>What the client asks for\<close>

datatype interest = Readable | Writable

fun requested :: "interest set \<Rightarrow> hook \<Rightarrow> interest set" where
  "requested W AddRead = insert Readable W"
| "requested W DelRead = W - {Readable}"
| "requested W AddWrite = insert Writable W"
| "requested W DelWrite = W - {Writable}"
| "requested W Cleanup = {}"
| "requested W (ScheduleTimer tv) = W"

text \<open>
  What an adapter's hooks promise the client: on a container satisfying \<open>good\<close>, any sequence of requests succeeds and
  leaves the loop watching exactly what the requests add up to, and a cleanup after it leaves the container released and
  nothing watched.
\<close>

definition implements_hooks ::
    "'e event_hooks \<Rightarrow> ('e \<Rightarrow> bool) \<Rightarrow> ('e \<Rightarrow> interest set) \<Rightarrow> ('e \<Rightarrow> bool) \<Rightarrow> bool" where
  "implements_hooks t good watched released \<longleftrightarrow>
     (\<forall>e hs. good e \<and> Cleanup \<notin> set hs \<longrightarrow>
        runs (run_hooks t hs e) (\<lambda>e'. good e' \<and> watched e' = foldl requested (watched e) hs) \<and>
        runs (run_hooks t (hs @ [Cleanup]) e) (\<lambda>e'. released e' \<and> watched e' = {}))"

lemma implements_hooksD:
  assumes "implements_hooks t good watched released" and "good e" and "Cleanup \<notin> set hs"
  shows "foldl requested (watched e) hs = W \<Longrightarrow> runs (run_hooks t hs e) (\<lambda>e'. good e' \<and> watched e' = W)"
    and "runs (run_hooks t (hs @ [Cleanup]) e) (\<lambda>e'. released e' \<and> watched e' = {})"
  using assms by (auto simp: implements_hooks_def)

text \<open>The pointers an attachment registers.\<close>

definition hooks_of :: "('e \<Rightarrow> 'e result) \<Rightarrow> ('e \<Rightarrow> 'e result) \<Rightarrow> ('e \<Rightarrow> 'e result) \<Rightarrow> ('e \<Rightarrow> 'e result) \<Rightarrow>
    ('e \<Rightarrow> 'e result) \<Rightarrow> ('e \<Rightarrow> timeval \<Rightarrow> 'e result) option \<Rightarrow> 'e event_hooks" where
  "hooks_of addRead delRead addWrite delWrite cleanup timer =
     \<lparr>ev_data = None, ev_addRead = Some addRead, ev_delRead = Some delRead, ev_addWrite = Some addWrite,
      ev_delWrite = Some delWrite, ev_cleanup = Some cleanup, ev_scheduleTimer = timer\<rparr>"

lemma run_hook_hooks_of [simp]:
  "run_hook (hooks_of ar dr aw dw c t) AddRead = ar"
  "run_hook (hooks_of ar dr aw dw c t) DelRead = dr"
  "run_hook (hooks_of ar dr aw dw c t) AddWrite = aw"
  "run_hook (hooks_of ar dr aw dw c t) DelWrite = dw"
  "run_hook (hooks_of ar dr aw dw c t) Cleanup = c"
  "run_hook (hooks_of ar dr aw dw c t) (ScheduleTimer tv) =
     (\<lambda>e. case t of None \<Rightarrow> Inr e | Some f \<Rightarrow> f e tv)"
  by (simp_all add: hooks_of_def fun_eq_iff)

text \<open>
  The contract of an adapter: on a container satisfying its invariant every hook but the cleanup succeeds, keeps
  the invariant, and changes the descriptor's registration with the event loop as requested; the cleanup
  succeeds and leaves the container released.
\<close>

locale redis_adapter =
  fixes addRead delRead addWrite delWrite cleanup :: "'e \<Rightarrow> 'e result"
    and timer :: "('e \<Rightarrow> timeval \<Rightarrow> 'e result) option"
    and inv :: "'e \<Rightarrow> bool" and watched :: "'e \<Rightarrow> interest set" and released :: "'e \<Rightarrow> bool"
  assumes addRead_ok: "inv e \<Longrightarrow> runs (addRead e) (\<lambda>e'. inv e' \<and> watched e' = insert Readable (watched e))"
    and delRead_ok: "inv e \<Longrightarrow> runs (delRead e) (\<lambda>e'. inv e' \<and> watched e' = watched e - {Readable})"
    and addWrite_ok: "inv e \<Longrightarrow> runs (addWrite e) (\<lambda>e'. inv e' \<and> watched e' = insert Writable (watched e))"
    and delWrite_ok: "inv e \<Longrightarrow> runs (delWrite e) (\<lambda>e'. inv e' \<and> watched e' = watched e - {Writable})"
    and timer_ok: "inv e \<Longrightarrow> timer = Some f \<Longrightarrow> runs (f e tv) (\<lambda>e'. inv e' \<and> watched e' = watched e)"
    and cleanup_ok: "inv e \<Longrightarrow> runs (cleanup e) released"
begin

lemma hook_ok:
  assumes "inv e" and "h \<noteq> Cleanup"
  shows "runs (run_hook (hooks_of addRead delRead addWrite delWrite cleanup timer) h e)
    (\<lambda>e'. inv e' \<and> watched e' = requested (watched e) h)"
proof (cases h)
  case (ScheduleTimer tv)
  then show ?thesis using assms timer_ok by (cases timer) (simp_all add: runs_def)
qed (use assms addRead_ok delRead_ok addWrite_ok delWrite_ok in simp_all)

lemma hooks_ok:
  "inv e \<Longrightarrow> Cleanup \<notin> set hs \<Longrightarrow>
     runs (run_hooks (hooks_of addRead delRead addWrite delWrite cleanup timer) hs e)
       (\<lambda>e'. inv e' \<and> watched e' = foldl requested (watched e) hs)"
proof (induction hs arbitrary: e)
  case (Cons h hs)
  show ?case
    unfolding run_hooks.simps
  proof (rule runs_bindr, rule runs_mono [OF hook_ok])
    show "inv e" "h \<noteq> Cleanup" using Cons.prems by auto
    fix x assume "inv x \<and> watched x = requested (watched e) h"
    then show "runs (run_hooks (hooks_of addRead delRead addWrite delWrite cleanup timer) hs x)
        (\<lambda>e'. inv e' \<and> watched e' = foldl requested (watched e) (h # hs))"
      using Cons.IH [of x] Cons.prems by simp
  qed
qed (simp add: runs_def)

text \<open>The hooks are idempotent, as \<open>async.h\<close> asks: a repeated request changes no registration.\<close>

lemma hooks_idempotent:
  assumes "inv e" and "h \<noteq> Cleanup"
  shows "runs (run_hook (hooks_of addRead delRead addWrite delWrite cleanup timer) h e)
    (\<lambda>e1. runs (run_hook (hooks_of addRead delRead addWrite delWrite cleanup timer) h e1)
      (\<lambda>e2. watched e2 = watched e1))"
proof -
  have "requested (requested W h) h = requested W h" for W by (cases h) auto
  then show ?thesis
    using assms by (auto intro!: runs_mono [OF hook_ok])
qed

lemma life:
  assumes "inv e" and "Cleanup \<notin> set hs"
  shows "runs (run_hooks (hooks_of addRead delRead addWrite delWrite cleanup timer) (hs @ [Cleanup]) e) released"
  unfolding run_hooks_append
  by (rule runs_bindr, rule runs_mono [OF hooks_ok [OF assms]])
    (auto intro!: runs_bindr runs_mono [OF cleanup_ok] simp: runs_basic)

lemma client_call:
  assumes "inv e" and "client_call_ok b"
  shows "runs (redisAsyncHandle (hooks_of addRead delRead addWrite delWrite cleanup timer) b (e, True))
    (\<lambda>(e', alive). alive = (\<not> cb_frees b) \<and>
      (if Cleanup \<in> set (cb_hooks b) then released e'
       else alive \<and> inv e' \<and> watched e' = foldl requested (watched e) (cb_hooks b)))"
  using assms(2)
proof (cases rule: client_call_ok_cases)
  case 1
  then show ?thesis
    unfolding redisAsyncHandle_def using assms(1)
    by (auto intro!: runs_bindr runs_mono [OF hooks_ok] simp: runs_basic)
next
  case (2 hs)
  then show ?thesis
    unfolding redisAsyncHandle_def using assms(1)
    by (auto intro!: runs_bindr runs_mono [OF life] simp: runs_basic)
qed

end

text \<open>An adapter whose cleanup takes effect at once: in a released container nothing is watched any more.\<close>

locale releasing_adapter = redis_adapter +
  assumes released_unwatched: "released e \<Longrightarrow> watched e = {}"
begin

lemma life_unwatched:
  assumes "inv e" and "Cleanup \<notin> set hs"
  shows "runs (run_hooks (hooks_of addRead delRead addWrite delWrite cleanup timer) (hs @ [Cleanup]) e)
    (\<lambda>e'. released e' \<and> watched e' = {})"
  by (rule runs_mono [OF life [OF assms]]) (simp add: released_unwatched)

lemma implements:
  "implements_hooks (hooks_of addRead delRead addWrite delWrite cleanup timer) inv watched released"
  unfolding implements_hooks_def using hooks_ok life_unwatched by blast

end

section \<open>What the adapters rely on\<close>

text \<open>
  An event loop that watches descriptors: \<open>add\<close> starts watching a descriptor for an interest, \<open>del\<close> stops it, and
  both leave everything else as it is. \<open>watched\<close> tells what a loop watches a descriptor for. This is the documented
  behaviour of the loops the adapters drive, as long as the loop accepts the descriptor.
\<close>

definition loop_laws ::
    "('l \<Rightarrow> int \<Rightarrow> interest \<Rightarrow> 'l) \<Rightarrow> ('l \<Rightarrow> int \<Rightarrow> interest \<Rightarrow> 'l) \<Rightarrow> ('l \<Rightarrow> int \<Rightarrow> interest set) \<Rightarrow> bool" where
  "loop_laws add del watched \<longleftrightarrow>
     (\<forall>l fd i. watched (add l fd i) = (watched l)(fd := insert i (watched l fd))) \<and>
     (\<forall>l fd i. watched (del l fd i) = (watched l)(fd := watched l fd - {i}))"

lemma loop_laws_add: "loop_laws add del w \<Longrightarrow> w (add l fd i) = (w l)(fd := insert i (w l fd))"
  by (simp add: loop_laws_def)

lemma loop_laws_del: "loop_laws add del w \<Longrightarrow> w (del l fd i) = (w l)(fd := w l fd - {i})"
  by (simp add: loop_laws_def)

text \<open>The conversion of a \<open>double\<close> to an integer type, on exact reals: towards zero.\<close>

definition to_integer :: "real \<Rightarrow> int" where
  "to_integer x = (if 0 \<le> x then \<lfloor>x\<rfloor> else \<lceil>x\<rceil>)"

text \<open>\<open>tv.tv_sec * 1000 + tv.tv_usec / 1000.0\<close>, as several adapters compute it.\<close>

definition timeval_millis :: "timeval \<Rightarrow> int" where
  "timeval_millis tv = to_integer (of_int (tv_sec tv * 1000) + of_int (tv_usec tv) / 1000)"

lemma timeval_millis_nonneg:
  assumes "0 \<le> tv_sec tv" and "0 \<le> tv_usec tv"
  shows "timeval_millis tv = tv_sec tv * 1000 + tv_usec tv div 1000"
proof -
  have "\<lfloor>(of_int (tv_usec tv) :: real) / 1000\<rfloor> = tv_usec tv div 1000"
    using floor_divide_of_int_eq [of "tv_usec tv" 1000, where ?'a = real] by simp
  then have "\<lfloor>of_int (tv_sec tv * 1000) + (of_int (tv_usec tv) :: real) / 1000\<rfloor> = tv_sec tv * 1000 + tv_usec tv div 1000"
    by (metis add.commute floor_add_int)
  then show ?thesis using assms by (simp add: timeval_millis_def to_integer_def)
qed

end
