(* ===== verification/AdapterAe.thy ===== *)
theory AdapterAe
  imports AsyncHooks
begin

text \<open>
  The adapter for the event loop of Redis (\<open>adapters/ae.h\<close>). The loop the container points to is a field of it;
  \<open>aeCreateFileEvent\<close> and \<open>aeDeleteFileEvent\<close> are arguments.
\<close>

record 'l redisAeEvents = hi_block +
  ae_context :: nat
  ae_loop :: 'l
  ae_fd :: int
  ae_reading :: bool
  ae_writing :: bool

record 'l ae_api =
  aeCreateFileEvent :: "'l \<Rightarrow> int \<Rightarrow> interest \<Rightarrow> 'l"
  aeDeleteFileEvent :: "'l \<Rightarrow> int \<Rightarrow> interest \<Rightarrow> 'l"

definition redisAeReadEvent ::
    "'l redisAeEvents event_hooks \<Rightarrow> client_call \<Rightarrow> 'l redisAeEvents \<times> bool \<Rightarrow> ('l redisAeEvents \<times> bool) result" where
  "redisAeReadEvent t b w = access (fst w) (redisAsyncHandle t b w)"

definition redisAeWriteEvent ::
    "'l redisAeEvents event_hooks \<Rightarrow> client_call \<Rightarrow> 'l redisAeEvents \<times> bool \<Rightarrow> ('l redisAeEvents \<times> bool) result" where
  "redisAeWriteEvent t b w = access (fst w) (redisAsyncHandle t b w)"

definition redisAeAddRead :: "'l ae_api \<Rightarrow> 'l redisAeEvents \<Rightarrow> 'l redisAeEvents result" where
  "redisAeAddRead api e = access e
     (if \<not> ae_reading e
      then Inr (e\<lparr>ae_reading := True, ae_loop := aeCreateFileEvent api (ae_loop e) (ae_fd e) Readable\<rparr>)
      else Inr e)"

definition redisAeDelRead :: "'l ae_api \<Rightarrow> 'l redisAeEvents \<Rightarrow> 'l redisAeEvents result" where
  "redisAeDelRead api e = access e
     (if ae_reading e
      then Inr (e\<lparr>ae_reading := False, ae_loop := aeDeleteFileEvent api (ae_loop e) (ae_fd e) Readable\<rparr>)
      else Inr e)"

definition redisAeAddWrite :: "'l ae_api \<Rightarrow> 'l redisAeEvents \<Rightarrow> 'l redisAeEvents result" where
  "redisAeAddWrite api e = access e
     (if \<not> ae_writing e
      then Inr (e\<lparr>ae_writing := True, ae_loop := aeCreateFileEvent api (ae_loop e) (ae_fd e) Writable\<rparr>)
      else Inr e)"

definition redisAeDelWrite :: "'l ae_api \<Rightarrow> 'l redisAeEvents \<Rightarrow> 'l redisAeEvents result" where
  "redisAeDelWrite api e = access e
     (if ae_writing e
      then Inr (e\<lparr>ae_writing := False, ae_loop := aeDeleteFileEvent api (ae_loop e) (ae_fd e) Writable\<rparr>)
      else Inr e)"

definition redisAeCleanup :: "'l ae_api \<Rightarrow> 'l redisAeEvents \<Rightarrow> 'l redisAeEvents result" where
  "redisAeCleanup api e =
     bindr (redisAeDelRead api e) (\<lambda>e1. bindr (redisAeDelWrite api e1) hi_free)"

text \<open>The adapter registers no timer hook; the pointer stays what it was.\<close>

definition redisAeAttach :: "'l ae_api \<Rightarrow> bool \<Rightarrow> 'l \<Rightarrow> 'l redisAeEvents redisAsyncContext \<Rightarrow>
    int \<times> 'l redisAeEvents redisAsyncContext" where
  "redisAeAttach api malloc_ok loop ac =
     (if ev_data (ac_ev ac) \<noteq> None then (REDIS_ERR, ac)
      else if \<not> malloc_ok then (REDIS_ERR, ac)
      else let e = \<lparr>freed = False, ae_context = ac_id ac, ae_loop = loop, ae_fd = ac_fd ac,
                    ae_reading = False, ae_writing = False\<rparr>
           in (REDIS_OK, ac\<lparr>ac_ev := (hooks_of (redisAeAddRead api) (redisAeDelRead api) (redisAeAddWrite api)
                 (redisAeDelWrite api) (redisAeCleanup api) (ev_scheduleTimer (ac_ev ac)))\<lparr>ev_data := Some e\<rparr>\<rparr>))"

section \<open>The contract\<close>

text \<open>The flags of a live container tell what the loop watches its descriptor for.\<close>

definition ae_inv :: "'l ae_api \<Rightarrow> ('l \<Rightarrow> int \<Rightarrow> interest set) \<Rightarrow> 'l redisAeEvents \<Rightarrow> bool" where
  "ae_inv api w e \<longleftrightarrow> loop_laws (aeCreateFileEvent api) (aeDeleteFileEvent api) w \<and> \<not> freed e \<and>
     w (ae_loop e) (ae_fd e) = (if ae_reading e then {Readable} else {}) \<union> (if ae_writing e then {Writable} else {})"

definition ae_watched :: "('l \<Rightarrow> int \<Rightarrow> interest set) \<Rightarrow> 'l redisAeEvents \<Rightarrow> interest set" where
  "ae_watched w e = w (ae_loop e) (ae_fd e)"

definition ae_released :: "('l \<Rightarrow> int \<Rightarrow> interest set) \<Rightarrow> 'l redisAeEvents \<Rightarrow> bool" where
  "ae_released w e \<longleftrightarrow> freed e \<and> w (ae_loop e) (ae_fd e) = {}"

lemmas ae_ops = redisAeAddRead_def redisAeDelRead_def redisAeAddWrite_def redisAeDelWrite_def redisAeCleanup_def

abbreviation "ae_hooks api \<equiv> hooks_of (redisAeAddRead api) (redisAeDelRead api) (redisAeAddWrite api)
  (redisAeDelWrite api) (redisAeCleanup api) None"

interpretation ae: releasing_adapter "redisAeAddRead api" "redisAeDelRead api" "redisAeAddWrite api" "redisAeDelWrite api"
    "redisAeCleanup api" None "ae_inv api w" "ae_watched w" "ae_released w"
  for api :: "'l ae_api" and w
proof (unfold_locales, goal_cases)
  case (1 e)
  then show ?case
    by (auto simp: ae_ops ae_inv_def ae_watched_def loop_laws_def runs_def)
next
  case (2 e)
  then show ?case
    by (auto simp: ae_ops ae_inv_def ae_watched_def loop_laws_def runs_def)
next
  case (3 e)
  then show ?case
    by (auto simp: ae_ops ae_inv_def ae_watched_def loop_laws_def runs_def)
next
  case (4 e)
  then show ?case
    by (auto simp: ae_ops ae_inv_def ae_watched_def loop_laws_def runs_def)
next
  case (6 e)
  then show ?case
    by (auto simp: ae_ops ae_inv_def ae_released_def loop_laws_def runs_def)
next
  case (7 e)
  then show ?case by (simp add: ae_released_def ae_watched_def)
qed simp

lemma redisAeAttach_refused:
  "ev_data (ac_ev ac) \<noteq> None \<or> \<not> malloc_ok \<Longrightarrow> redisAeAttach api malloc_ok loop ac = (REDIS_ERR, ac)"
  by (auto simp: redisAeAttach_def)

lemma redisAeAttach_ok:
  assumes "ev_data (ac_ev ac) = None" and "loop_laws (aeCreateFileEvent api) (aeDeleteFileEvent api) w"
    and "w loop (ac_fd ac) = {}"
  obtains e ac' where "redisAeAttach api True loop ac = (REDIS_OK, ac')" and "ev_data (ac_ev ac') = Some e"
    and "ae_inv api w e" and "ae_watched w e = {}"
  using assms that by (auto simp: redisAeAttach_def ae_inv_def ae_watched_def Let_def)

text \<open>An event of the loop reaches the client with a live container and a live context.\<close>

lemma redisAeEvent_ok:
  assumes "ae_inv api w e" and "client_call_ok b"
  shows "runs (redisAeReadEvent (ae_hooks api) b (e, True))
    (\<lambda>(e', alive). if Cleanup \<in> set (cb_hooks b) then ae_released w e' else alive \<and> ae_inv api w e')"
  using ae.client_call [OF assms] assms(1)
  by (auto simp: redisAeReadEvent_def ae_inv_def elim!: runs_mono)

end
