(* ===== verification/AdapterLibev.thy ===== *)
theory AdapterLibev
  imports AsyncHooks
begin

text \<open>
  The adapter for libev (\<open>adapters/libev.h\<close>): two watchers, one per direction, and a timer, all members of the
  container. A watcher is its descriptor and its event mask, as \<open>ev_io_init\<close> sets them; the timer carries its
  active flag and the repeat value. The functions of libev are arguments.
\<close>

record ev_io =
  io_fd :: int
  io_events :: interest

record ev_timer =
  timer_active :: bool
  timer_data :: bool
  timer_repeat :: real

record 'l redisLibevEvents = hi_block +
  lev_context :: nat
  lev_loop :: 'l
  lev_reading :: bool
  lev_writing :: bool
  lev_rev :: ev_io
  lev_wev :: ev_io
  lev_timer :: ev_timer

record 'l ev_api =
  ev_io_start :: "'l \<Rightarrow> ev_io \<Rightarrow> 'l"
  ev_io_stop :: "'l \<Rightarrow> ev_io \<Rightarrow> 'l"
  ev_timer_again :: "'l \<Rightarrow> ev_timer \<Rightarrow> 'l \<times> ev_timer"
  ev_timer_stop :: "'l \<Rightarrow> ev_timer \<Rightarrow> 'l \<times> ev_timer"

definition redisLibevReadEvent ::
    "'l redisLibevEvents event_hooks \<Rightarrow> client_call \<Rightarrow> 'l redisLibevEvents \<times> bool \<Rightarrow> ('l redisLibevEvents \<times> bool) result" where
  "redisLibevReadEvent t b w = access (fst w) (redisAsyncHandle t b w)"

definition redisLibevWriteEvent ::
    "'l redisLibevEvents event_hooks \<Rightarrow> client_call \<Rightarrow> 'l redisLibevEvents \<times> bool \<Rightarrow> ('l redisLibevEvents \<times> bool) result" where
  "redisLibevWriteEvent t b w = access (fst w) (redisAsyncHandle t b w)"

definition redisLibevAddRead :: "'l ev_api \<Rightarrow> 'l redisLibevEvents \<Rightarrow> 'l redisLibevEvents result" where
  "redisLibevAddRead api e = access e
     (if \<not> lev_reading e
      then Inr (e\<lparr>lev_reading := True, lev_loop := ev_io_start api (lev_loop e) (lev_rev e)\<rparr>) else Inr e)"

definition redisLibevDelRead :: "'l ev_api \<Rightarrow> 'l redisLibevEvents \<Rightarrow> 'l redisLibevEvents result" where
  "redisLibevDelRead api e = access e
     (if lev_reading e
      then Inr (e\<lparr>lev_reading := False, lev_loop := ev_io_stop api (lev_loop e) (lev_rev e)\<rparr>) else Inr e)"

definition redisLibevAddWrite :: "'l ev_api \<Rightarrow> 'l redisLibevEvents \<Rightarrow> 'l redisLibevEvents result" where
  "redisLibevAddWrite api e = access e
     (if \<not> lev_writing e
      then Inr (e\<lparr>lev_writing := True, lev_loop := ev_io_start api (lev_loop e) (lev_wev e)\<rparr>) else Inr e)"

definition redisLibevDelWrite :: "'l ev_api \<Rightarrow> 'l redisLibevEvents \<Rightarrow> 'l redisLibevEvents result" where
  "redisLibevDelWrite api e = access e
     (if lev_writing e
      then Inr (e\<lparr>lev_writing := False, lev_loop := ev_io_stop api (lev_loop e) (lev_wev e)\<rparr>) else Inr e)"

definition redisLibevStopTimer :: "'l ev_api \<Rightarrow> 'l redisLibevEvents \<Rightarrow> 'l redisLibevEvents result" where
  "redisLibevStopTimer api e = access e
     (let (l, t) = ev_timer_stop api (lev_loop e) (lev_timer e) in Inr (e\<lparr>lev_loop := l, lev_timer := t\<rparr>))"

definition redisLibevCleanup :: "'l ev_api \<Rightarrow> 'l redisLibevEvents \<Rightarrow> 'l redisLibevEvents result" where
  "redisLibevCleanup api e =
     bindr (redisLibevDelRead api e) (\<lambda>e1. bindr (redisLibevDelWrite api e1) (\<lambda>e2.
     bindr (redisLibevStopTimer api e2) hi_free))"

definition redisLibevTimeout ::
    "'l redisLibevEvents event_hooks \<Rightarrow> client_call \<Rightarrow> 'l redisLibevEvents \<times> bool \<Rightarrow> ('l redisLibevEvents \<times> bool) result" where
  "redisLibevTimeout t b w = access (fst w) (redisAsyncHandle t b w)"

text \<open>\<open>ev_init\<close> makes a timer inactive; \<open>ev_timer_again\<close> starts, restarts or stops it by its repeat value.\<close>

definition redisLibevSetTimeout :: "'l ev_api \<Rightarrow> 'l redisLibevEvents \<Rightarrow> timeval \<Rightarrow> 'l redisLibevEvents result" where
  "redisLibevSetTimeout api e tv = access e
     (let t0 = lev_timer e;
          t1 = (if \<not> timer_active t0 then t0\<lparr>timer_active := False, timer_data := True\<rparr> else t0);
          t2 = t1\<lparr>timer_repeat := of_int (tv_sec tv) + of_int (tv_usec tv) / 1000000\<rparr>;
          (l, t3) = ev_timer_again api (lev_loop e) t2
      in Inr (e\<lparr>lev_loop := l, lev_timer := t3\<rparr>))"

definition redisLibevAttach :: "'l ev_api \<Rightarrow> bool \<Rightarrow> 'l \<Rightarrow> 'l redisLibevEvents redisAsyncContext \<Rightarrow>
    int \<times> 'l redisLibevEvents redisAsyncContext" where
  "redisLibevAttach api calloc_ok loop ac =
     (if ev_data (ac_ev ac) \<noteq> None then (REDIS_ERR, ac)
      else if \<not> calloc_ok then (REDIS_ERR, ac)
      else let e = \<lparr>freed = False, lev_context = ac_id ac, lev_loop = loop, lev_reading = False, lev_writing = False,
                    lev_rev = \<lparr>io_fd = ac_fd ac, io_events = Readable\<rparr>,
                    lev_wev = \<lparr>io_fd = ac_fd ac, io_events = Writable\<rparr>,
                    lev_timer = \<lparr>timer_active = False, timer_data = False, timer_repeat = 0\<rparr>\<rparr>
           in (REDIS_OK, ac\<lparr>ac_ev := (hooks_of (redisLibevAddRead api) (redisLibevDelRead api) (redisLibevAddWrite api)
                 (redisLibevDelWrite api) (redisLibevCleanup api) (Some (redisLibevSetTimeout api)))\<lparr>ev_data := Some e\<rparr>\<rparr>))"

section \<open>The contract\<close>

text \<open>
  libev: starting and stopping a watcher of a descriptor follows the laws of a loop, the timer functions leave the
  descriptors alone, and a stopped timer is inactive.
\<close>

definition ev_laws :: "'l ev_api \<Rightarrow> ('l \<Rightarrow> int \<Rightarrow> interest set) \<Rightarrow> bool" where
  "ev_laws api w \<longleftrightarrow>
     (\<forall>l x. w (ev_io_start api l x) = (w l)(io_fd x := insert (io_events x) (w l (io_fd x)))) \<and>
     (\<forall>l x. w (ev_io_stop api l x) = (w l)(io_fd x := w l (io_fd x) - {io_events x})) \<and>
     (\<forall>l t. w (fst (ev_timer_again api l t)) = w l \<and> w (fst (ev_timer_stop api l t)) = w l \<and>
        \<not> timer_active (snd (ev_timer_stop api l t)))"

definition lev_fd :: "'l redisLibevEvents \<Rightarrow> int" where
  "lev_fd e = io_fd (lev_rev e)"

definition lev_inv :: "'l ev_api \<Rightarrow> ('l \<Rightarrow> int \<Rightarrow> interest set) \<Rightarrow> 'l redisLibevEvents \<Rightarrow> bool" where
  "lev_inv api w e \<longleftrightarrow> ev_laws api w \<and> \<not> freed e \<and>
     io_events (lev_rev e) = Readable \<and> io_events (lev_wev e) = Writable \<and> io_fd (lev_wev e) = lev_fd e \<and>
     w (lev_loop e) (lev_fd e) =
       (if lev_reading e then {Readable} else {}) \<union> (if lev_writing e then {Writable} else {})"

definition lev_watched :: "('l \<Rightarrow> int \<Rightarrow> interest set) \<Rightarrow> 'l redisLibevEvents \<Rightarrow> interest set" where
  "lev_watched w e = w (lev_loop e) (lev_fd e)"

definition lev_released :: "('l \<Rightarrow> int \<Rightarrow> interest set) \<Rightarrow> 'l redisLibevEvents \<Rightarrow> bool" where
  "lev_released w e \<longleftrightarrow> freed e \<and> w (lev_loop e) (lev_fd e) = {} \<and> \<not> timer_active (lev_timer e)"

lemmas lev_ops = redisLibevAddRead_def redisLibevDelRead_def redisLibevAddWrite_def redisLibevDelWrite_def
  redisLibevStopTimer_def redisLibevCleanup_def redisLibevSetTimeout_def

lemmas lev_defs = lev_ops lev_inv_def lev_watched_def lev_fd_def ev_laws_def

abbreviation "lev_hooks api \<equiv> hooks_of (redisLibevAddRead api) (redisLibevDelRead api) (redisLibevAddWrite api)
  (redisLibevDelWrite api) (redisLibevCleanup api) (Some (redisLibevSetTimeout api))"

interpretation lev: releasing_adapter "redisLibevAddRead api" "redisLibevDelRead api" "redisLibevAddWrite api"
    "redisLibevDelWrite api" "redisLibevCleanup api" "Some (redisLibevSetTimeout api)" "lev_inv api w" "lev_watched w"
    "lev_released w"
  for api :: "'l ev_api" and w
proof (unfold_locales, goal_cases)
  case (1 e)
  then show ?case by (auto simp: lev_defs runs_def)
next
  case (2 e)
  then show ?case by (auto simp: lev_defs runs_def)
next
  case (3 e)
  then show ?case by (auto simp: lev_defs runs_def)
next
  case (4 e)
  then show ?case by (auto simp: lev_defs runs_def)
next
  case (5 e f tv)
  then show ?case by (auto simp: lev_defs runs_def Let_def case_prod_beta)
next
  case (6 e)
  then show ?case by (auto simp: lev_defs lev_released_def runs_def Let_def case_prod_beta)
next
  case (7 e)
  then show ?case by (simp add: lev_released_def lev_watched_def)
qed

lemma redisLibevAttach_ok:
  assumes "ev_data (ac_ev ac) = None" and "ev_laws api w" and "w loop (ac_fd ac) = {}"
  obtains e ac' where "redisLibevAttach api True loop ac = (REDIS_OK, ac')" and "ev_data (ac_ev ac') = Some e"
    and "lev_inv api w e" and "lev_watched w e = {}"
  using assms that by (auto simp: redisLibevAttach_def lev_inv_def lev_watched_def lev_fd_def Let_def)

end
