(* ===== verification/AdapterRedisModule.thy ===== *)
theory AdapterRedisModule
  imports AsyncHooks
begin

text \<open>
  The adapter for modules inside a Redis server (\<open>adapters/redismoduleapi.h\<close>): the server's event loop and its
  timers are the field \<open>mod_server\<close>; the functions of the module API are arguments.
\<close>

record 'l redisModuleEvents = hi_block +
  mod_context :: nat
  mod_server :: 'l
  mod_fd :: int
  mod_reading :: bool
  mod_writing :: bool
  mod_timer_active :: bool
  mod_timer_id :: nat

record 'l module_api =
  RedisModule_EventLoopAdd :: "'l \<Rightarrow> int \<Rightarrow> interest \<Rightarrow> 'l"
  RedisModule_EventLoopDel :: "'l \<Rightarrow> int \<Rightarrow> interest \<Rightarrow> 'l"
  RedisModule_CreateTimer :: "'l \<Rightarrow> int \<Rightarrow> 'l \<times> nat"
  RedisModule_StopTimer :: "'l \<Rightarrow> nat \<Rightarrow> 'l"

definition redisModuleReadEvent ::
    "'l redisModuleEvents event_hooks \<Rightarrow> client_call \<Rightarrow> 'l redisModuleEvents \<times> bool \<Rightarrow> ('l redisModuleEvents \<times> bool) result" where
  "redisModuleReadEvent t b w = access (fst w) (redisAsyncHandle t b w)"

definition redisModuleWriteEvent ::
    "'l redisModuleEvents event_hooks \<Rightarrow> client_call \<Rightarrow> 'l redisModuleEvents \<times> bool \<Rightarrow> ('l redisModuleEvents \<times> bool) result" where
  "redisModuleWriteEvent t b w = access (fst w) (redisAsyncHandle t b w)"

definition redisModuleAddRead :: "'l module_api \<Rightarrow> 'l redisModuleEvents \<Rightarrow> 'l redisModuleEvents result" where
  "redisModuleAddRead api e = access e
     (if \<not> mod_reading e
      then Inr (e\<lparr>mod_reading := True, mod_server := RedisModule_EventLoopAdd api (mod_server e) (mod_fd e) Readable\<rparr>)
      else Inr e)"

definition redisModuleDelRead :: "'l module_api \<Rightarrow> 'l redisModuleEvents \<Rightarrow> 'l redisModuleEvents result" where
  "redisModuleDelRead api e = access e
     (if mod_reading e
      then Inr (e\<lparr>mod_reading := False, mod_server := RedisModule_EventLoopDel api (mod_server e) (mod_fd e) Readable\<rparr>)
      else Inr e)"

definition redisModuleAddWrite :: "'l module_api \<Rightarrow> 'l redisModuleEvents \<Rightarrow> 'l redisModuleEvents result" where
  "redisModuleAddWrite api e = access e
     (if \<not> mod_writing e
      then Inr (e\<lparr>mod_writing := True, mod_server := RedisModule_EventLoopAdd api (mod_server e) (mod_fd e) Writable\<rparr>)
      else Inr e)"

definition redisModuleDelWrite :: "'l module_api \<Rightarrow> 'l redisModuleEvents \<Rightarrow> 'l redisModuleEvents result" where
  "redisModuleDelWrite api e = access e
     (if mod_writing e
      then Inr (e\<lparr>mod_writing := False, mod_server := RedisModule_EventLoopDel api (mod_server e) (mod_fd e) Writable\<rparr>)
      else Inr e)"

definition redisModuleStopTimer :: "'l module_api \<Rightarrow> 'l redisModuleEvents \<Rightarrow> 'l redisModuleEvents result" where
  "redisModuleStopTimer api e = access e
     (let e1 = (if mod_timer_active e then e\<lparr>mod_server := RedisModule_StopTimer api (mod_server e) (mod_timer_id e)\<rparr> else e)
      in Inr (e1\<lparr>mod_timer_active := False\<rparr>))"

definition redisModuleCleanup :: "'l module_api \<Rightarrow> 'l redisModuleEvents \<Rightarrow> 'l redisModuleEvents result" where
  "redisModuleCleanup api e =
     bindr (redisModuleDelRead api e) (\<lambda>e1. bindr (redisModuleDelWrite api e1) (\<lambda>e2.
     bindr (redisModuleStopTimer api e2) hi_free))"

text \<open>The server calls this when the timer has run out.\<close>

definition redisModuleTimeout ::
    "'l redisModuleEvents event_hooks \<Rightarrow> client_call \<Rightarrow> 'l redisModuleEvents \<times> bool \<Rightarrow> ('l redisModuleEvents \<times> bool) result" where
  "redisModuleTimeout t b = (\<lambda>(e, alive). access e (redisAsyncHandle t b (e\<lparr>mod_timer_active := False\<rparr>, alive)))"

definition redisModuleSetTimeout :: "'l module_api \<Rightarrow> 'l redisModuleEvents \<Rightarrow> timeval \<Rightarrow> 'l redisModuleEvents result" where
  "redisModuleSetTimeout api e tv =
     bindr (redisModuleStopTimer api e) (\<lambda>e1.
       let (l, i) = RedisModule_CreateTimer api (mod_server e1) (timeval_millis tv)
       in Inr (e1\<lparr>mod_server := l, mod_timer_id := i, mod_timer_active := True\<rparr>))"

text \<open>Which functions the running server provides.\<close>

definition redisModuleCompatibilityCheck :: "bool \<Rightarrow> bool \<Rightarrow> bool \<Rightarrow> bool \<Rightarrow> int" where
  "redisModuleCompatibilityCheck eventLoopAdd eventLoopDel createTimer stopTimer =
     (if \<not> eventLoopAdd \<or> \<not> eventLoopDel \<or> \<not> createTimer \<or> \<not> stopTimer then REDIS_ERR else REDIS_OK)"

definition redisModuleAttach :: "'l module_api \<Rightarrow> bool \<Rightarrow> nat \<Rightarrow> 'l \<Rightarrow> 'l redisModuleEvents redisAsyncContext \<Rightarrow>
    int \<times> 'l redisModuleEvents redisAsyncContext" where
  "redisModuleAttach api malloc_ok garbage module_ctx ac =
     (if ev_data (ac_ev ac) \<noteq> None then (REDIS_ERR, ac)
      else if \<not> malloc_ok then (REDIS_ERR, ac)
      else let e = \<lparr>freed = False, mod_context = ac_id ac, mod_server = module_ctx, mod_fd = ac_fd ac, mod_reading = False,
                    mod_writing = False, mod_timer_active = False, mod_timer_id = garbage\<rparr>
           in (REDIS_OK, ac\<lparr>ac_ev := (hooks_of (redisModuleAddRead api) (redisModuleDelRead api) (redisModuleAddWrite api)
                 (redisModuleDelWrite api) (redisModuleCleanup api) (Some (redisModuleSetTimeout api)))\<lparr>ev_data := Some e\<rparr>\<rparr>))"

section \<open>The contract\<close>

text \<open>
  The server watches descriptors by the laws of a loop; \<open>timers\<close> are the timers it has pending for the container: a
  created timer is pending until it is stopped.
\<close>

definition module_laws :: "'l module_api \<Rightarrow> ('l \<Rightarrow> int \<Rightarrow> interest set) \<Rightarrow> ('l \<Rightarrow> nat set) \<Rightarrow> bool" where
  "module_laws api w timers \<longleftrightarrow>
     loop_laws (RedisModule_EventLoopAdd api) (RedisModule_EventLoopDel api) w \<and>
     (\<forall>l fd i. timers (RedisModule_EventLoopAdd api l fd i) = timers l \<and>
        timers (RedisModule_EventLoopDel api l fd i) = timers l) \<and>
     (\<forall>l ms. w (fst (RedisModule_CreateTimer api l ms)) = w l \<and>
        timers (fst (RedisModule_CreateTimer api l ms)) = insert (snd (RedisModule_CreateTimer api l ms)) (timers l)) \<and>
     (\<forall>l i. w (RedisModule_StopTimer api l i) = w l \<and> timers (RedisModule_StopTimer api l i) = timers l - {i})"

text \<open>At most one timer is pending, the one whose identifier the container keeps.\<close>

definition mod_inv :: "'l module_api \<Rightarrow> ('l \<Rightarrow> int \<Rightarrow> interest set) \<Rightarrow> ('l \<Rightarrow> nat set) \<Rightarrow> 'l redisModuleEvents \<Rightarrow> bool" where
  "mod_inv api w timers e \<longleftrightarrow> module_laws api w timers \<and> \<not> freed e \<and>
     w (mod_server e) (mod_fd e) = (if mod_reading e then {Readable} else {}) \<union> (if mod_writing e then {Writable} else {}) \<and>
     timers (mod_server e) = (if mod_timer_active e then {mod_timer_id e} else {})"

definition mod_watched :: "('l \<Rightarrow> int \<Rightarrow> interest set) \<Rightarrow> 'l redisModuleEvents \<Rightarrow> interest set" where
  "mod_watched w e = w (mod_server e) (mod_fd e)"

definition mod_released :: "('l \<Rightarrow> int \<Rightarrow> interest set) \<Rightarrow> ('l \<Rightarrow> nat set) \<Rightarrow> 'l redisModuleEvents \<Rightarrow> bool" where
  "mod_released w timers e \<longleftrightarrow> freed e \<and> w (mod_server e) (mod_fd e) = {} \<and> timers (mod_server e) = {}"

lemmas mod_ops = redisModuleAddRead_def redisModuleDelRead_def redisModuleAddWrite_def redisModuleDelWrite_def
  redisModuleStopTimer_def redisModuleCleanup_def redisModuleSetTimeout_def

lemmas mod_defs = mod_ops mod_inv_def mod_watched_def module_laws_def loop_laws_def

abbreviation "mod_hooks api \<equiv> hooks_of (redisModuleAddRead api) (redisModuleDelRead api) (redisModuleAddWrite api)
  (redisModuleDelWrite api) (redisModuleCleanup api) (Some (redisModuleSetTimeout api))"

interpretation md: releasing_adapter "redisModuleAddRead api" "redisModuleDelRead api" "redisModuleAddWrite api"
    "redisModuleDelWrite api" "redisModuleCleanup api" "Some (redisModuleSetTimeout api)" "mod_inv api w timers"
    "mod_watched w" "mod_released w timers"
  for api :: "'l module_api" and w timers
proof (unfold_locales, goal_cases)
  case (1 e)
  then show ?case by (auto simp: mod_defs runs_def)
next
  case (2 e)
  then show ?case by (auto simp: mod_defs runs_def)
next
  case (3 e)
  then show ?case by (auto simp: mod_defs runs_def)
next
  case (4 e)
  then show ?case by (auto simp: mod_defs runs_def)
next
  case (5 e f tv)
  then show ?case by (cases "mod_timer_active e") (auto simp: mod_defs runs_def Let_def case_prod_beta)
next
  case (6 e)
  then show ?case by (cases "mod_timer_active e") (auto simp: mod_defs mod_released_def runs_def Let_def)
next
  case (7 e)
  then show ?case by (simp add: mod_released_def mod_watched_def)
qed

lemma redisModuleAttach_ok:
  assumes "ev_data (ac_ev ac) = None" and "module_laws api w timers" and "w module_ctx (ac_fd ac) = {}"
    and "timers module_ctx = {}"
  obtains e ac' where "redisModuleAttach api True garbage module_ctx ac = (REDIS_OK, ac')"
    and "ev_data (ac_ev ac') = Some e" and "mod_inv api w timers e" and "mod_watched w e = {}"
  using assms that by (auto simp: redisModuleAttach_def mod_inv_def mod_watched_def Let_def)

text \<open>
  When the timer runs out the server forgets it and calls the handler: the identifier is no longer used, so the
  client may set the next timeout from the call.
\<close>

lemma redisModuleTimeout_ok:
  assumes "mod_inv api w timers (e\<lparr>mod_timer_active := False\<rparr>)" and "client_call_ok b"
  shows "runs (redisModuleTimeout (mod_hooks api) b (e, True))
    (\<lambda>(e', alive). if Cleanup \<in> set (cb_hooks b) then mod_released w timers e' else alive \<and> mod_inv api w timers e')"
  using md.client_call [OF assms] assms(1)
  by (auto simp: redisModuleTimeout_def mod_inv_def elim!: runs_mono)

end
