(* ===== verification/AdapterLibuv.thy ===== *)
theory AdapterLibuv
  imports AsyncHooks
begin

unbundle bit_operations_syntax

text \<open>
  The adapter for libuv (\<open>adapters/libuv.h\<close>). The container holds the poll handle and the timer handle; libuv
  releases a handle only after its close callback, so the cleanup hook starts the closing and the container is
  freed by the last of the two callbacks. The state of libuv for the two handles is the field \<open>uv_loop\<close>; the
  members \<open>data\<close> of the handles point to the container or are \<open>NULL\<close>.
\<close>

definition UV_READABLE :: "32 word" where "UV_READABLE = 1"
definition UV_WRITABLE :: "32 word" where "UV_WRITABLE = 2"

record 'l redisLibuvEvents = hi_block +
  uv_context :: "nat option"
  uv_loop :: 'l
  uv_handle_data :: bool
  uv_timer_data :: bool
  uv_events :: "32 word"

record 'l uv_api =
  uv_poll_start :: "'l \<Rightarrow> 32 word \<Rightarrow> 'l"
  uv_poll_stop :: "'l \<Rightarrow> 'l"
  uv_timer_init :: "'l \<Rightarrow> 'l \<times> int"
  uv_timer_start :: "'l \<Rightarrow> UINT64 \<Rightarrow> 'l"
  uv_close_timer :: "'l \<Rightarrow> 'l"
  uv_close_handle :: "'l \<Rightarrow> 'l"

definition redisLibuvPoll :: "'l redisLibuvEvents event_hooks \<Rightarrow> client_call \<Rightarrow> client_call \<Rightarrow> int \<Rightarrow> 32 word \<Rightarrow>
    'l redisLibuvEvents \<times> bool \<Rightarrow> ('l redisLibuvEvents \<times> bool) result" where
  "redisLibuvPoll t onRead onWrite status events w = access (fst w)
     (let ev = (if status \<noteq> 0 then uv_events (fst w) else events) in
      bindr (if uv_context (fst w) \<noteq> None \<and> ev AND UV_READABLE \<noteq> 0 then redisAsyncHandle t onRead w else Inr w) (\<lambda>w1.
      access (fst w1)
        (if uv_context (fst w1) \<noteq> None \<and> ev AND UV_WRITABLE \<noteq> 0 then redisAsyncHandle t onWrite w1 else Inr w1)))"

definition redisLibuvAddRead :: "'l uv_api \<Rightarrow> 'l redisLibuvEvents \<Rightarrow> 'l redisLibuvEvents result" where
  "redisLibuvAddRead api p = access p
     (if uv_events p AND UV_READABLE \<noteq> 0 then Inr p
      else let p1 = p\<lparr>uv_events := uv_events p OR UV_READABLE\<rparr>
           in Inr (p1\<lparr>uv_loop := uv_poll_start api (uv_loop p1) (uv_events p1)\<rparr>))"

definition redisLibuvDelRead :: "'l uv_api \<Rightarrow> 'l redisLibuvEvents \<Rightarrow> 'l redisLibuvEvents result" where
  "redisLibuvDelRead api p = access p
     (let p1 = p\<lparr>uv_events := uv_events p AND NOT UV_READABLE\<rparr>
      in if uv_events p1 \<noteq> 0 then Inr (p1\<lparr>uv_loop := uv_poll_start api (uv_loop p1) (uv_events p1)\<rparr>)
         else Inr (p1\<lparr>uv_loop := uv_poll_stop api (uv_loop p1)\<rparr>))"

definition redisLibuvAddWrite :: "'l uv_api \<Rightarrow> 'l redisLibuvEvents \<Rightarrow> 'l redisLibuvEvents result" where
  "redisLibuvAddWrite api p = access p
     (if uv_events p AND UV_WRITABLE \<noteq> 0 then Inr p
      else let p1 = p\<lparr>uv_events := uv_events p OR UV_WRITABLE\<rparr>
           in Inr (p1\<lparr>uv_loop := uv_poll_start api (uv_loop p1) (uv_events p1)\<rparr>))"

definition redisLibuvDelWrite :: "'l uv_api \<Rightarrow> 'l redisLibuvEvents \<Rightarrow> 'l redisLibuvEvents result" where
  "redisLibuvDelWrite api p = access p
     (let p1 = p\<lparr>uv_events := uv_events p AND NOT UV_WRITABLE\<rparr>
      in if uv_events p1 \<noteq> 0 then Inr (p1\<lparr>uv_loop := uv_poll_start api (uv_loop p1) (uv_events p1)\<rparr>)
         else Inr (p1\<lparr>uv_loop := uv_poll_stop api (uv_loop p1)\<rparr>))"

definition on_timer_close :: "'l redisLibuvEvents \<Rightarrow> 'l redisLibuvEvents result" where
  "on_timer_close p = access p
     (let p1 = p\<lparr>uv_timer_data := False\<rparr> in if \<not> uv_handle_data p1 then hi_free p1 else Inr p1)"

definition on_handle_close :: "'l redisLibuvEvents \<Rightarrow> 'l redisLibuvEvents result" where
  "on_handle_close p = access p
     (let p1 = p\<lparr>uv_handle_data := False\<rparr> in if \<not> uv_timer_data p1 then hi_free p1 else Inr p1)"

definition redisLibuvTimeout :: "'l redisLibuvEvents event_hooks \<Rightarrow> client_call \<Rightarrow>
    'l redisLibuvEvents \<times> bool \<Rightarrow> ('l redisLibuvEvents \<times> bool) result" where
  "redisLibuvTimeout t b w = access (fst w)
     (if uv_context (fst w) = None then Inl NullPointer else redisAsyncHandle t b w)"

definition redisLibuvSetTimeout :: "'l uv_api \<Rightarrow> 'l redisLibuvEvents \<Rightarrow> timeval \<Rightarrow> 'l redisLibuvEvents result" where
  "redisLibuvSetTimeout api p tv = access p
     (let millsec = of_int (timeval_millis tv);
          start = (\<lambda>p. p\<lparr>uv_loop := uv_timer_start api (uv_loop p) millsec\<rparr>)
      in if \<not> uv_timer_data p
         then let (l, rc) = uv_timer_init api (uv_loop p); p1 = p\<lparr>uv_loop := l\<rparr>
              in if rc \<noteq> 0 then Inr p1 else Inr (start (p1\<lparr>uv_timer_data := True\<rparr>))
         else Inr (start p))"

definition redisLibuvCleanup :: "'l uv_api \<Rightarrow> 'l redisLibuvEvents \<Rightarrow> 'l redisLibuvEvents result" where
  "redisLibuvCleanup api p = access p
     (let p1 = p\<lparr>uv_context := None\<rparr>;
          p2 = (if uv_timer_data p1 then p1\<lparr>uv_loop := uv_close_timer api (uv_loop p1)\<rparr> else p1)
      in Inr (p2\<lparr>uv_loop := uv_close_handle api (uv_loop p2)\<rparr>))"

text \<open>\<open>uv_poll_init_socket\<close> is the argument \<open>init\<close>: the loop with the new handle, and the result.\<close>

definition redisLibuvAttach :: "'l uv_api \<Rightarrow> bool \<Rightarrow> ('l \<Rightarrow> int \<Rightarrow> 'l \<times> int) \<Rightarrow> 'l redisLibuvEvents redisAsyncContext \<Rightarrow> 'l \<Rightarrow>
    int \<times> 'l redisLibuvEvents redisAsyncContext" where
  "redisLibuvAttach api malloc_ok init ac loop =
     (if ev_data (ac_ev ac) \<noteq> None then (REDIS_ERR, ac)
      else
        let ac1 = ac\<lparr>ac_ev := hooks_of (redisLibuvAddRead api) (redisLibuvDelRead api) (redisLibuvAddWrite api)
                     (redisLibuvDelWrite api) (redisLibuvCleanup api) (Some (redisLibuvSetTimeout api))\<rparr>
        in if \<not> malloc_ok then (REDIS_ERR, ac1)
           else let (l, rc) = init loop (ac_fd ac1) in
             if rc \<noteq> 0 then (REDIS_ERR, ac1)
             else let p = \<lparr>freed = False, uv_context = Some (ac_id ac1), uv_loop = l, uv_handle_data = True,
                           uv_timer_data = False, uv_events = 0\<rparr>
                  in (REDIS_OK, ac1\<lparr>ac_ev := (ac_ev ac1)\<lparr>ev_data := Some p\<rparr>\<rparr>))"

section \<open>The contract\<close>

definition uv_interests :: "32 word \<Rightarrow> interest set" where
  "uv_interests m = (if m AND UV_READABLE \<noteq> 0 then {Readable} else {}) \<union> (if m AND UV_WRITABLE \<noteq> 0 then {Writable} else {})"

text \<open>
  libuv: a started poll handle is watched for exactly the events given, a stopped or closed one for none, and the
  timer functions leave the poll handle alone.
\<close>

definition uv_laws :: "'l uv_api \<Rightarrow> ('l \<Rightarrow> interest set) \<Rightarrow> bool" where
  "uv_laws api w \<longleftrightarrow>
     (\<forall>l m. w (uv_poll_start api l m) = uv_interests m) \<and> (\<forall>l. w (uv_poll_stop api l) = {}) \<and>
     (\<forall>l. w (fst (uv_timer_init api l)) = w l) \<and> (\<forall>l ms. w (uv_timer_start api l ms) = w l) \<and>
     (\<forall>l. w (uv_close_timer api l) = w l) \<and> (\<forall>l. w (uv_close_handle api l) = {})"

definition uv_inv :: "'l uv_api \<Rightarrow> ('l \<Rightarrow> interest set) \<Rightarrow> 'l redisLibuvEvents \<Rightarrow> bool" where
  "uv_inv api w p \<longleftrightarrow> uv_laws api w \<and> \<not> freed p \<and> uv_context p \<noteq> None \<and> uv_handle_data p \<and>
     uv_events p \<in> {0, UV_READABLE, UV_WRITABLE, UV_READABLE OR UV_WRITABLE} \<and> w (uv_loop p) = uv_interests (uv_events p)"

text \<open>After the cleanup hook: nothing watched, the context forgotten, the container still there for libuv.\<close>

definition uv_closing :: "('l \<Rightarrow> interest set) \<Rightarrow> 'l redisLibuvEvents \<Rightarrow> bool" where
  "uv_closing w p \<longleftrightarrow> \<not> freed p \<and> uv_context p = None \<and> uv_handle_data p \<and> w (uv_loop p) = {}"

lemmas uv_ops = redisLibuvAddRead_def redisLibuvDelRead_def redisLibuvAddWrite_def redisLibuvDelWrite_def
  redisLibuvCleanup_def redisLibuvSetTimeout_def

lemmas uv_defs = uv_ops uv_inv_def uv_laws_def uv_interests_def UV_READABLE_def UV_WRITABLE_def

interpretation uv: releasing_adapter "redisLibuvAddRead api" "redisLibuvDelRead api" "redisLibuvAddWrite api"
    "redisLibuvDelWrite api" "redisLibuvCleanup api" "Some (redisLibuvSetTimeout api)" "uv_inv api w"
    "\<lambda>p. w (uv_loop p)" "uv_closing w"
  for api :: "'l uv_api" and w
proof (unfold_locales, goal_cases)
  case (1 e)
  then show ?case by (auto simp: uv_defs runs_def Let_def)
next
  case (2 e)
  then show ?case by (auto simp: uv_defs runs_def Let_def)
next
  case (3 e)
  then show ?case by (auto simp: uv_defs runs_def Let_def)
next
  case (4 e)
  then show ?case by (auto simp: uv_defs runs_def Let_def)
next
  case (5 e f tv)
  then show ?case by (auto simp: uv_ops uv_inv_def uv_laws_def runs_def Let_def case_prod_beta)
next
  case (6 e)
  then show ?case by (auto simp: uv_ops uv_inv_def uv_laws_def uv_closing_def runs_def Let_def)
next
  case (7 e)
  then show ?case by (simp add: uv_closing_def)
qed

abbreviation "uv_hooks api \<equiv> hooks_of (redisLibuvAddRead api) (redisLibuvDelRead api) (redisLibuvAddWrite api)
  (redisLibuvDelWrite api) (redisLibuvCleanup api) (Some (redisLibuvSetTimeout api))"

text \<open>
  An event: the write side is served only if the read side has not disconnected; nothing freed is touched, since
  the cleanup leaves the container to libuv.
\<close>

lemma redisLibuvPoll_ok:
  assumes "uv_inv api w p" and "client_call_ok b1" and "client_call_ok b2"
  shows "runs (redisLibuvPoll (uv_hooks api) b1 b2 status events (p, True))
    (\<lambda>(p', alive). alive \<and> uv_inv api w p' \<or> uv_closing w p')"
proof -
  have call: "runs (redisAsyncHandle (uv_hooks api) b (q, True)) (\<lambda>(p', alive). alive \<and> uv_inv api w p' \<or> uv_closing w p')"
    if "uv_inv api w q" "client_call_ok b" for q b
    by (rule runs_mono [OF uv.client_call [OF that]]) (auto split: if_splits)
  have live: "\<not> freed p" "uv_context p \<noteq> None" using assms(1) by (auto simp: uv_inv_def)
  have second: "runs (access (fst w1) (if uv_context (fst w1) \<noteq> None \<and> c then redisAsyncHandle (uv_hooks api) b2 w1 else Inr w1))
      (\<lambda>(p', alive). alive \<and> uv_inv api w p' \<or> uv_closing w p')"
    if "case w1 of (p', alive) \<Rightarrow> alive \<and> uv_inv api w p' \<or> uv_closing w p'" for w1 c
    using that call [OF _ assms(3)] by (cases w1) (auto simp: uv_inv_def uv_closing_def runs_basic)
  have first: "runs (if c then redisAsyncHandle (uv_hooks api) b1 (p, True) else Inr (p, True))
      (\<lambda>(p', alive). alive \<and> uv_inv api w p' \<or> uv_closing w p')" for c
    using call [OF assms(1,2)] assms(1) by (simp add: runs_basic)
  have "runs (bindr (if c then redisAsyncHandle (uv_hooks api) b1 (p, True) else Inr (p, True)) (\<lambda>w1. access (fst w1)
        (if uv_context (fst w1) \<noteq> None \<and> d then redisAsyncHandle (uv_hooks api) b2 w1 else Inr w1)))
      (\<lambda>(p', alive). alive \<and> uv_inv api w p' \<or> uv_closing w p')" for c d
    by (rule runs_bindr, rule runs_mono [OF first], rule second)
  then show ?thesis using live by (simp add: redisLibuvPoll_def Let_def)
qed

text \<open>
  The two close callbacks: the first leaves the container, the second frees it, in either order; without a timer
  the callback of the handle frees it.
\<close>

lemma uv_close_frees_once:
  "uv_closing w p \<Longrightarrow> \<not> freed p \<and> w (uv_loop p) = {} \<and>
     (if uv_timer_data p
      then runs (on_timer_close p) (\<lambda>p1. \<not> freed p1 \<and> runs (on_handle_close p1) freed) \<and>
           runs (on_handle_close p) (\<lambda>p1. \<not> freed p1 \<and> runs (on_timer_close p1) freed)
      else runs (on_handle_close p) freed)"
  by (simp add: uv_closing_def on_timer_close_def on_handle_close_def runs_basic)

lemma redisLibuvAttach_ok:
  assumes "ev_data (ac_ev ac) = None" and "uv_laws api w" and "init loop (ac_fd ac) = (l, 0)" and "w l = {}"
  obtains p ac' where "redisLibuvAttach api True init ac loop = (REDIS_OK, ac')" and "ev_data (ac_ev ac') = Some p"
    and "uv_inv api w p"
  using assms that by (auto simp: redisLibuvAttach_def uv_inv_def uv_interests_def Let_def)

text \<open>
  An attachment that fails for want of memory or in libuv has already registered the hooks: the client, which
  looks at the pointers only, then calls them with \<open>NULL\<close>.
\<close>

lemma redisLibuvAttach_failed_hooks:
  assumes "ev_data (ac_ev ac) = None" and "\<not> malloc_ok \<or> snd (init loop (ac_fd ac)) \<noteq> 0"
  obtains ac' where "redisLibuvAttach api malloc_ok init ac loop = (REDIS_ERR, ac')"
    and "el_call AddWrite ac' = Inl NullPointer"
proof (rule that)
  show "redisLibuvAttach api malloc_ok init ac loop = (REDIS_ERR, ac\<lparr>ac_ev := uv_hooks api\<rparr>)"
    using assms by (auto simp: redisLibuvAttach_def Let_def case_prod_beta)
  show "el_call AddWrite (ac\<lparr>ac_ev := uv_hooks api\<rparr>) = Inl NullPointer"
    by (simp add: el_call_def hooks_of_def)
qed

end
