(* ===== verification/AdapterLibevent.thy ===== *)
theory AdapterLibevent
  imports AsyncHooks
begin

unbundle bit_operations_syntax

text \<open>
  The adapter for libevent (\<open>adapters/libevent.h\<close>). A callback of the client may run the cleanup hook while the
  event handler is still on the stack; then the container is only marked, and the handler frees it. The event
  base with the container's event is the field \<open>le_base\<close>; \<open>le_ev\<close> tells whether the pointer \<open>ev\<close> is set. The
  test of the cleanup hook for a null container has no counterpart: a hook is applied to a container.
\<close>

definition REDIS_LIBEVENT_DELETED :: "16 word" where "REDIS_LIBEVENT_DELETED = 1"
definition REDIS_LIBEVENT_ENTERED :: "16 word" where "REDIS_LIBEVENT_ENTERED = 2"
definition EV_TIMEOUT :: "16 word" where "EV_TIMEOUT = 1"
definition EV_READ :: "16 word" where "EV_READ = 2"
definition EV_WRITE :: "16 word" where "EV_WRITE = 4"
definition EV_PERSIST :: "16 word" where "EV_PERSIST = 16"

record 'l redisLibeventEvents = hi_block +
  le_context :: "nat option"
  le_fd :: int
  le_ev :: bool
  le_base :: 'l
  le_tv :: timeval
  le_flags :: "16 word"
  le_state :: "16 word"

record 'l event_api =
  event_new :: "'l \<Rightarrow> int \<Rightarrow> 16 word \<Rightarrow> 'l"
  event_del :: "'l \<Rightarrow> 'l"
  event_assign :: "'l \<Rightarrow> int \<Rightarrow> 16 word \<Rightarrow> 'l"
  event_add :: "'l \<Rightarrow> timeval option \<Rightarrow> 'l"
  event_free :: "'l \<Rightarrow> 'l"

definition redisLibeventDestroy :: "'l redisLibeventEvents \<Rightarrow> 'l redisLibeventEvents result" where
  "redisLibeventDestroy e = hi_free e"

text \<open>One branch of the handler: the call of the client, then \<open>CHECK_DELETED\<close>, which frees and returns.\<close>

definition libevent_branch :: "'l redisLibeventEvents event_hooks \<Rightarrow> bool \<Rightarrow> client_call \<Rightarrow>
    ('l redisLibeventEvents \<times> bool \<Rightarrow> ('l redisLibeventEvents \<times> bool) result) \<Rightarrow>
    'l redisLibeventEvents \<times> bool \<Rightarrow> ('l redisLibeventEvents \<times> bool) result" where
  "libevent_branch t c b rest w =
     access (fst w)
       (if c \<and> le_state (fst w) AND REDIS_LIBEVENT_DELETED = 0
        then bindr (redisAsyncHandle t b w) (\<lambda>(e1, alive). access e1
          (if le_state e1 AND REDIS_LIBEVENT_DELETED \<noteq> 0
           then bindr (redisLibeventDestroy e1) (\<lambda>e2. Inr (e2, alive))
           else rest (e1, alive)))
        else rest w)"

definition redisLibeventHandler :: "'l redisLibeventEvents event_hooks \<Rightarrow> client_call \<Rightarrow> client_call \<Rightarrow> client_call \<Rightarrow>
    16 word \<Rightarrow> 'l redisLibeventEvents \<times> bool \<Rightarrow> ('l redisLibeventEvents \<times> bool) result" where
  "redisLibeventHandler t onTimeout onRead onWrite event = (\<lambda>(e, alive). access e
     (libevent_branch t (event AND EV_TIMEOUT \<noteq> 0) onTimeout
       (\<lambda>w1. libevent_branch t (event AND EV_READ \<noteq> 0 \<and> le_context (fst w1) \<noteq> None) onRead
         (\<lambda>w2. libevent_branch t (event AND EV_WRITE \<noteq> 0 \<and> le_context (fst w2) \<noteq> None) onWrite
           (\<lambda>(e3, alive). access e3 (Inr (e3\<lparr>le_state := le_state e3 AND NOT REDIS_LIBEVENT_ENTERED\<rparr>, alive)))
           w2) w1)
       (e\<lparr>le_state := le_state e OR REDIS_LIBEVENT_ENTERED\<rparr>, alive)))"

definition redisLibeventUpdate :: "'l event_api \<Rightarrow> 16 word \<Rightarrow> bool \<Rightarrow> 'l redisLibeventEvents \<Rightarrow> 'l redisLibeventEvents result" where
  "redisLibeventUpdate api flag isRemove e = access e
     (let tv = (if tv_sec (le_tv e) \<noteq> 0 \<or> tv_usec (le_tv e) \<noteq> 0 then Some (le_tv e) else None);
          apply_event = (\<lambda>e. if \<not> le_ev e then Inl NullPointer
            else let l1 = event_del api (le_base e);
                     l2 = event_assign api l1 (le_fd e) (le_flags e OR EV_PERSIST)
                 in Inr (e\<lparr>le_base := event_add api l2 tv\<rparr>))
      in if isRemove
         then (if le_flags e AND flag = 0 then Inr e
               else apply_event (e\<lparr>le_flags := le_flags e AND NOT flag\<rparr>))
         else (if le_flags e AND flag \<noteq> 0 then Inr e
               else apply_event (e\<lparr>le_flags := le_flags e OR flag\<rparr>)))"

definition redisLibeventAddRead :: "'l event_api \<Rightarrow> 'l redisLibeventEvents \<Rightarrow> 'l redisLibeventEvents result" where
  "redisLibeventAddRead api = redisLibeventUpdate api EV_READ False"

definition redisLibeventDelRead :: "'l event_api \<Rightarrow> 'l redisLibeventEvents \<Rightarrow> 'l redisLibeventEvents result" where
  "redisLibeventDelRead api = redisLibeventUpdate api EV_READ True"

definition redisLibeventAddWrite :: "'l event_api \<Rightarrow> 'l redisLibeventEvents \<Rightarrow> 'l redisLibeventEvents result" where
  "redisLibeventAddWrite api = redisLibeventUpdate api EV_WRITE False"

definition redisLibeventDelWrite :: "'l event_api \<Rightarrow> 'l redisLibeventEvents \<Rightarrow> 'l redisLibeventEvents result" where
  "redisLibeventDelWrite api = redisLibeventUpdate api EV_WRITE True"

definition redisLibeventCleanup :: "'l event_api \<Rightarrow> 'l redisLibeventEvents \<Rightarrow> 'l redisLibeventEvents result" where
  "redisLibeventCleanup api e = access e
     (if \<not> le_ev e then Inl NullPointer
      else let e1 = e\<lparr>le_base := event_free api (event_del api (le_base e)), le_ev := False\<rparr>
           in if le_state e1 AND REDIS_LIBEVENT_ENTERED \<noteq> 0
              then Inr (e1\<lparr>le_state := le_state e1 OR REDIS_LIBEVENT_DELETED\<rparr>)
              else redisLibeventDestroy e1)"

definition redisLibeventSetTimeout :: "'l event_api \<Rightarrow> 'l redisLibeventEvents \<Rightarrow> timeval \<Rightarrow> 'l redisLibeventEvents result" where
  "redisLibeventSetTimeout api e tv = access e
     (let flags = le_flags e in redisLibeventUpdate api flags False (e\<lparr>le_flags := 0, le_tv := tv\<rparr>))"

definition redisLibeventAttach :: "'l event_api \<Rightarrow> bool \<Rightarrow> 'l redisLibeventEvents redisAsyncContext \<Rightarrow> 'l \<Rightarrow>
    int \<times> 'l redisLibeventEvents redisAsyncContext" where
  "redisLibeventAttach api calloc_ok ac base =
     (if ev_data (ac_ev ac) \<noteq> None then (REDIS_ERR, ac)
      else if \<not> calloc_ok then (REDIS_ERR, ac)
      else let e = \<lparr>freed = False, le_context = Some (ac_id ac), le_fd = ac_fd ac, le_ev = True,
                    le_base = event_new api base (ac_fd ac) (EV_READ OR EV_WRITE), le_tv = \<lparr>tv_sec = 0, tv_usec = 0\<rparr>,
                    le_flags = 0, le_state = 0\<rparr>
           in (REDIS_OK, ac\<lparr>ac_ev := (hooks_of (redisLibeventAddRead api) (redisLibeventDelRead api)
                 (redisLibeventAddWrite api) (redisLibeventDelWrite api) (redisLibeventCleanup api)
                 (Some (redisLibeventSetTimeout api)))\<lparr>ev_data := Some e\<rparr>\<rparr>))"

section \<open>The contract\<close>

definition le_interests :: "16 word \<Rightarrow> interest set" where
  "le_interests m = (if m AND EV_READ \<noteq> 0 then {Readable} else {}) \<union> (if m AND EV_WRITE \<noteq> 0 then {Writable} else {})"

text \<open>
  libevent: \<open>assigned\<close> is the mask the event was last assigned; an added event is watched for the interests in its
  mask, a deleted, freed or only assigned one for none.
\<close>

definition event_laws :: "'l event_api \<Rightarrow> ('l \<Rightarrow> interest set) \<Rightarrow> ('l \<Rightarrow> 16 word) \<Rightarrow> bool" where
  "event_laws api w assigned \<longleftrightarrow>
     (\<forall>l fd m. w (event_new api l fd m) = {}) \<and> (\<forall>l. w (event_del api l) = {}) \<and> (\<forall>l. w (event_free api l) = {}) \<and>
     (\<forall>l fd m. assigned (event_assign api l fd m) = m) \<and>
     (\<forall>l tv. w (event_add api l tv) = le_interests (assigned l))"

text \<open>The invariant outside (\<open>entered\<close> false) and inside the handler, and what the cleanup leaves in each case.\<close>

definition le_inv :: "bool \<Rightarrow> 'l event_api \<Rightarrow> ('l \<Rightarrow> interest set) \<Rightarrow> ('l \<Rightarrow> 16 word) \<Rightarrow> 'l redisLibeventEvents \<Rightarrow> bool" where
  "le_inv entered api w assigned e \<longleftrightarrow> event_laws api w assigned \<and> \<not> freed e \<and> le_context e \<noteq> None \<and> le_ev e \<and>
     le_state e = (if entered then REDIS_LIBEVENT_ENTERED else 0) \<and>
     le_flags e \<in> {0, EV_READ, EV_WRITE, EV_READ OR EV_WRITE} \<and> w (le_base e) = le_interests (le_flags e)"

definition le_released :: "bool \<Rightarrow> ('l \<Rightarrow> interest set) \<Rightarrow> 'l redisLibeventEvents \<Rightarrow> bool" where
  "le_released entered w e \<longleftrightarrow> w (le_base e) = {} \<and>
     (if entered then \<not> freed e \<and> le_state e = REDIS_LIBEVENT_ENTERED OR REDIS_LIBEVENT_DELETED else freed e)"

lemmas le_consts = REDIS_LIBEVENT_DELETED_def REDIS_LIBEVENT_ENTERED_def EV_TIMEOUT_def EV_READ_def EV_WRITE_def
  EV_PERSIST_def

lemmas le_ops = redisLibeventAddRead_def redisLibeventDelRead_def redisLibeventAddWrite_def redisLibeventDelWrite_def
  redisLibeventCleanup_def redisLibeventSetTimeout_def redisLibeventUpdate_def redisLibeventDestroy_def

lemmas le_defs = le_ops le_inv_def event_laws_def le_interests_def le_consts

lemma le_interests_persist: "le_interests (m OR EV_PERSIST) = le_interests m"
  by (simp add: le_interests_def le_consts bit.conj_disj_distrib2)

text \<open>An update leaves the flags as asked and the event watched accordingly.\<close>

lemma redisLibeventUpdate_ok:
  assumes "le_inv entered api w assigned e" and "flag \<in> {EV_READ, EV_WRITE}"
    and "m = (if isRemove then le_flags e AND NOT flag else le_flags e OR flag)"
  obtains l where "redisLibeventUpdate api flag isRemove e = Inr (e\<lparr>le_flags := m, le_base := l\<rparr>)"
    and "w l = le_interests m"
proof (cases "m = le_flags e")
  case True
  then have "redisLibeventUpdate api flag isRemove e = Inr e"
    using assms by (auto simp: redisLibeventUpdate_def le_inv_def le_consts)
  then show thesis using that [of "le_base e"] True assms(1) by (simp add: le_inv_def)
next
  case False
  then have "redisLibeventUpdate api flag isRemove e = Inr (e\<lparr>le_flags := m, le_base := event_add api
      (event_assign api (event_del api (le_base e)) (le_fd e) (m OR EV_PERSIST))
      (if tv_sec (le_tv e) \<noteq> 0 \<or> tv_usec (le_tv e) \<noteq> 0 then Some (le_tv e) else None)\<rparr>)"
    using assms by (auto simp: redisLibeventUpdate_def le_inv_def le_consts Let_def)
  then show thesis
    using that assms(1) by (simp add: le_inv_def event_laws_def le_interests_persist)
qed

lemma le_inv_update:
  "le_inv entered api w assigned e \<Longrightarrow> m \<in> {0, EV_READ, EV_WRITE, EV_READ OR EV_WRITE} \<Longrightarrow> w l = le_interests m \<Longrightarrow>
     le_inv entered api w assigned (e\<lparr>le_flags := m, le_base := l\<rparr>)"
  by (simp add: le_inv_def)

lemma le_interests_values:
  "le_interests 0 = {}" "le_interests EV_READ = {Readable}" "le_interests EV_WRITE = {Writable}"
  "le_interests (EV_READ OR EV_WRITE) = {Readable, Writable}"
  by (auto simp: le_interests_def le_consts)

lemma le_flag_values:
  "0 AND NOT EV_READ = 0" "EV_READ AND NOT EV_READ = 0" "EV_WRITE AND NOT EV_READ = EV_WRITE"
  "(EV_READ OR EV_WRITE) AND NOT EV_READ = EV_WRITE"
  "0 AND NOT EV_WRITE = 0" "EV_READ AND NOT EV_WRITE = EV_READ" "EV_WRITE AND NOT EV_WRITE = 0"
  "(EV_READ OR EV_WRITE) AND NOT EV_WRITE = EV_READ"
  "0 OR EV_READ = EV_READ" "EV_READ OR EV_READ = EV_READ" "EV_WRITE OR EV_READ = EV_READ OR EV_WRITE"
  "(EV_READ OR EV_WRITE) OR EV_READ = EV_READ OR EV_WRITE"
  "0 OR EV_WRITE = EV_WRITE" "EV_WRITE OR EV_WRITE = EV_WRITE"
  "(EV_READ OR EV_WRITE) OR EV_WRITE = EV_READ OR EV_WRITE"
  by (simp_all add: le_consts)

lemma le_interests_ops:
  assumes "m \<in> {0, EV_READ, EV_WRITE, EV_READ OR EV_WRITE}" and "f \<in> {EV_READ, EV_WRITE}"
  shows "le_interests (m AND NOT f) = le_interests m - le_interests f \<and>
    le_interests (m OR f) = le_interests m \<union> le_interests f \<and>
    m AND NOT f \<in> {0, EV_READ, EV_WRITE, EV_READ OR EV_WRITE} \<and>
    m OR f \<in> {0, EV_READ, EV_WRITE, EV_READ OR EV_WRITE}"
proof -
  have "m = 0 \<or> m = EV_READ \<or> m = EV_WRITE \<or> m = EV_READ OR EV_WRITE" "f = EV_READ \<or> f = EV_WRITE"
    using assms by auto
  then show ?thesis
    by (elim disjE; simp only: le_flag_values le_interests_values; auto)
qed

lemma redisLibeventUpdate_runs:
  assumes "le_inv entered api w assigned e" and "flag \<in> {EV_READ, EV_WRITE}"
    and "W = (if isRemove then w (le_base e) - le_interests flag else w (le_base e) \<union> le_interests flag)"
  shows "runs (redisLibeventUpdate api flag isRemove e) (\<lambda>e'. le_inv entered api w assigned e' \<and> w (le_base e') = W)"
proof -
  let ?m = "if isRemove then le_flags e AND NOT flag else le_flags e OR flag"
  have flags: "le_flags e \<in> {0, EV_READ, EV_WRITE, EV_READ OR EV_WRITE}" and
    now: "w (le_base e) = le_interests (le_flags e)" using assms(1) by (simp_all add: le_inv_def)
  have m: "?m \<in> {0, EV_READ, EV_WRITE, EV_READ OR EV_WRITE}"
    using le_interests_ops [OF flags assms(2)] by (simp split: if_split)
  have W: "le_interests ?m = W"
    using le_interests_ops [OF flags assms(2)] by (simp add: assms(3) now)
  obtain l where "redisLibeventUpdate api flag isRemove e = Inr (e\<lparr>le_flags := ?m, le_base := l\<rparr>)"
    and l: "w l = le_interests ?m"
    using redisLibeventUpdate_ok [OF assms(1,2) refl, of isRemove] by blast
  then show ?thesis using le_inv_update [OF assms(1) m l] W l by (simp add: runs_def)
qed

interpretation le: releasing_adapter "redisLibeventAddRead api" "redisLibeventDelRead api" "redisLibeventAddWrite api"
    "redisLibeventDelWrite api" "redisLibeventCleanup api" "Some (redisLibeventSetTimeout api)" "le_inv entered api w assigned"
    "\<lambda>e. w (le_base e)" "le_released entered w"
  for entered and api :: "'l event_api" and w assigned
proof (unfold_locales, goal_cases)
  case (1 e)
  show ?case unfolding redisLibeventAddRead_def
    by (rule redisLibeventUpdate_runs [OF 1]) (simp_all add: le_interests_values)
next
  case (2 e)
  show ?case unfolding redisLibeventDelRead_def
    by (rule redisLibeventUpdate_runs [OF 2]) (simp_all add: le_interests_values)
next
  case (3 e)
  show ?case unfolding redisLibeventAddWrite_def
    by (rule redisLibeventUpdate_runs [OF 3]) (simp_all add: le_interests_values)
next
  case (4 e)
  show ?case unfolding redisLibeventDelWrite_def
    by (rule redisLibeventUpdate_runs [OF 4]) (simp_all add: le_interests_values)
next
  case (5 e f tv)
  have "le_inv entered api w assigned e" and f: "f = redisLibeventSetTimeout api" using 5 by simp_all
  then show ?case
    by (auto simp: f redisLibeventSetTimeout_def redisLibeventUpdate_def le_inv_def event_laws_def
        le_interests_persist runs_def Let_def)
next
  case (6 e)
  have "le_ev e" "\<not> freed e" "le_state e = (if entered then REDIS_LIBEVENT_ENTERED else 0)"
    "w (event_free api l) = {}" for l
    using 6 by (auto simp: le_inv_def event_laws_def)
  then show ?case
    by (simp add: redisLibeventCleanup_def redisLibeventDestroy_def le_released_def le_consts runs_def Let_def)
next
  case (7 e)
  then show ?case by (simp add: le_released_def)
qed

abbreviation "le_hooks api \<equiv> hooks_of (redisLibeventAddRead api) (redisLibeventDelRead api) (redisLibeventAddWrite api)
  (redisLibeventDelWrite api) (redisLibeventCleanup api) (Some (redisLibeventSetTimeout api))"

text \<open>
  A branch of the handler in a live container: either the handler ends with the container freed, or the rest of it
  runs in a live container.
\<close>

lemma libevent_branch_ok:
  assumes "case wd of (e, alive) \<Rightarrow> alive \<and> le_inv True api w assigned e" and "client_call_ok b"
    and rest: "\<And>wd'. case wd' of (e, alive) \<Rightarrow> alive \<and> le_inv True api w assigned e \<Longrightarrow> runs (rest wd') P"
    and gone: "\<And>e alive. le_released False w e \<Longrightarrow> P (e, alive)"
  shows "runs (libevent_branch (le_hooks api) c b rest wd) P"
proof -
  obtain e where wd: "wd = (e, True)" and inv: "le_inv True api w assigned e" using assms(1) by (cases wd) auto
  have live: "\<not> freed e" "le_state e AND REDIS_LIBEVENT_DELETED = 0"
    using inv by (auto simp: le_inv_def le_consts)
  have after: "runs (access e1 (if le_state e1 AND REDIS_LIBEVENT_DELETED \<noteq> 0
        then bindr (redisLibeventDestroy e1) (\<lambda>e2. Inr (e2, alive)) else rest (e1, alive))) P"
    if "if Cleanup \<in> set (cb_hooks b) then le_released True w e1
        else alive \<and> le_inv True api w assigned e1 \<and> w (le_base e1) = foldl requested (w (le_base e)) (cb_hooks b)"
    for e1 alive
  proof (cases "Cleanup \<in> set (cb_hooks b)")
    case True
    then have "le_released True w e1" using that by simp
    then have "\<not> freed e1" "le_state e1 AND REDIS_LIBEVENT_DELETED \<noteq> 0" "le_released False w (e1\<lparr>freed := True\<rparr>)"
      by (auto simp: le_released_def le_consts)
    then show ?thesis using gone by (simp add: redisLibeventDestroy_def runs_basic)
  next
    case False
    then have "alive" "le_inv True api w assigned e1" using that by auto
    moreover from this have "\<not> freed e1" "le_state e1 AND REDIS_LIBEVENT_DELETED = 0"
      by (auto simp: le_inv_def le_consts)
    ultimately show ?thesis using rest by simp
  qed
  have "runs (bindr (redisAsyncHandle (le_hooks api) b (e, True)) (\<lambda>(e1, alive). access e1
      (if le_state e1 AND REDIS_LIBEVENT_DELETED \<noteq> 0
       then bindr (redisLibeventDestroy e1) (\<lambda>e2. Inr (e2, alive)) else rest (e1, alive)))) P"
  proof (rule runs_bindr, rule runs_mono [OF le.client_call [OF inv assms(2)]], clarify)
    fix e1 alive
    assume "if Cleanup \<in> set (cb_hooks b) then le_released True w e1
      else (\<not> cb_frees b) \<and> le_inv True api w assigned e1 \<and> w (le_base e1) = foldl requested (w (le_base e)) (cb_hooks b)"
    then show "runs (access e1 (if le_state e1 AND REDIS_LIBEVENT_DELETED \<noteq> 0
        then bindr (redisLibeventDestroy e1) (\<lambda>e2. Inr (e2, \<not> cb_frees b)) else rest (e1, \<not> cb_frees b))) P"
      by (rule after)
  qed
  then show ?thesis
    using live rest [of wd] assms(1) wd by (simp add: libevent_branch_def)
qed

lemma redisLibeventHandler_ok:
  assumes "le_inv False api w assigned e" and "client_call_ok bT" and "client_call_ok bR" and "client_call_ok bW"
  shows "runs (redisLibeventHandler (le_hooks api) bT bR bW event (e, True))
    (\<lambda>(e', alive). alive \<and> le_inv False api w assigned e' \<or> le_released False w e')"
proof -
  have "le_inv True api w assigned (e\<lparr>le_state := le_state e OR REDIS_LIBEVENT_ENTERED\<rparr>)" and "\<not> freed e"
    using assms(1) by (auto simp: le_inv_def)
  moreover have "\<not> freed e3 \<and> le_inv False api w assigned (e3\<lparr>le_state := le_state e3 AND NOT REDIS_LIBEVENT_ENTERED\<rparr>)"
    if "le_inv True api w assigned e3" for e3
    using that by (auto simp: le_inv_def)
  ultimately show ?thesis
    unfolding redisLibeventHandler_def
    by (auto intro!: libevent_branch_ok assms(2-4) simp: runs_basic)
qed

lemma redisLibeventAttach_ok:
  assumes "ev_data (ac_ev ac) = None" and "event_laws api w assigned"
  obtains e ac' where "redisLibeventAttach api True ac base = (REDIS_OK, ac')" and "ev_data (ac_ev ac') = Some e"
    and "le_inv False api w assigned e" and "w (le_base e) = {}"
  using assms that by (auto simp: redisLibeventAttach_def le_inv_def event_laws_def le_interests_values Let_def)

end
