(* ===== verification/AdapterSdevent.thy ===== *)
theory AdapterSdevent
  imports AsyncHooks
begin

unbundle bit_operations_syntax

text \<open>
  The adapter for systemd's event loop (\<open>adapters/libsdevent.h\<close>). Like the adapter for libevent it defers the
  release of the container to the end of the handler; besides it holds a reference to the loop and up to two event
  sources, whose pointers are \<open>sd_fdSource\<close> and \<open>sd_timerSource\<close> (false is \<open>NULL\<close>). The loop with the sources of
  the container is the field \<open>sd_loop\<close>; a function that creates a source also tells whether it succeeded, and
  \<open>sd_event_source_disable_unref\<close> is one argument per source. The cleanup hook's test for a null container has no
  counterpart: a hook is applied to a container.
\<close>

definition REDIS_LIBSDEVENT_DELETED :: "16 word" where "REDIS_LIBSDEVENT_DELETED = 1"
definition REDIS_LIBSDEVENT_ENTERED :: "16 word" where "REDIS_LIBSDEVENT_ENTERED = 2"
definition EPOLLIN :: "'a::len word" where "EPOLLIN = 1"
definition EPOLLOUT :: "'a::len word" where "EPOLLOUT = 4"

record 'l redisLibsdeventEvents = hi_block +
  sd_context :: "nat option"
  sd_loop :: 'l
  sd_fdSource :: bool
  sd_timerSource :: bool
  sd_fd :: int
  sd_flags :: "16 word"
  sd_state :: "16 word"

record 'l sd_api =
  sd_event_ref :: "'l \<Rightarrow> 'l"
  sd_event_unref :: "'l \<Rightarrow> 'l"
  sd_event_add_io :: "'l \<Rightarrow> int \<Rightarrow> 16 word \<Rightarrow> 'l \<times> bool"
  sd_event_source_set_io_events :: "'l \<Rightarrow> 16 word \<Rightarrow> 'l"
  sd_disable_unref_fd :: "'l \<Rightarrow> 'l"
  sd_event_add_time_relative :: "'l \<Rightarrow> UINT64 \<Rightarrow> 'l \<times> bool"
  sd_event_source_set_time_relative :: "'l \<Rightarrow> UINT64 \<Rightarrow> 'l"
  sd_disable_unref_timer :: "'l \<Rightarrow> 'l"

definition redisLibsdeventDestroy :: "'l sd_api \<Rightarrow> 'l redisLibsdeventEvents \<Rightarrow> 'l redisLibsdeventEvents result" where
  "redisLibsdeventDestroy api e = access e
     (let e1 = (if sd_fdSource e then e\<lparr>sd_loop := sd_disable_unref_fd api (sd_loop e), sd_fdSource := False\<rparr> else e);
          e2 = (if sd_timerSource e1 then e1\<lparr>sd_loop := sd_disable_unref_timer api (sd_loop e1), sd_timerSource := False\<rparr>
                else e1)
      in hi_free (e2\<lparr>sd_loop := sd_event_unref api (sd_loop e2)\<rparr>))"

definition redisLibsdeventTimeoutHandler :: "'l redisLibsdeventEvents event_hooks \<Rightarrow> client_call \<Rightarrow>
    'l redisLibsdeventEvents \<times> bool \<Rightarrow> ('l redisLibsdeventEvents \<times> bool) result" where
  "redisLibsdeventTimeoutHandler t b w = access (fst w) (redisAsyncHandle t b w)"

text \<open>One branch of the handler: the call of the client, then \<open>CHECK_DELETED\<close>, which destroys and returns.\<close>

definition libsdevent_branch :: "'l sd_api \<Rightarrow> 'l redisLibsdeventEvents event_hooks \<Rightarrow> bool \<Rightarrow> client_call \<Rightarrow>
    ('l redisLibsdeventEvents \<times> bool \<Rightarrow> ('l redisLibsdeventEvents \<times> bool) result) \<Rightarrow>
    'l redisLibsdeventEvents \<times> bool \<Rightarrow> ('l redisLibsdeventEvents \<times> bool) result" where
  "libsdevent_branch api t c b rest w =
     access (fst w)
       (if c \<and> sd_context (fst w) \<noteq> None \<and> sd_state (fst w) AND REDIS_LIBSDEVENT_DELETED = 0
        then bindr (redisAsyncHandle t b w) (\<lambda>(e1, alive). access e1
          (if sd_state e1 AND REDIS_LIBSDEVENT_DELETED \<noteq> 0
           then bindr (redisLibsdeventDestroy api e1) (\<lambda>e2. Inr (e2, alive))
           else rest (e1, alive)))
        else rest w)"

definition redisLibsdeventHandler :: "'l sd_api \<Rightarrow> 'l redisLibsdeventEvents event_hooks \<Rightarrow> client_call \<Rightarrow> client_call \<Rightarrow>
    32 word \<Rightarrow> 'l redisLibsdeventEvents \<times> bool \<Rightarrow> ('l redisLibsdeventEvents \<times> bool) result" where
  "redisLibsdeventHandler api t onRead onWrite event = (\<lambda>(e, alive). access e
     (libsdevent_branch api t (event AND EPOLLIN \<noteq> 0) onRead
       (libsdevent_branch api t (event AND EPOLLOUT \<noteq> 0) onWrite
         (\<lambda>(e3, alive). access e3 (Inr (e3\<lparr>sd_state := sd_state e3 AND NOT REDIS_LIBSDEVENT_ENTERED\<rparr>, alive))))
       (e\<lparr>sd_state := sd_state e OR REDIS_LIBSDEVENT_ENTERED\<rparr>, alive)))"

text \<open>The two ways the hooks register the flags: \<open>set_io_events\<close> on the source, or a new source.\<close>

definition sd_set_events :: "'l sd_api \<Rightarrow> 'l redisLibsdeventEvents \<Rightarrow> 'l redisLibsdeventEvents" where
  "sd_set_events api e = e\<lparr>sd_loop := sd_event_source_set_io_events api (sd_loop e) (sd_flags e)\<rparr>"

definition sd_new_source :: "'l sd_api \<Rightarrow> 'l redisLibsdeventEvents \<Rightarrow> 'l redisLibsdeventEvents" where
  "sd_new_source api e =
     (let (l, ok) = sd_event_add_io api (sd_loop e) (sd_fd e) (sd_flags e)
      in e\<lparr>sd_loop := l, sd_fdSource := ok \<or> sd_fdSource e\<rparr>)"

definition redisLibsdeventAddRead :: "'l sd_api \<Rightarrow> 'l redisLibsdeventEvents \<Rightarrow> 'l redisLibsdeventEvents result" where
  "redisLibsdeventAddRead api e = access e
     (if sd_flags e AND EPOLLIN \<noteq> 0 then Inr e
      else let e1 = e\<lparr>sd_flags := sd_flags e OR EPOLLIN\<rparr>
           in if sd_flags e1 AND EPOLLOUT \<noteq> 0 then Inr (sd_set_events api e1) else Inr (sd_new_source api e1))"

definition redisLibsdeventDelRead :: "'l sd_api \<Rightarrow> 'l redisLibsdeventEvents \<Rightarrow> 'l redisLibsdeventEvents result" where
  "redisLibsdeventDelRead api e = access e
     (let e1 = e\<lparr>sd_flags := sd_flags e AND NOT EPOLLIN\<rparr>
      in if sd_flags e1 \<noteq> 0 then Inr (sd_set_events api e1)
         else Inr (e1\<lparr>sd_loop := sd_disable_unref_fd api (sd_loop e1), sd_fdSource := False\<rparr>))"

definition redisLibsdeventAddWrite :: "'l sd_api \<Rightarrow> 'l redisLibsdeventEvents \<Rightarrow> 'l redisLibsdeventEvents result" where
  "redisLibsdeventAddWrite api e = access e
     (if sd_flags e AND EPOLLOUT \<noteq> 0 then Inr e
      else let e1 = e\<lparr>sd_flags := sd_flags e OR EPOLLOUT\<rparr>
           in if sd_flags e1 AND EPOLLIN \<noteq> 0 then Inr (sd_set_events api e1) else Inr (sd_new_source api e1))"

definition redisLibsdeventDelWrite :: "'l sd_api \<Rightarrow> 'l redisLibsdeventEvents \<Rightarrow> 'l redisLibsdeventEvents result" where
  "redisLibsdeventDelWrite api e = access e
     (let e1 = e\<lparr>sd_flags := sd_flags e AND NOT EPOLLOUT\<rparr>
      in if sd_flags e1 \<noteq> 0 then Inr (sd_set_events api e1)
         else Inr (e1\<lparr>sd_loop := sd_disable_unref_fd api (sd_loop e1), sd_fdSource := False\<rparr>))"

definition redisLibsdeventCleanup :: "'l sd_api \<Rightarrow> 'l redisLibsdeventEvents \<Rightarrow> 'l redisLibsdeventEvents result" where
  "redisLibsdeventCleanup api e = access e
     (if sd_state e AND REDIS_LIBSDEVENT_ENTERED \<noteq> 0
      then Inr (e\<lparr>sd_state := sd_state e OR REDIS_LIBSDEVENT_DELETED\<rparr>)
      else redisLibsdeventDestroy api e)"

definition redisLibsdeventSetTimeout :: "'l sd_api \<Rightarrow> 'l redisLibsdeventEvents \<Rightarrow> timeval \<Rightarrow> 'l redisLibsdeventEvents result" where
  "redisLibsdeventSetTimeout api e tv = access e
     (let usec = of_int (tv_sec tv * 1000000 + tv_usec tv)
      in if \<not> sd_timerSource e
         then let (l, ok) = sd_event_add_time_relative api (sd_loop e) usec
              in Inr (e\<lparr>sd_loop := l, sd_timerSource := ok\<rparr>)
         else Inr (e\<lparr>sd_loop := sd_event_source_set_time_relative api (sd_loop e) usec\<rparr>))"

definition redisLibsdeventAttach :: "'l sd_api \<Rightarrow> bool \<Rightarrow> 'l redisLibsdeventEvents redisAsyncContext \<Rightarrow> 'l \<Rightarrow>
    int \<times> 'l redisLibsdeventEvents redisAsyncContext" where
  "redisLibsdeventAttach api calloc_ok ac event =
     (if ev_data (ac_ev ac) \<noteq> None then (REDIS_ERR, ac)
      else if \<not> calloc_ok then (REDIS_ERR, ac)
      else let e = \<lparr>freed = False, sd_context = Some (ac_id ac), sd_loop = sd_event_ref api event, sd_fdSource = False,
                    sd_timerSource = False, sd_fd = ac_fd ac, sd_flags = 0, sd_state = 0\<rparr>
           in (REDIS_OK, ac\<lparr>ac_ev := (hooks_of (redisLibsdeventAddRead api) (redisLibsdeventDelRead api)
                 (redisLibsdeventAddWrite api) (redisLibsdeventDelWrite api) (redisLibsdeventCleanup api)
                 (Some (redisLibsdeventSetTimeout api)))\<lparr>ev_data := Some e\<rparr>\<rparr>))"

section \<open>The contract\<close>

definition sd_interests :: "16 word \<Rightarrow> interest set" where
  "sd_interests m = (if m AND EPOLLIN \<noteq> 0 then {Readable} else {}) \<union> (if m AND EPOLLOUT \<noteq> 0 then {Writable} else {})"

text \<open>
  sd-event: a new source and a changed source watch the events given, a disabled one none; \<open>refs\<close> counts the
  references to the loop, \<open>armed\<close> tells whether a timer source of the container exists.
\<close>

definition sd_laws :: "'l sd_api \<Rightarrow> ('l \<Rightarrow> interest set) \<Rightarrow> ('l \<Rightarrow> bool) \<Rightarrow> ('l \<Rightarrow> nat) \<Rightarrow> bool" where
  "sd_laws api w armed refs \<longleftrightarrow>
     (\<forall>l fd m. snd (sd_event_add_io api l fd m) \<and> w (fst (sd_event_add_io api l fd m)) = sd_interests m \<and>
        armed (fst (sd_event_add_io api l fd m)) = armed l \<and> refs (fst (sd_event_add_io api l fd m)) = refs l) \<and>
     (\<forall>l m. w (sd_event_source_set_io_events api l m) = sd_interests m \<and>
        armed (sd_event_source_set_io_events api l m) = armed l \<and> refs (sd_event_source_set_io_events api l m) = refs l) \<and>
     (\<forall>l. w (sd_disable_unref_fd api l) = {} \<and> armed (sd_disable_unref_fd api l) = armed l \<and>
        refs (sd_disable_unref_fd api l) = refs l) \<and>
     (\<forall>l us. snd (sd_event_add_time_relative api l us) \<and> w (fst (sd_event_add_time_relative api l us)) = w l \<and>
        armed (fst (sd_event_add_time_relative api l us)) \<and> refs (fst (sd_event_add_time_relative api l us)) = refs l) \<and>
     (\<forall>l us. w (sd_event_source_set_time_relative api l us) = w l \<and>
        armed (sd_event_source_set_time_relative api l us) = armed l \<and>
        refs (sd_event_source_set_time_relative api l us) = refs l) \<and>
     (\<forall>l. w (sd_disable_unref_timer api l) = w l \<and> \<not> armed (sd_disable_unref_timer api l) \<and>
        refs (sd_disable_unref_timer api l) = refs l) \<and>
     (\<forall>l. w (sd_event_ref api l) = w l \<and> armed (sd_event_ref api l) = armed l \<and> refs (sd_event_ref api l) = refs l + 1) \<and>
     (\<forall>l. w (sd_event_unref api l) = w l \<and> armed (sd_event_unref api l) = armed l \<and> refs (sd_event_unref api l) = refs l - 1)"

text \<open>A container holding one reference above \<open>r\<close>, whose sources agree with its flags; \<open>st\<close> is its state.\<close>

definition sd_holds :: "16 word \<Rightarrow> 'l sd_api \<Rightarrow> ('l \<Rightarrow> interest set) \<Rightarrow> ('l \<Rightarrow> bool) \<Rightarrow> ('l \<Rightarrow> nat) \<Rightarrow> nat \<Rightarrow>
    'l redisLibsdeventEvents \<Rightarrow> bool" where
  "sd_holds st api w armed refs r e \<longleftrightarrow> sd_laws api w armed refs \<and> \<not> freed e \<and> sd_context e \<noteq> None \<and> sd_state e = st \<and>
     sd_flags e \<in> {0, EPOLLIN, EPOLLOUT, EPOLLIN OR EPOLLOUT} \<and> w (sd_loop e) = sd_interests (sd_flags e) \<and>
     (sd_fdSource e \<longleftrightarrow> sd_flags e \<noteq> 0) \<and> (sd_timerSource e \<longleftrightarrow> armed (sd_loop e)) \<and> refs (sd_loop e) = r + 1"

text \<open>A destroyed container: freed, its sources disabled, its reference given back.\<close>

definition sd_gone :: "('l \<Rightarrow> interest set) \<Rightarrow> ('l \<Rightarrow> bool) \<Rightarrow> ('l \<Rightarrow> nat) \<Rightarrow> nat \<Rightarrow> 'l redisLibsdeventEvents \<Rightarrow> bool" where
  "sd_gone w armed refs r e \<longleftrightarrow> freed e \<and> w (sd_loop e) = {} \<and> \<not> armed (sd_loop e) \<and> refs (sd_loop e) = r"

definition sd_inv :: "bool \<Rightarrow> 'l sd_api \<Rightarrow> ('l \<Rightarrow> interest set) \<Rightarrow> ('l \<Rightarrow> bool) \<Rightarrow> ('l \<Rightarrow> nat) \<Rightarrow> nat \<Rightarrow>
    'l redisLibsdeventEvents \<Rightarrow> bool" where
  "sd_inv entered = sd_holds (if entered then REDIS_LIBSDEVENT_ENTERED else 0)"

definition sd_released :: "bool \<Rightarrow> 'l sd_api \<Rightarrow> ('l \<Rightarrow> interest set) \<Rightarrow> ('l \<Rightarrow> bool) \<Rightarrow> ('l \<Rightarrow> nat) \<Rightarrow> nat \<Rightarrow>
    'l redisLibsdeventEvents \<Rightarrow> bool" where
  "sd_released entered api w armed refs r e \<longleftrightarrow>
     (if entered then sd_holds (REDIS_LIBSDEVENT_ENTERED OR REDIS_LIBSDEVENT_DELETED) api w armed refs r e
      else sd_gone w armed refs r e)"

lemma sd_interests_values:
  "sd_interests 0 = {}" "sd_interests EPOLLIN = {Readable}" "sd_interests EPOLLOUT = {Writable}"
  "sd_interests (EPOLLIN OR EPOLLOUT) = {Readable, Writable}"
  by (auto simp: sd_interests_def EPOLLIN_def EPOLLOUT_def)

lemma sd_flag_values:
  "(0 :: 16 word) AND EPOLLIN = 0" "(EPOLLIN :: 16 word) AND EPOLLIN \<noteq> 0" "(EPOLLOUT :: 16 word) AND EPOLLIN = 0"
  "(EPOLLIN OR EPOLLOUT :: 16 word) AND EPOLLIN \<noteq> 0"
  "(0 :: 16 word) AND EPOLLOUT = 0" "(EPOLLIN :: 16 word) AND EPOLLOUT = 0" "(EPOLLOUT :: 16 word) AND EPOLLOUT \<noteq> 0"
  "(EPOLLIN OR EPOLLOUT :: 16 word) AND EPOLLOUT \<noteq> 0"
  "(0 :: 16 word) AND NOT EPOLLIN = 0" "(EPOLLIN :: 16 word) AND NOT EPOLLIN = 0"
  "(EPOLLOUT :: 16 word) AND NOT EPOLLIN = EPOLLOUT" "(EPOLLIN OR EPOLLOUT :: 16 word) AND NOT EPOLLIN = EPOLLOUT"
  "(0 :: 16 word) AND NOT EPOLLOUT = 0" "(EPOLLIN :: 16 word) AND NOT EPOLLOUT = EPOLLIN"
  "(EPOLLOUT :: 16 word) AND NOT EPOLLOUT = 0" "(EPOLLIN OR EPOLLOUT :: 16 word) AND NOT EPOLLOUT = EPOLLIN"
  "(0 :: 16 word) OR EPOLLIN = EPOLLIN" "(EPOLLOUT :: 16 word) OR EPOLLIN = EPOLLIN OR EPOLLOUT"
  "(0 :: 16 word) OR EPOLLOUT = EPOLLOUT" "(EPOLLIN :: 16 word) \<noteq> 0" "(EPOLLOUT :: 16 word) \<noteq> 0"
  "(EPOLLIN OR EPOLLOUT :: 16 word) \<noteq> 0"
  by (simp_all add: EPOLLIN_def EPOLLOUT_def)

lemmas sd_ops = redisLibsdeventAddRead_def redisLibsdeventDelRead_def redisLibsdeventAddWrite_def
  redisLibsdeventDelWrite_def redisLibsdeventCleanup_def redisLibsdeventSetTimeout_def sd_set_events_def sd_new_source_def

text \<open>The functions of the library on the state of a container that follows the laws.\<close>

lemma sd_lawsD:
  assumes "sd_laws api w armed refs"
  shows "snd (sd_event_add_io api l fd m)" "w (fst (sd_event_add_io api l fd m)) = sd_interests m"
    "armed (fst (sd_event_add_io api l fd m)) = armed l" "refs (fst (sd_event_add_io api l fd m)) = refs l"
    "w (sd_event_source_set_io_events api l m) = sd_interests m"
    "armed (sd_event_source_set_io_events api l m) = armed l" "refs (sd_event_source_set_io_events api l m) = refs l"
    "w (sd_disable_unref_fd api l) = {}" "armed (sd_disable_unref_fd api l) = armed l"
    "refs (sd_disable_unref_fd api l) = refs l"
    "snd (sd_event_add_time_relative api l us)" "w (fst (sd_event_add_time_relative api l us)) = w l"
    "armed (fst (sd_event_add_time_relative api l us))" "refs (fst (sd_event_add_time_relative api l us)) = refs l"
    "w (sd_event_source_set_time_relative api l us) = w l"
    "armed (sd_event_source_set_time_relative api l us) = armed l"
    "refs (sd_event_source_set_time_relative api l us) = refs l"
    "w (sd_disable_unref_timer api l) = w l" "\<not> armed (sd_disable_unref_timer api l)"
    "refs (sd_disable_unref_timer api l) = refs l"
    "w (sd_event_unref api l) = w l" "armed (sd_event_unref api l) = armed l" "refs (sd_event_unref api l) = refs l - 1"
    "w (sd_event_ref api l) = w l" "armed (sd_event_ref api l) = armed l" "refs (sd_event_ref api l) = refs l + 1"
  using assms by (simp_all add: sd_laws_def)

lemma sd_flags_cases:
  assumes "sd_holds st api w armed refs r e"
  obtains "sd_flags e = 0" | "sd_flags e = EPOLLIN" | "sd_flags e = EPOLLOUT" | "sd_flags e = EPOLLIN OR EPOLLOUT"
  using assms by (auto simp: sd_holds_def)

lemma redisLibsdeventDestroy_ok:
  assumes "sd_holds st api w armed refs r e"
  shows "runs (redisLibsdeventDestroy api e) (sd_gone w armed refs r)"
proof -
  have laws: "sd_laws api w armed refs" using assms by (simp add: sd_holds_def)
  show ?thesis
    using assms by (cases "sd_flags e = 0")
      (simp_all add: sd_holds_def redisLibsdeventDestroy_def sd_gone_def runs_def Let_def sd_lawsD [OF laws] sd_interests_values)
qed

text \<open>Each hook on the container keeps it consistent, in any state that is not marked as deleted.\<close>

lemma sd_hooks_run:
  assumes "sd_holds st api w armed refs r e"
  shows "runs (redisLibsdeventAddRead api e)
      (\<lambda>e'. sd_holds st api w armed refs r e' \<and> w (sd_loop e') = insert Readable (w (sd_loop e)))"
    and "runs (redisLibsdeventDelRead api e)
      (\<lambda>e'. sd_holds st api w armed refs r e' \<and> w (sd_loop e') = w (sd_loop e) - {Readable})"
    and "runs (redisLibsdeventAddWrite api e)
      (\<lambda>e'. sd_holds st api w armed refs r e' \<and> w (sd_loop e') = insert Writable (w (sd_loop e)))"
    and "runs (redisLibsdeventDelWrite api e)
      (\<lambda>e'. sd_holds st api w armed refs r e' \<and> w (sd_loop e') = w (sd_loop e) - {Writable})"
    and "runs (redisLibsdeventSetTimeout api e tv)
      (\<lambda>e'. sd_holds st api w armed refs r e' \<and> w (sd_loop e') = w (sd_loop e))"
proof -
  have laws: "sd_laws api w armed refs" using assms by (simp add: sd_holds_def)
  note simps = sd_holds_def sd_ops sd_lawsD [OF laws] runs_def Let_def case_prod_beta
  have sets: "{Readable, Writable} - {Writable} = {Readable}" "{Readable, Writable} - {Readable} = {Writable}" by auto
  note vals = sd_flag_values sd_interests_values insert_commute sets
  show "runs (redisLibsdeventAddRead api e)
      (\<lambda>e'. sd_holds st api w armed refs r e' \<and> w (sd_loop e') = insert Readable (w (sd_loop e)))"
    using assms by (cases rule: sd_flags_cases [OF assms]) (simp_all add: simps vals)
  show "runs (redisLibsdeventDelRead api e)
      (\<lambda>e'. sd_holds st api w armed refs r e' \<and> w (sd_loop e') = w (sd_loop e) - {Readable})"
    using assms by (cases rule: sd_flags_cases [OF assms]) (simp_all add: simps vals)
  show "runs (redisLibsdeventAddWrite api e)
      (\<lambda>e'. sd_holds st api w armed refs r e' \<and> w (sd_loop e') = insert Writable (w (sd_loop e)))"
    using assms by (cases rule: sd_flags_cases [OF assms]) (simp_all add: simps vals)
  show "runs (redisLibsdeventDelWrite api e)
      (\<lambda>e'. sd_holds st api w armed refs r e' \<and> w (sd_loop e') = w (sd_loop e) - {Writable})"
    using assms by (cases rule: sd_flags_cases [OF assms]) (simp_all add: simps vals)
  show "runs (redisLibsdeventSetTimeout api e tv)
      (\<lambda>e'. sd_holds st api w armed refs r e' \<and> w (sd_loop e') = w (sd_loop e))"
    using assms by (simp add: simps)
qed

interpretation sd: redis_adapter "redisLibsdeventAddRead api" "redisLibsdeventDelRead api" "redisLibsdeventAddWrite api"
    "redisLibsdeventDelWrite api" "redisLibsdeventCleanup api" "Some (redisLibsdeventSetTimeout api)"
    "sd_inv entered api w armed refs r" "\<lambda>e. w (sd_loop e)" "sd_released entered api w armed refs r"
  for entered and api :: "'l sd_api" and w armed refs r
proof (unfold_locales, goal_cases)
  case (5 e f tv)
  then show ?case using sd_hooks_run(5) by (auto simp: sd_inv_def)
next
  case (6 e)
  have inv: "sd_holds (if entered then REDIS_LIBSDEVENT_ENTERED else 0) api w armed refs r e"
    using 6 by (simp add: sd_inv_def)
  show ?case
  proof (cases entered)
    case True
    then show ?thesis
      using inv by (simp add: redisLibsdeventCleanup_def sd_holds_def sd_released_def runs_def
          REDIS_LIBSDEVENT_ENTERED_def REDIS_LIBSDEVENT_DELETED_def)
  next
    case False
    then show ?thesis
      using inv redisLibsdeventDestroy_ok [OF inv]
      by (simp add: redisLibsdeventCleanup_def sd_holds_def sd_released_def runs_def)
  qed
qed (simp_all add: sd_inv_def sd_hooks_run)

abbreviation "sd_hooks api \<equiv> hooks_of (redisLibsdeventAddRead api) (redisLibsdeventDelRead api)
  (redisLibsdeventAddWrite api) (redisLibsdeventDelWrite api) (redisLibsdeventCleanup api) (Some (redisLibsdeventSetTimeout api))"

text \<open>Outside the handler the cleanup takes effect at once.\<close>

interpretation sd_outside: releasing_adapter "redisLibsdeventAddRead api" "redisLibsdeventDelRead api"
    "redisLibsdeventAddWrite api" "redisLibsdeventDelWrite api" "redisLibsdeventCleanup api" "Some (redisLibsdeventSetTimeout api)"
    "sd_inv False api w armed refs r" "\<lambda>e. w (sd_loop e)" "sd_released False api w armed refs r"
  for api :: "'l sd_api" and w armed refs r
  by unfold_locales (simp add: sd_released_def sd_gone_def)

text \<open>Inside, the marked container is as it was; the handler destroys it.\<close>

lemma sd_released_destroyed:
  "sd_released True api w armed refs r e \<Longrightarrow> runs (redisLibsdeventDestroy api e) (sd_gone w armed refs r)"
  using redisLibsdeventDestroy_ok by (simp add: sd_released_def)

lemma sd_inside:
  "\<forall>e hs. sd_inv True api w armed refs r e \<and> Cleanup \<notin> set hs \<longrightarrow>
     runs (run_hooks (sd_hooks api) hs e)
       (\<lambda>e'. sd_inv True api w armed refs r e' \<and> w (sd_loop e') = foldl requested (w (sd_loop e)) hs) \<and>
     runs (run_hooks (sd_hooks api) (hs @ [Cleanup]) e) (\<lambda>e'. \<not> freed e' \<and>
       runs (redisLibsdeventDestroy api e')
         (\<lambda>e2. freed e2 \<and> w (sd_loop e2) = {} \<and> \<not> armed (sd_loop e2) \<and> refs (sd_loop e2) = r))"
proof (intro allI impI)
  fix e hs
  assume "sd_inv True api w armed refs r e \<and> Cleanup \<notin> set hs"
  then have i: "sd_inv True api w armed refs r e" "Cleanup \<notin> set hs" by simp_all
  let ?gone = "\<lambda>e2. freed e2 \<and> w (sd_loop e2) = {} \<and> \<not> armed (sd_loop e2) \<and> refs (sd_loop e2) = r"
  have key: "\<not> freed e' \<and> runs (redisLibsdeventDestroy api e') ?gone" if "sd_released True api w armed refs r e'" for e'
  proof -
    have "\<not> freed e'" using that by (simp add: sd_released_def sd_holds_def)
    moreover have "runs (redisLibsdeventDestroy api e') ?gone"
      by (rule runs_mono [OF sd_released_destroyed [OF that]]) (simp add: sd_gone_def)
    ultimately show ?thesis by blast
  qed
  have "runs (run_hooks (sd_hooks api) (hs @ [Cleanup]) e) (\<lambda>e'. \<not> freed e' \<and> runs (redisLibsdeventDestroy api e') ?gone)"
    by (rule runs_mono [OF sd.life [OF i]]) (rule key)
  then show "runs (run_hooks (sd_hooks api) hs e)
       (\<lambda>e'. sd_inv True api w armed refs r e' \<and> w (sd_loop e') = foldl requested (w (sd_loop e)) hs) \<and>
     runs (run_hooks (sd_hooks api) (hs @ [Cleanup]) e) (\<lambda>e'. \<not> freed e' \<and> runs (redisLibsdeventDestroy api e') ?gone)"
    using sd.hooks_ok [OF i] by blast
qed

lemma libsdevent_branch_ok:
  assumes "case wd of (e, alive) \<Rightarrow> alive \<and> sd_inv True api w armed refs r e" and "client_call_ok b"
    and rest: "\<And>wd'. case wd' of (e, alive) \<Rightarrow> alive \<and> sd_inv True api w armed refs r e \<Longrightarrow> runs (rest wd') P"
    and gone: "\<And>e alive. sd_gone w armed refs r e \<Longrightarrow> P (e, alive)"
  shows "runs (libsdevent_branch api (sd_hooks api) c b rest wd) P"
proof -
  obtain e where wd: "wd = (e, True)" and inv: "sd_inv True api w armed refs r e" using assms(1) by (cases wd) auto
  have live: "\<not> freed e" "sd_state e AND REDIS_LIBSDEVENT_DELETED = 0"
    using inv by (auto simp: sd_inv_def sd_holds_def REDIS_LIBSDEVENT_DELETED_def REDIS_LIBSDEVENT_ENTERED_def)
  have after: "runs (access e1 (if sd_state e1 AND REDIS_LIBSDEVENT_DELETED \<noteq> 0
        then bindr (redisLibsdeventDestroy api e1) (\<lambda>e2. Inr (e2, alive)) else rest (e1, alive))) P"
    if after_call: "alive = (\<not> cb_frees b) \<and> (if Cleanup \<in> set (cb_hooks b) then sd_released True api w armed refs r e1
        else alive \<and> sd_inv True api w armed refs r e1 \<and> w (sd_loop e1) = foldl requested (w (sd_loop e)) (cb_hooks b))"
    for e1 alive
  proof (cases "Cleanup \<in> set (cb_hooks b)")
    case True
    then have holds: "sd_holds (REDIS_LIBSDEVENT_ENTERED OR REDIS_LIBSDEVENT_DELETED) api w armed refs r e1"
      using after_call by (simp add: sd_released_def)
    then have "\<not> freed e1" "sd_state e1 AND REDIS_LIBSDEVENT_DELETED \<noteq> 0"
      by (auto simp: sd_holds_def REDIS_LIBSDEVENT_DELETED_def REDIS_LIBSDEVENT_ENTERED_def)
    moreover have "runs (bindr (redisLibsdeventDestroy api e1) (\<lambda>e2. Inr (e2, alive))) P"
      by (rule runs_bindr, rule runs_mono [OF redisLibsdeventDestroy_ok [OF holds]]) (simp add: runs_basic gone)
    ultimately show ?thesis by simp
  next
    case False
    then have "alive" "sd_inv True api w armed refs r e1" using after_call by auto
    moreover from this have "\<not> freed e1" "sd_state e1 AND REDIS_LIBSDEVENT_DELETED = 0"
      by (auto simp: sd_inv_def sd_holds_def REDIS_LIBSDEVENT_DELETED_def REDIS_LIBSDEVENT_ENTERED_def)
    ultimately show ?thesis using rest by simp
  qed
  have "runs (bindr (redisAsyncHandle (sd_hooks api) b (e, True)) (\<lambda>(e1, alive). access e1
      (if sd_state e1 AND REDIS_LIBSDEVENT_DELETED \<noteq> 0
       then bindr (redisLibsdeventDestroy api e1) (\<lambda>e2. Inr (e2, alive)) else rest (e1, alive)))) P"
    by (rule runs_bindr, rule runs_mono [OF sd.client_call [OF inv assms(2)]], clarify) (rule after, simp)
  then show ?thesis
    using live rest [of wd] assms(1) wd by (simp add: libsdevent_branch_def)
qed

text \<open>
  The handler: it ends with a consistent container outside the handler, or with the container destroyed, its
  sources disabled and its reference given back.
\<close>

lemma redisLibsdeventHandler_ok:
  assumes "sd_inv False api w armed refs r e" and "client_call_ok bR" and "client_call_ok bW"
  shows "runs (redisLibsdeventHandler api (sd_hooks api) bR bW event (e, True))
    (\<lambda>(e', alive). alive \<and> sd_inv False api w armed refs r e' \<or> sd_gone w armed refs r e')"
proof -
  have "sd_inv True api w armed refs r (e\<lparr>sd_state := sd_state e OR REDIS_LIBSDEVENT_ENTERED\<rparr>)" and "\<not> freed e"
    using assms(1) by (auto simp: sd_inv_def sd_holds_def)
  moreover have "\<not> freed e3 \<and> sd_inv False api w armed refs r (e3\<lparr>sd_state := sd_state e3 AND NOT REDIS_LIBSDEVENT_ENTERED\<rparr>)"
    if "sd_inv True api w armed refs r e3" for e3
    using that by (auto simp: sd_inv_def sd_holds_def)
  ultimately show ?thesis
    unfolding redisLibsdeventHandler_def
    by (auto intro!: libsdevent_branch_ok assms(2,3) simp: runs_basic)
qed

lemma redisLibsdeventAttach_ok:
  assumes "ev_data (ac_ev ac) = None" and laws: "sd_laws api w armed refs" and "w event = {}" and "\<not> armed event"
  obtains e ac' where "redisLibsdeventAttach api True ac event = (REDIS_OK, ac')" and "ev_data (ac_ev ac') = Some e"
    and "sd_inv False api w armed refs (refs event) e"
  using assms that
  by (auto simp: redisLibsdeventAttach_def sd_inv_def sd_holds_def sd_lawsD [OF laws] sd_interests_values Let_def)

end
