(* ===== verification/AdapterPoll.thy ===== *)
theory AdapterPoll
  imports AsyncHooks
begin

unbundle bit_operations_syntax

text \<open>
  The adapter for programs without an event loop (\<open>adapters/poll.h\<close>): the program calls \<open>redisPollTick\<close> at its own
  pace. \<open>poll\<close>, its constants, the clock, and the calls of the client are arguments; \<open>double\<close>s are reals. A
  cleanup during a tick is postponed to the end of the tick.
\<close>

definition REDIS_POLL_HANDLED_READ :: "32 word" where "REDIS_POLL_HANDLED_READ = 1"
definition REDIS_POLL_HANDLED_WRITE :: "32 word" where "REDIS_POLL_HANDLED_WRITE = 2"
definition REDIS_POLL_HANDLED_TIMEOUT :: "32 word" where "REDIS_POLL_HANDLED_TIMEOUT = 4"

record redisPollEvents = hi_block +
  pe_context :: nat
  pe_fd :: int
  pe_reading :: bool
  pe_writing :: bool
  pe_in_tick :: bool
  pe_deleted :: bool
  pe_deadline :: real

definition redisPollTimevalToDouble :: "timeval option \<Rightarrow> real" where
  "redisPollTimevalToDouble tv =
     (case tv of None \<Rightarrow> 0 | Some tv \<Rightarrow> of_int (tv_sec tv) + of_int (tv_usec tv) / 1000000)"

text \<open>The clock: from \<open>gettimeofday\<close>, or, with MSVC, from the two halves of a file time in units of 100 ns.\<close>

datatype clock_reading = GetTimeOfDay timeval | FileTime UINT32 UINT32

definition redisPollGetNow :: "clock_reading \<Rightarrow> real" where
  "redisPollGetNow c =
     (case c of GetTimeOfDay tv \<Rightarrow> redisPollTimevalToDouble (Some tv)
      | FileTime high low \<Rightarrow> real (unat high * 2 ^ 32 + unat low) / 10000000)"

text \<open>The result of \<open>poll\<close> on one descriptor: its return value, the events, and whether \<open>errno\<close> is \<open>EINTR\<close>.\<close>

record poll_result =
  pr_ns :: int
  pr_revents :: "16 word"
  pr_eintr :: bool

record poll_env =
  POLLIN :: "16 word"
  POLLOUT :: "16 word"
  POLLERR :: "16 word"
  pl_poll :: "int \<Rightarrow> 16 word \<Rightarrow> int \<Rightarrow> poll_result"
  pl_now :: clock_reading

type_synonym poll_world = "redisPollEvents \<times> bool"

definition poll_timeout :: "real \<Rightarrow> int" where
  "poll_timeout timeout = (if 0 \<le> timeout then to_integer (timeout * 1000) else -1)"

text \<open>
  The end of a tick: timeouts, then the delayed cleanup. The clock is read after the read and write callbacks.
\<close>

definition poll_tick_end :: "poll_env \<Rightarrow> (poll_world \<Rightarrow> poll_world result) \<Rightarrow> 32 word \<Rightarrow> poll_world \<Rightarrow>
    (32 word \<times> poll_world) result" where
  "poll_tick_end env onTimeout handled w =
     access (fst w)
       (bindr
         (if \<not> pe_deleted (fst w) \<and> pe_deadline (fst w) \<noteq> 0 \<and> pe_deadline (fst w) \<le> redisPollGetNow (pl_now env)
          then bindr (onTimeout ((fst w)\<lparr>pe_deadline := 0\<rparr>, snd w))
                 (\<lambda>w1. Inr (handled OR REDIS_POLL_HANDLED_TIMEOUT, w1))
          else Inr (handled, w))
         (\<lambda>(h, e1, alive). access e1
            (if pe_deleted e1 then bindr (hi_free e1) (\<lambda>e2. Inr (h, e2, alive))
             else Inr (h, e1\<lparr>pe_in_tick := False\<rparr>, alive))))"

text \<open>The write half of the event handling; the context may be gone by now, so \<open>deleted\<close> is looked at first.\<close>

definition poll_tick_write :: "(poll_world \<Rightarrow> poll_world result) \<Rightarrow> bool \<Rightarrow> 32 word \<Rightarrow> poll_world \<Rightarrow>
    (32 word \<times> poll_world) result" where
  "poll_tick_write onWrite ready handled w =
     (if ready
      then access (fst w)
        (if \<not> pe_deleted (fst w)
         then bindr (onWrite w) (\<lambda>w1. Inr (handled OR REDIS_POLL_HANDLED_WRITE, w1))
         else Inr (handled, w))
      else Inr (handled, w))"

definition poll_tick_read :: "(poll_world \<Rightarrow> poll_world result) \<Rightarrow> bool \<Rightarrow> poll_world \<Rightarrow> (32 word \<times> poll_world) result" where
  "poll_tick_read onRead ready w =
     (if ready then bindr (onRead w) (\<lambda>w1. Inr (REDIS_POLL_HANDLED_READ, w1)) else Inr (0, w))"

text \<open>
  \<open>redisPollTick\<close> on the container of the context; the context must be alive, since its pointer to the container is
  read first. The value of a failed \<open>poll\<close> is returned as it is.
\<close>

definition redisPollTick :: "poll_env \<Rightarrow> (poll_world \<Rightarrow> poll_world result) \<Rightarrow> (poll_world \<Rightarrow> poll_world result) \<Rightarrow>
    (poll_world \<Rightarrow> poll_world result) \<Rightarrow> real \<Rightarrow> poll_world \<Rightarrow> (32 word \<times> poll_world) result" where
  "redisPollTick env onRead onWrite onTimeout timeout w =
     (let (e, alive) = w in
      if \<not> alive then Inl UseAfterFree
      else access e
        (let reading = pe_reading e; writing = pe_writing e in
         if \<not> reading \<and> \<not> writing then Inr (0, w)
         else
           let events = (if writing then (if reading then POLLIN env else 0) OR POLLOUT env
                         else if reading then POLLIN env else 0);
               r = pl_poll env (pe_fd e) events (poll_timeout timeout)
           in if pr_ns r < 0 \<and> \<not> pr_eintr r then Inr (of_int (pr_ns r), w)
              else
                let got = (\<not> pr_ns r < 0 \<and> pr_ns r \<noteq> 0);
                    e1 = e\<lparr>pe_in_tick := True\<rparr>
                in bindr (poll_tick_read onRead (got \<and> reading \<and> pr_revents r AND POLLIN env \<noteq> 0) (e1, alive)) (\<lambda>(h1, w1).
                   bindr (poll_tick_write onWrite
                           (got \<and> writing \<and> pr_revents r AND (POLLOUT env OR POLLERR env) \<noteq> 0) h1 w1) (\<lambda>(h2, w2).
                   poll_tick_end env onTimeout h2 w2))))"

definition redisPollAddRead :: "redisPollEvents \<Rightarrow> redisPollEvents result" where
  "redisPollAddRead e = access e (Inr (e\<lparr>pe_reading := True\<rparr>))"

definition redisPollDelRead :: "redisPollEvents \<Rightarrow> redisPollEvents result" where
  "redisPollDelRead e = access e (Inr (e\<lparr>pe_reading := False\<rparr>))"

definition redisPollAddWrite :: "redisPollEvents \<Rightarrow> redisPollEvents result" where
  "redisPollAddWrite e = access e (Inr (e\<lparr>pe_writing := True\<rparr>))"

definition redisPollDelWrite :: "redisPollEvents \<Rightarrow> redisPollEvents result" where
  "redisPollDelWrite e = access e (Inr (e\<lparr>pe_writing := False\<rparr>))"

definition redisPollCleanup :: "redisPollEvents \<Rightarrow> redisPollEvents result" where
  "redisPollCleanup e = access e (if pe_in_tick e then Inr (e\<lparr>pe_deleted := True\<rparr>) else hi_free e)"

definition redisPollScheduleTimer :: "poll_env \<Rightarrow> redisPollEvents \<Rightarrow> timeval \<Rightarrow> redisPollEvents result" where
  "redisPollScheduleTimer env e tv = access e
     (Inr (e\<lparr>pe_deadline := redisPollGetNow (pl_now env) + redisPollTimevalToDouble (Some tv)\<rparr>))"

definition redisPollAttach :: "poll_env \<Rightarrow> bool \<Rightarrow> redisPollEvents redisAsyncContext \<Rightarrow> int \<times> redisPollEvents redisAsyncContext" where
  "redisPollAttach env malloc_ok ac =
     (if ev_data (ac_ev ac) \<noteq> None then (REDIS_ERR, ac)
      else if \<not> malloc_ok then (REDIS_ERR, ac)
      else let e = \<lparr>freed = False, pe_context = ac_id ac, pe_fd = ac_fd ac, pe_reading = False, pe_writing = False,
                    pe_in_tick = False, pe_deleted = False, pe_deadline = 0\<rparr>
           in (REDIS_OK, ac\<lparr>ac_ev := (hooks_of redisPollAddRead redisPollDelRead redisPollAddWrite redisPollDelWrite
                 redisPollCleanup (Some (redisPollScheduleTimer env)))\<lparr>ev_data := Some e\<rparr>\<rparr>))"

section \<open>The contract\<close>

text \<open>What the ticks to come poll for: nothing once the container is freed, or marked to be freed at the end of a tick.\<close>

definition pe_watched :: "redisPollEvents \<Rightarrow> interest set" where
  "pe_watched e = (if freed e \<or> pe_deleted e then {}
     else (if pe_reading e then {Readable} else {}) \<union> (if pe_writing e then {Writable} else {}))"

text \<open>Outside (\<open>tick\<close> false) and inside a tick; what a cleanup leaves in each case.\<close>

definition pe_inv :: "bool \<Rightarrow> redisPollEvents \<Rightarrow> bool" where
  "pe_inv tick e \<longleftrightarrow> \<not> freed e \<and> \<not> pe_deleted e \<and> pe_in_tick e = tick"

definition pe_released :: "bool \<Rightarrow> redisPollEvents \<Rightarrow> bool" where
  "pe_released tick e \<longleftrightarrow> (if tick then \<not> freed e \<and> pe_deleted e else freed e)"

lemmas pe_ops = redisPollAddRead_def redisPollDelRead_def redisPollAddWrite_def redisPollDelWrite_def
  redisPollCleanup_def redisPollScheduleTimer_def

interpretation pe: releasing_adapter redisPollAddRead redisPollDelRead redisPollAddWrite redisPollDelWrite
    redisPollCleanup "Some (redisPollScheduleTimer env)" "pe_inv tick" pe_watched "pe_released tick"
  for env tick
proof (unfold_locales, goal_cases)
  case (4 e)
  then show ?case by (auto simp: pe_ops pe_inv_def pe_watched_def runs_def)
next
  case (5 e f tv)
  have f: "f = redisPollScheduleTimer env" using 5(2) by simp
  show ?case using 5(1) by (simp add: f pe_ops pe_inv_def pe_watched_def runs_def)
next
  case (6 e)
  then show ?case by (cases tick) (simp_all add: pe_ops pe_inv_def pe_released_def runs_def)
next
  case (7 e)
  then show ?case by (simp add: pe_released_def pe_watched_def split: if_splits)
qed (simp_all add: pe_ops pe_inv_def pe_watched_def runs_def insert_commute)

abbreviation "pe_hooks env \<equiv> hooks_of redisPollAddRead redisPollDelRead redisPollAddWrite redisPollDelWrite
  redisPollCleanup (Some (redisPollScheduleTimer env))"

text \<open>The state inside a tick: a live container and context, or one that waits for the end of the tick.\<close>

definition pe_ticking :: "poll_world \<Rightarrow> bool" where
  "pe_ticking = (\<lambda>(e, alive). alive \<and> pe_inv True e \<or> pe_released True e)"

lemma pe_call:
  assumes "pe_inv True e" and "client_call_ok b"
  shows "runs (redisAsyncHandle (pe_hooks env) b (e, True)) pe_ticking"
  by (rule runs_mono [OF pe.client_call [OF assms]]) (auto simp: pe_ticking_def split: if_splits)

lemma pe_ticking_live: "pe_ticking w \<Longrightarrow> \<not> freed (fst w) \<and> (\<not> pe_deleted (fst w) \<longrightarrow> w = (fst w, True) \<and> pe_inv True (fst w))"
  by (cases w) (auto simp: pe_ticking_def pe_inv_def pe_released_def)

lemma poll_tick_write_ok:
  assumes "pe_ticking w" and "client_call_ok b"
  shows "runs (poll_tick_write (redisAsyncHandle (pe_hooks env) b) ready h w) (\<lambda>(h, w'). pe_ticking w')"
proof (cases "ready \<and> \<not> pe_deleted (fst w)")
  case True
  then have "w = (fst w, True)" "pe_inv True (fst w)" using pe_ticking_live [OF assms(1)] by auto
  then have "runs (redisAsyncHandle (pe_hooks env) b w) pe_ticking" using pe_call [OF _ assms(2)] by metis
  then show ?thesis
    using True pe_ticking_live [OF assms(1)]
    by (auto simp: poll_tick_write_def runs_basic intro!: runs_bindr elim!: runs_mono)
next
  case False
  then show ?thesis using assms(1) pe_ticking_live [OF assms(1)] by (auto simp: poll_tick_write_def runs_basic)
qed

lemma poll_tick_end_ok:
  assumes "pe_ticking w" and "client_call_ok b"
  shows "runs (poll_tick_end env (redisAsyncHandle (pe_hooks env') b) h w)
    (\<lambda>(h, e', alive). alive \<and> pe_inv False e' \<or> freed e')"
proof -
  obtain e alive where w: "w = (e, alive)" by (cases w)
  have close: "runs (bindr m (\<lambda>(h, e1, alive). access e1
        (if pe_deleted e1 then bindr (hi_free e1) (\<lambda>e2. Inr (h, e2, alive))
         else Inr (h, e1\<lparr>pe_in_tick := False\<rparr>, alive)))) (\<lambda>(h, e', alive). alive \<and> pe_inv False e' \<or> freed e')"
    if "runs m (\<lambda>(h, w'). pe_ticking w')" for m :: "(32 word \<times> poll_world) result"
    by (rule runs_bindr, rule runs_mono [OF that])
      (auto simp: pe_ticking_def pe_inv_def pe_released_def runs_basic)
  have call: "runs (bindr (redisAsyncHandle (pe_hooks env') b (e\<lparr>pe_deadline := 0\<rparr>, alive))
        (\<lambda>w1. Inr (h OR REDIS_POLL_HANDLED_TIMEOUT, w1))) (\<lambda>(h, w'). pe_ticking w')" if "\<not> pe_deleted e"
  proof -
    have "alive" "pe_inv True (e\<lparr>pe_deadline := 0\<rparr>)"
      using that pe_ticking_live [OF assms(1)] by (auto simp: w pe_inv_def)
    then show ?thesis
      by (auto intro!: runs_bindr runs_mono [OF pe_call [OF _ assms(2)]] runs_basic)
  qed
  have first: "runs (if \<not> pe_deleted e \<and> c then bindr (redisAsyncHandle (pe_hooks env') b (e\<lparr>pe_deadline := 0\<rparr>, alive))
        (\<lambda>w1. Inr (h OR REDIS_POLL_HANDLED_TIMEOUT, w1)) else Inr (h, e, alive)) (\<lambda>(h, w'). pe_ticking w')" for c
    using call assms(1) w by (auto intro: runs_basic)
  have live: "\<not> freed e" using pe_ticking_live [OF assms(1)] by (simp add: w)
  show ?thesis
    unfolding poll_tick_end_def w fst_conv snd_conv access_live [OF live] by (rule close [OF first])
qed

text \<open>
  A tick with calls that follow the documented order: it never touches freed memory, and it ends with the container
  live and outside a tick, or freed because a callback cleaned up.
\<close>

theorem redisPollTick_ok:
  assumes "pe_inv False e" and "client_call_ok bR" and "client_call_ok bW" and "client_call_ok bT"
  shows "runs (redisPollTick env (redisAsyncHandle (pe_hooks env') bR) (redisAsyncHandle (pe_hooks env') bW)
      (redisAsyncHandle (pe_hooks env') bT) timeout (e, True))
    (\<lambda>(h, e', alive). alive \<and> pe_inv False e' \<or> freed e')"
proof -
  have inv: "pe_inv True (e\<lparr>pe_in_tick := True\<rparr>)" and live: "\<not> freed e"
    using assms(1) by (simp_all add: pe_inv_def)
  then have ticking: "pe_ticking (e\<lparr>pe_in_tick := True\<rparr>, True)" by (simp add: pe_ticking_def)
  have read: "runs (poll_tick_read (redisAsyncHandle (pe_hooks env') bR) c (e\<lparr>pe_in_tick := True\<rparr>, True))
      (\<lambda>(h, w). pe_ticking w)" for c
    using ticking by (auto simp: poll_tick_read_def runs_basic intro!: runs_bindr runs_mono [OF pe_call [OF inv assms(2)]])
  have "runs (bindr (poll_tick_read (redisAsyncHandle (pe_hooks env') bR) c (e\<lparr>pe_in_tick := True\<rparr>, True)) (\<lambda>(h1, w1).
      bindr (poll_tick_write (redisAsyncHandle (pe_hooks env') bW) d h1 w1) (\<lambda>(h2, w2).
      poll_tick_end env (redisAsyncHandle (pe_hooks env') bT) h2 w2)))
      (\<lambda>(h, e', alive). alive \<and> pe_inv False e' \<or> freed e')" for c d
    by (rule runs_bindr, rule runs_mono [OF read], clarify, rule runs_bindr,
        rule runs_mono [OF poll_tick_write_ok [OF _ assms(3)]]) (auto intro: poll_tick_end_ok [OF _ assms(4)])
  then show ?thesis
    using live assms(1) by (simp add: redisPollTick_def runs_basic Let_def)
qed

text \<open>What the value tells: a tick that sees only a passed deadline serves the timeout once and clears it.\<close>

lemma redisPollTick_deadline:
  assumes "pe_inv False e" and "pe_reading e \<or> pe_writing e" and "pe_deadline e \<noteq> 0"
    and "\<And>fd events t. pr_ns (pl_poll env fd events t) = 0" and "pe_deadline e \<le> redisPollGetNow (pl_now env)"
  shows "redisPollTick env (redisAsyncHandle (pe_hooks env') bR) (redisAsyncHandle (pe_hooks env') bW)
      (redisAsyncHandle (pe_hooks env') \<lparr>cb_hooks = [], cb_frees = False\<rparr>) timeout (e, True) =
    Inr (REDIS_POLL_HANDLED_TIMEOUT, e\<lparr>pe_deadline := 0\<rparr>, True)"
  using assms
  by (auto simp: redisPollTick_def poll_tick_read_def poll_tick_write_def poll_tick_end_def redisAsyncHandle_def
      pe_inv_def Let_def)

text \<open>Nothing is polled where neither direction is asked for: such a tick serves no timeout either.\<close>

lemma redisPollTick_idle:
  "pe_inv False e \<Longrightarrow> \<not> pe_reading e \<Longrightarrow> \<not> pe_writing e \<Longrightarrow>
     redisPollTick env onRead onWrite onTimeout timeout (e, True) = Inr (0, e, True)"
  by (simp add: redisPollTick_def pe_inv_def Let_def)

text \<open>
  A tick inside a callback of a tick: the inner tick leaves the state "not in a tick", so a cleanup in the callback
  after it frees the container at once, and the outer tick goes on to read it.
\<close>

lemma nested_tick_uses_freed:
  assumes "pe_inv False e" and "pe_reading e" and "\<And>fd events t. pr_ns (pl_poll env fd events t) = 1 \<and> pr_revents (pl_poll env fd events t) = POLLIN env"
    and "POLLIN env \<noteq> 0" and "\<And>fd events t. pr_ns (pl_poll env' fd events t) = 0" and "pe_deadline e = 0"
  shows "redisPollTick env
      (\<lambda>w. bindr (redisPollTick env' onR onW onT 0 w) (\<lambda>(h, w'). redisAsyncHandle (pe_hooks env) \<lparr>cb_hooks = [Cleanup], cb_frees = True\<rparr> w'))
      onWrite onTimeout timeout (e, True) = Inl UseAfterFree"
  using assms
  by (auto simp: redisPollTick_def poll_tick_read_def poll_tick_write_def poll_tick_end_def redisAsyncHandle_def
      redisPollCleanup_def pe_inv_def Let_def)

lemma redisPollAttach_ok:
  assumes "ev_data (ac_ev ac) = None"
  obtains e ac' where "redisPollAttach env True ac = (REDIS_OK, ac')" and "ev_data (ac_ev ac') = Some e"
    and "pe_inv False e" and "pe_watched e = {}"
  using assms that by (auto simp: redisPollAttach_def pe_inv_def pe_watched_def Let_def)

end
