(* ===== verification/AdapterLibhv.thy ===== *)
theory AdapterLibhv
  imports AsyncHooks
begin

text \<open>
  The adapter for libhv (\<open>adapters/libhv.h\<close>). The loop with the io object of the connection is the field
  \<open>hv_loop\<close>; the user data of the io object, where the context is kept, is \<open>hv_userdata\<close> (it belongs to the io object
  and outlives the container).
\<close>

record 'l redisLibhvEvents = hi_block +
  hv_loop :: 'l
  hv_userdata :: "nat option"
  hv_timer :: "nat option"

record 'l hv_api =
  hio_add :: "'l \<Rightarrow> interest \<Rightarrow> 'l"
  hio_del :: "'l \<Rightarrow> interest \<Rightarrow> 'l"
  hio_close :: "'l \<Rightarrow> 'l"
  hio_events :: "'l \<Rightarrow> interest set"
  htimer_add :: "'l \<Rightarrow> UINT32 \<Rightarrow> 'l \<times> nat"
  htimer_reset :: "'l \<Rightarrow> nat \<Rightarrow> UINT32 \<Rightarrow> 'l"
  htimer_del :: "'l \<Rightarrow> nat \<Rightarrow> 'l"

text \<open>The context and the two masks are read before the client is called and not read again.\<close>

definition redisLibhvHandleEvents :: "'l hv_api \<Rightarrow> 'l redisLibhvEvents event_hooks \<Rightarrow> client_call \<Rightarrow> client_call \<Rightarrow>
    interest set \<Rightarrow> 'l redisLibhvEvents \<times> bool \<Rightarrow> ('l redisLibhvEvents \<times> bool) result" where
  "redisLibhvHandleEvents api t onRead onWrite revents w =
     (let context = hv_userdata (fst w); events = hio_events api (hv_loop (fst w)) in
      bindr (if context \<noteq> None \<and> Readable \<in> events \<and> Readable \<in> revents then redisAsyncHandle t onRead w else Inr w) (\<lambda>w1.
      if context \<noteq> None \<and> Writable \<in> events \<and> Writable \<in> revents then redisAsyncHandle t onWrite w1 else Inr w1))"

definition redisLibhvAddRead :: "'l hv_api \<Rightarrow> 'l redisLibhvEvents \<Rightarrow> 'l redisLibhvEvents result" where
  "redisLibhvAddRead api e = access e (Inr (e\<lparr>hv_loop := hio_add api (hv_loop e) Readable\<rparr>))"

definition redisLibhvDelRead :: "'l hv_api \<Rightarrow> 'l redisLibhvEvents \<Rightarrow> 'l redisLibhvEvents result" where
  "redisLibhvDelRead api e = access e (Inr (e\<lparr>hv_loop := hio_del api (hv_loop e) Readable\<rparr>))"

definition redisLibhvAddWrite :: "'l hv_api \<Rightarrow> 'l redisLibhvEvents \<Rightarrow> 'l redisLibhvEvents result" where
  "redisLibhvAddWrite api e = access e (Inr (e\<lparr>hv_loop := hio_add api (hv_loop e) Writable\<rparr>))"

definition redisLibhvDelWrite :: "'l hv_api \<Rightarrow> 'l redisLibhvEvents \<Rightarrow> 'l redisLibhvEvents result" where
  "redisLibhvDelWrite api e = access e (Inr (e\<lparr>hv_loop := hio_del api (hv_loop e) Writable\<rparr>))"

definition redisLibhvCleanup :: "'l hv_api \<Rightarrow> 'l redisLibhvEvents \<Rightarrow> 'l redisLibhvEvents result" where
  "redisLibhvCleanup api e = access e
     (let l1 = (case hv_timer e of None \<Rightarrow> hv_loop e | Some i \<Rightarrow> htimer_del api (hv_loop e) i);
          l2 = hio_close api l1
      in hi_free (e\<lparr>hv_loop := l2, hv_userdata := None\<rparr>))"

text \<open>The timer's user data is the io object, whose user data is the context.\<close>

definition redisLibhvTimeout :: "'l redisLibhvEvents event_hooks \<Rightarrow> client_call \<Rightarrow>
    'l redisLibhvEvents \<times> bool \<Rightarrow> ('l redisLibhvEvents \<times> bool) result" where
  "redisLibhvTimeout t b w = (if hv_userdata (fst w) = None then Inl NullPointer else redisAsyncHandle t b w)"

definition redisLibhvSetTimeout :: "'l hv_api \<Rightarrow> 'l redisLibhvEvents \<Rightarrow> timeval \<Rightarrow> 'l redisLibhvEvents result" where
  "redisLibhvSetTimeout api e tv = access e
     (let millis = of_int (tv_sec tv * 1000 + tv_usec tv div 1000) :: UINT32 in
      if millis = 0
      then (case hv_timer e of None \<Rightarrow> Inr e
            | Some i \<Rightarrow> Inr (e\<lparr>hv_loop := htimer_del api (hv_loop e) i, hv_timer := None\<rparr>))
      else (case hv_timer e of
              None \<Rightarrow> (let (l, i) = htimer_add api (hv_loop e) millis in Inr (e\<lparr>hv_loop := l, hv_timer := Some i\<rparr>))
            | Some i \<Rightarrow> Inr (e\<lparr>hv_loop := htimer_reset api (hv_loop e) i millis\<rparr>)))"

text \<open>\<open>hio_get\<close> is the argument \<open>get\<close>; a failure frees the container before anything is registered.\<close>

definition redisLibhvAttach :: "'l hv_api \<Rightarrow> bool \<Rightarrow> ('l \<Rightarrow> int \<Rightarrow> 'l option) \<Rightarrow> 'l redisLibhvEvents redisAsyncContext \<Rightarrow> 'l \<Rightarrow>
    int \<times> 'l redisLibhvEvents redisAsyncContext" where
  "redisLibhvAttach api malloc_ok get ac loop =
     (if ev_data (ac_ev ac) \<noteq> None then (REDIS_ERR, ac)
      else if \<not> malloc_ok then (REDIS_ERR, ac)
      else case get loop (ac_fd ac) of
        None \<Rightarrow> (REDIS_ERR, ac)
      | Some l \<Rightarrow>
          let e = \<lparr>freed = False, hv_loop = l, hv_userdata = Some (ac_id ac), hv_timer = None\<rparr>
          in (REDIS_OK, ac\<lparr>ac_ev := (hooks_of (redisLibhvAddRead api) (redisLibhvDelRead api) (redisLibhvAddWrite api)
                (redisLibhvDelWrite api) (redisLibhvCleanup api) (Some (redisLibhvSetTimeout api)))\<lparr>ev_data := Some e\<rparr>\<rparr>))"

section \<open>The contract\<close>

text \<open>
  libhv: adding and deleting events of the io object, closing it, and timers that leave the events alone; \<open>timers\<close>
  are the timers the loop has for the container.
\<close>

definition hv_laws :: "'l hv_api \<Rightarrow> ('l \<Rightarrow> nat set) \<Rightarrow> bool" where
  "hv_laws api timers \<longleftrightarrow>
     (\<forall>l i. hio_events api (hio_add api l i) = insert i (hio_events api l) \<and> timers (hio_add api l i) = timers l) \<and>
     (\<forall>l i. hio_events api (hio_del api l i) = hio_events api l - {i} \<and> timers (hio_del api l i) = timers l) \<and>
     (\<forall>l. hio_events api (hio_close api l) = {} \<and> timers (hio_close api l) = timers l) \<and>
     (\<forall>l ms. hio_events api (fst (htimer_add api l ms)) = hio_events api l \<and>
        timers (fst (htimer_add api l ms)) = insert (snd (htimer_add api l ms)) (timers l)) \<and>
     (\<forall>l i ms. hio_events api (htimer_reset api l i ms) = hio_events api l \<and> timers (htimer_reset api l i ms) = timers l) \<and>
     (\<forall>l i. hio_events api (htimer_del api l i) = hio_events api l \<and> timers (htimer_del api l i) = timers l - {i})"

definition hv_inv :: "'l hv_api \<Rightarrow> ('l \<Rightarrow> nat set) \<Rightarrow> 'l redisLibhvEvents \<Rightarrow> bool" where
  "hv_inv api timers e \<longleftrightarrow> hv_laws api timers \<and> \<not> freed e \<and> hv_userdata e \<noteq> None \<and> timers (hv_loop e) = set_option (hv_timer e)"

definition hv_released :: "'l hv_api \<Rightarrow> ('l \<Rightarrow> nat set) \<Rightarrow> 'l redisLibhvEvents \<Rightarrow> bool" where
  "hv_released api timers e \<longleftrightarrow> freed e \<and> hv_userdata e = None \<and> hio_events api (hv_loop e) = {} \<and> timers (hv_loop e) = {}"

lemmas hv_ops = redisLibhvAddRead_def redisLibhvDelRead_def redisLibhvAddWrite_def redisLibhvDelWrite_def
  redisLibhvCleanup_def redisLibhvSetTimeout_def

interpretation hv: releasing_adapter "redisLibhvAddRead api" "redisLibhvDelRead api" "redisLibhvAddWrite api"
    "redisLibhvDelWrite api" "redisLibhvCleanup api" "Some (redisLibhvSetTimeout api)" "hv_inv api timers"
    "\<lambda>e. hio_events api (hv_loop e)" "hv_released api timers"
  for api :: "'l hv_api" and timers
proof (unfold_locales, goal_cases)
  case (5 e f tv)
  have f: "f = redisLibhvSetTimeout api" using 5(2) by simp
  show ?case
    using 5(1) by (cases "hv_timer e") (auto simp: f hv_ops hv_inv_def hv_laws_def runs_def Let_def case_prod_beta)
next
  case (6 e)
  then show ?case
    by (cases "hv_timer e") (auto simp: hv_ops hv_inv_def hv_laws_def hv_released_def runs_def Let_def)
next
  case (7 e)
  then show ?case by (simp add: hv_released_def)
qed (simp_all add: hv_ops hv_inv_def hv_laws_def runs_def)

abbreviation "hv_hooks api \<equiv> hooks_of (redisLibhvAddRead api) (redisLibhvDelRead api) (redisLibhvAddWrite api)
  (redisLibhvDelWrite api) (redisLibhvCleanup api) (Some (redisLibhvSetTimeout api))"

lemma redisLibhvAttach_ok:
  assumes "ev_data (ac_ev ac) = None" and "hv_laws api timers" and "get loop (ac_fd ac) = Some l" and "timers l = {}"
  obtains e ac' where "redisLibhvAttach api True get ac loop = (REDIS_OK, ac')" and "ev_data (ac_ev ac') = Some e"
    and "hv_inv api timers e"
  using assms that by (auto simp: redisLibhvAttach_def hv_inv_def Let_def)

text \<open>As long as the read side keeps the connection, an event is handled without a fault.\<close>

lemma redisLibhvHandleEvents_ok:
  assumes "hv_inv api timers e" and "client_call_ok bR" and "client_call_ok bW" and "Cleanup \<notin> set (cb_hooks bR)"
  shows "runs (redisLibhvHandleEvents api (hv_hooks api) bR bW revents (e, True))
    (\<lambda>(e', alive). alive \<and> hv_inv api timers e' \<or> hv_released api timers e')"
proof -
  have on_write: "runs (redisAsyncHandle (hv_hooks api) bW (q, True)) (\<lambda>(e', alive). alive \<and> hv_inv api timers e' \<or> hv_released api timers e')"
    if "hv_inv api timers q" for q
    by (rule runs_mono [OF hv.client_call [OF that assms(3)]]) (auto split: if_splits)
  have read: "runs (redisAsyncHandle (hv_hooks api) bR (e, True)) (\<lambda>(e', alive). alive \<and> hv_inv api timers e')"
    by (rule runs_mono [OF hv.client_call [OF assms(1,2)]]) (use assms(4) in auto)
  have first: "runs (if c then redisAsyncHandle (hv_hooks api) bR (e, True) else Inr (e, True))
      (\<lambda>(e', alive). alive \<and> hv_inv api timers e')" for c
    using read assms(1) by (simp add: runs_basic)
  show ?thesis
    unfolding redisLibhvHandleEvents_def Let_def
    by (rule runs_bindr, rule runs_mono [OF first]) (auto simp: runs_basic on_write)
qed

text \<open>
  The context is looked at before the client is called only: where the read side disconnects and both directions
  are ready, the handler hands the freed context to the write side.
\<close>

lemma redisLibhv_uses_freed_context:
  assumes "hv_inv api timers e" and "client_call_ok bR" and "cb_frees bR"
    and "hio_events api (hv_loop e) = {Readable, Writable}" and "revents = {Readable, Writable}"
  shows "redisLibhvHandleEvents api (hv_hooks api) bR bW revents (e, True) = Inl UseAfterFree"
proof -
  obtain e' where "redisAsyncHandle (hv_hooks api) bR (e, True) = Inr (e', False)"
    using hv.client_call [OF assms(1,2)] assms(3) by (auto simp: runs_def)
  then show ?thesis
    using assms by (auto simp: redisLibhvHandleEvents_def redisAsyncHandle_def hv_inv_def Let_def)
qed

end
