(* ===== verification/AdapterIvykis.thy ===== *)
theory AdapterIvykis
  imports AsyncHooks
begin

text \<open>
  The adapter for ivykis (\<open>adapters/ivykis.h\<close>): a direction is watched where its handler is set. The loop is the
  field \<open>iv_loop\<close>; the third argument of \<open>iv_fd_set_handler_in\<close> and \<open>_out\<close> tells whether the handler is not \<open>NULL\<close>.
\<close>

record 'l redisIvykisEvents = hi_block +
  iv_context :: nat
  iv_loop :: 'l
  iv_fd :: int

record 'l iv_api =
  iv_fd_set_handler_in :: "'l \<Rightarrow> int \<Rightarrow> bool \<Rightarrow> 'l"
  iv_fd_set_handler_out :: "'l \<Rightarrow> int \<Rightarrow> bool \<Rightarrow> 'l"
  iv_fd_register :: "'l \<Rightarrow> int \<Rightarrow> bool \<Rightarrow> bool \<Rightarrow> 'l"
  iv_fd_unregister :: "'l \<Rightarrow> int \<Rightarrow> 'l"

text \<open>The handlers get the context, not the container, as their argument.\<close>

definition redisIvykisReadEvent :: "'l redisIvykisEvents event_hooks \<Rightarrow> client_call \<Rightarrow>
    'l redisIvykisEvents \<times> bool \<Rightarrow> ('l redisIvykisEvents \<times> bool) result" where
  "redisIvykisReadEvent t b w = redisAsyncHandle t b w"

definition redisIvykisWriteEvent :: "'l redisIvykisEvents event_hooks \<Rightarrow> client_call \<Rightarrow>
    'l redisIvykisEvents \<times> bool \<Rightarrow> ('l redisIvykisEvents \<times> bool) result" where
  "redisIvykisWriteEvent t b w = redisAsyncHandle t b w"

definition redisIvykisAddRead :: "'l iv_api \<Rightarrow> 'l redisIvykisEvents \<Rightarrow> 'l redisIvykisEvents result" where
  "redisIvykisAddRead api e = access e (Inr (e\<lparr>iv_loop := iv_fd_set_handler_in api (iv_loop e) (iv_fd e) True\<rparr>))"

definition redisIvykisDelRead :: "'l iv_api \<Rightarrow> 'l redisIvykisEvents \<Rightarrow> 'l redisIvykisEvents result" where
  "redisIvykisDelRead api e = access e (Inr (e\<lparr>iv_loop := iv_fd_set_handler_in api (iv_loop e) (iv_fd e) False\<rparr>))"

definition redisIvykisAddWrite :: "'l iv_api \<Rightarrow> 'l redisIvykisEvents \<Rightarrow> 'l redisIvykisEvents result" where
  "redisIvykisAddWrite api e = access e (Inr (e\<lparr>iv_loop := iv_fd_set_handler_out api (iv_loop e) (iv_fd e) True\<rparr>))"

definition redisIvykisDelWrite :: "'l iv_api \<Rightarrow> 'l redisIvykisEvents \<Rightarrow> 'l redisIvykisEvents result" where
  "redisIvykisDelWrite api e = access e (Inr (e\<lparr>iv_loop := iv_fd_set_handler_out api (iv_loop e) (iv_fd e) False\<rparr>))"

definition redisIvykisCleanup :: "'l iv_api \<Rightarrow> 'l redisIvykisEvents \<Rightarrow> 'l redisIvykisEvents result" where
  "redisIvykisCleanup api e = access e (hi_free (e\<lparr>iv_loop := iv_fd_unregister api (iv_loop e) (iv_fd e)\<rparr>))"

definition redisIvykisAttach :: "'l iv_api \<Rightarrow> bool \<Rightarrow> 'l \<Rightarrow> 'l redisIvykisEvents redisAsyncContext \<Rightarrow>
    int \<times> 'l redisIvykisEvents redisAsyncContext" where
  "redisIvykisAttach api malloc_ok loop ac =
     (if ev_data (ac_ev ac) \<noteq> None then (REDIS_ERR, ac)
      else if \<not> malloc_ok then (REDIS_ERR, ac)
      else let e = \<lparr>freed = False, iv_context = ac_id ac, iv_loop = iv_fd_register api loop (ac_fd ac) True True,
                    iv_fd = ac_fd ac\<rparr>
           in (REDIS_OK, ac\<lparr>ac_ev := (hooks_of (redisIvykisAddRead api) (redisIvykisDelRead api) (redisIvykisAddWrite api)
                 (redisIvykisDelWrite api) (redisIvykisCleanup api) (ev_scheduleTimer (ac_ev ac)))\<lparr>ev_data := Some e\<rparr>\<rparr>))"

section \<open>The contract\<close>

definition iv_laws :: "'l iv_api \<Rightarrow> ('l \<Rightarrow> int \<Rightarrow> interest set) \<Rightarrow> bool" where
  "iv_laws api w \<longleftrightarrow>
     (\<forall>l fd b. w (iv_fd_set_handler_in api l fd b) =
        (w l)(fd := if b then insert Readable (w l fd) else w l fd - {Readable})) \<and>
     (\<forall>l fd b. w (iv_fd_set_handler_out api l fd b) =
        (w l)(fd := if b then insert Writable (w l fd) else w l fd - {Writable})) \<and>
     (\<forall>l fd a b. w (iv_fd_register api l fd a b) =
        (w l)(fd := (if a then {Readable} else {}) \<union> (if b then {Writable} else {}))) \<and>
     (\<forall>l fd. w (iv_fd_unregister api l fd) = (w l)(fd := {}))"

definition iv_inv :: "'l iv_api \<Rightarrow> ('l \<Rightarrow> int \<Rightarrow> interest set) \<Rightarrow> 'l redisIvykisEvents \<Rightarrow> bool" where
  "iv_inv api w e \<longleftrightarrow> iv_laws api w \<and> \<not> freed e"

definition iv_released :: "('l \<Rightarrow> int \<Rightarrow> interest set) \<Rightarrow> 'l redisIvykisEvents \<Rightarrow> bool" where
  "iv_released w e \<longleftrightarrow> freed e \<and> w (iv_loop e) (iv_fd e) = {}"

abbreviation "iv_hooks api \<equiv> hooks_of (redisIvykisAddRead api) (redisIvykisDelRead api) (redisIvykisAddWrite api)
  (redisIvykisDelWrite api) (redisIvykisCleanup api) None"

interpretation iv: releasing_adapter "redisIvykisAddRead api" "redisIvykisDelRead api" "redisIvykisAddWrite api"
    "redisIvykisDelWrite api" "redisIvykisCleanup api" None "iv_inv api w" "\<lambda>e. w (iv_loop e) (iv_fd e)" "iv_released w"
  for api :: "'l iv_api" and w
  by unfold_locales
    (simp_all add: redisIvykisAddRead_def redisIvykisDelRead_def redisIvykisAddWrite_def redisIvykisDelWrite_def
      redisIvykisCleanup_def iv_inv_def iv_laws_def iv_released_def runs_def)

text \<open>An attachment watches both directions at once, before the client has asked for any.\<close>

lemma redisIvykisAttach_ok:
  assumes "ev_data (ac_ev ac) = None" and "iv_laws api w"
  obtains e ac' where "redisIvykisAttach api True loop ac = (REDIS_OK, ac')" and "ev_data (ac_ev ac') = Some e"
    and "iv_inv api w e" and "w (iv_loop e) (iv_fd e) = {Readable, Writable}"
  using assms that by (auto simp: redisIvykisAttach_def iv_inv_def iv_laws_def Let_def insert_commute)

end
