(* ===== verification/AdapterMacosx.thy ===== *)
theory AdapterMacosx
  imports AsyncHooks
begin

text \<open>
  The adapter for Core Foundation (\<open>adapters/macosx.h\<close>). The run loop with the socket object of the connection is
  the field \<open>cf_state\<close>; \<open>cf_socketRef\<close> and \<open>cf_sourceRef\<close> tell whether the references are set. Releasing a reference
  is part of the call that invalidates it.
\<close>

datatype CFSocketCallBackType = kCFSocketReadCallBack | kCFSocketWriteCallBack | OtherCallBack

record 'l RedisRunLoop = hi_block +
  cf_context :: nat
  cf_state :: 'l
  cf_socketRef :: bool
  cf_sourceRef :: bool

record 'l cf_api =
  CFSocketCreateWithNative :: "'l \<Rightarrow> int \<Rightarrow> 'l \<times> bool"
  CFSocketCreateRunLoopSource :: "'l \<Rightarrow> 'l \<times> bool"
  CFRunLoopAddSource :: "'l \<Rightarrow> 'l"
  CFSocketEnableCallBacks :: "'l \<Rightarrow> interest \<Rightarrow> 'l"
  CFSocketDisableCallBacks :: "'l \<Rightarrow> interest \<Rightarrow> 'l"
  CFRunLoopSourceInvalidate :: "'l \<Rightarrow> 'l"
  CFSocketInvalidate :: "'l \<Rightarrow> 'l"

text \<open>\<open>freeRedisRunLoop\<close> on a run loop: the status it returns (always an error) and the freed run loop.\<close>

definition freeRedisRunLoop :: "'l cf_api \<Rightarrow> 'l RedisRunLoop \<Rightarrow> (int \<times> 'l RedisRunLoop) result" where
  "freeRedisRunLoop api e = access e
     (let e1 = (if cf_sourceRef e then e\<lparr>cf_state := CFRunLoopSourceInvalidate api (cf_state e)\<rparr> else e);
          e2 = (if cf_socketRef e1 then e1\<lparr>cf_state := CFSocketInvalidate api (cf_state e1)\<rparr> else e1)
      in bindr (hi_free e2) (\<lambda>e3. Inr (REDIS_ERR, e3)))"

definition redisMacOSAddRead :: "'l cf_api \<Rightarrow> 'l RedisRunLoop \<Rightarrow> 'l RedisRunLoop result" where
  "redisMacOSAddRead api e = access e (Inr (e\<lparr>cf_state := CFSocketEnableCallBacks api (cf_state e) Readable\<rparr>))"

definition redisMacOSDelRead :: "'l cf_api \<Rightarrow> 'l RedisRunLoop \<Rightarrow> 'l RedisRunLoop result" where
  "redisMacOSDelRead api e = access e (Inr (e\<lparr>cf_state := CFSocketDisableCallBacks api (cf_state e) Readable\<rparr>))"

definition redisMacOSAddWrite :: "'l cf_api \<Rightarrow> 'l RedisRunLoop \<Rightarrow> 'l RedisRunLoop result" where
  "redisMacOSAddWrite api e = access e (Inr (e\<lparr>cf_state := CFSocketEnableCallBacks api (cf_state e) Writable\<rparr>))"

definition redisMacOSDelWrite :: "'l cf_api \<Rightarrow> 'l RedisRunLoop \<Rightarrow> 'l RedisRunLoop result" where
  "redisMacOSDelWrite api e = access e (Inr (e\<lparr>cf_state := CFSocketDisableCallBacks api (cf_state e) Writable\<rparr>))"

definition redisMacOSCleanup :: "'l cf_api \<Rightarrow> 'l RedisRunLoop \<Rightarrow> 'l RedisRunLoop result" where
  "redisMacOSCleanup api e = bindr (freeRedisRunLoop api e) (\<lambda>(_, e'). Inr e')"

definition redisMacOSAsyncCallback :: "'l RedisRunLoop event_hooks \<Rightarrow> client_call \<Rightarrow> client_call \<Rightarrow> CFSocketCallBackType \<Rightarrow>
    'l RedisRunLoop \<times> bool \<Rightarrow> ('l RedisRunLoop \<times> bool) result" where
  "redisMacOSAsyncCallback t onRead onWrite callbackType w =
     (case callbackType of kCFSocketReadCallBack \<Rightarrow> redisAsyncHandle t onRead w
      | kCFSocketWriteCallBack \<Rightarrow> redisAsyncHandle t onWrite w
      | OtherCallBack \<Rightarrow> Inr w)"

text \<open>The hooks and \<open>ev.data\<close> are set before the socket objects are created; a failure there frees the run loop.\<close>

definition redisMacOSAttach :: "'l cf_api \<Rightarrow> bool \<Rightarrow> 'l RedisRunLoop redisAsyncContext \<Rightarrow> 'l \<Rightarrow>
    (int \<times> 'l RedisRunLoop redisAsyncContext) result" where
  "redisMacOSAttach api calloc_ok ac runLoop =
     (if ev_data (ac_ev ac) \<noteq> None then Inr (REDIS_ERR, ac)
      else if \<not> calloc_ok then Inr (REDIS_ERR, ac)
      else
        let e = \<lparr>freed = False, cf_context = ac_id ac, cf_state = runLoop, cf_socketRef = False, cf_sourceRef = False\<rparr>;
            attached = (\<lambda>e. ac\<lparr>ac_ev := (hooks_of (redisMacOSAddRead api) (redisMacOSDelRead api)
              (redisMacOSAddWrite api) (redisMacOSDelWrite api) (redisMacOSCleanup api) (ev_scheduleTimer (ac_ev ac)))
              \<lparr>ev_data := Some e\<rparr>\<rparr>);
            (l1, socket_ok) = CFSocketCreateWithNative api (cf_state e) (ac_fd ac);
            e1 = e\<lparr>cf_state := l1, cf_socketRef := socket_ok\<rparr>
        in if \<not> socket_ok then bindr (freeRedisRunLoop api e1) (\<lambda>(st, e'). Inr (st, attached e'))
           else
             let (l2, source_ok) = CFSocketCreateRunLoopSource api (cf_state e1);
                 e2 = e1\<lparr>cf_state := l2, cf_sourceRef := source_ok\<rparr>
             in if \<not> source_ok then bindr (freeRedisRunLoop api e2) (\<lambda>(st, e'). Inr (st, attached e'))
                else Inr (REDIS_OK, attached (e2\<lparr>cf_state := CFRunLoopAddSource api (cf_state e2)\<rparr>)))"

section \<open>The contract\<close>

text \<open>Core Foundation: the callbacks a socket object is enabled for; an invalidated one has none.\<close>

definition cf_laws :: "'l cf_api \<Rightarrow> ('l \<Rightarrow> interest set) \<Rightarrow> bool" where
  "cf_laws api w \<longleftrightarrow>
     (\<forall>l i. w (CFSocketEnableCallBacks api l i) = insert i (w l)) \<and>
     (\<forall>l i. w (CFSocketDisableCallBacks api l i) = w l - {i}) \<and>
     (\<forall>l. w (CFSocketInvalidate api l) = {})"

definition cf_inv :: "'l cf_api \<Rightarrow> ('l \<Rightarrow> interest set) \<Rightarrow> 'l RedisRunLoop \<Rightarrow> bool" where
  "cf_inv api w e \<longleftrightarrow> cf_laws api w \<and> \<not> freed e \<and> cf_socketRef e \<and> cf_sourceRef e"

definition cf_released :: "('l \<Rightarrow> interest set) \<Rightarrow> 'l RedisRunLoop \<Rightarrow> bool" where
  "cf_released w e \<longleftrightarrow> freed e \<and> w (cf_state e) = {}"

abbreviation "cf_hooks api \<equiv> hooks_of (redisMacOSAddRead api) (redisMacOSDelRead api) (redisMacOSAddWrite api)
  (redisMacOSDelWrite api) (redisMacOSCleanup api) None"

interpretation cf: releasing_adapter "redisMacOSAddRead api" "redisMacOSDelRead api" "redisMacOSAddWrite api"
    "redisMacOSDelWrite api" "redisMacOSCleanup api" None "cf_inv api w" "\<lambda>e. w (cf_state e)" "cf_released w"
  for api :: "'l cf_api" and w
  by unfold_locales
    (simp_all add: redisMacOSAddRead_def redisMacOSDelRead_def redisMacOSAddWrite_def redisMacOSDelWrite_def
      redisMacOSCleanup_def freeRedisRunLoop_def cf_inv_def cf_laws_def cf_released_def runs_def Let_def)

lemma redisMacOSAttach_ok:
  assumes "ev_data (ac_ev ac) = None" and "cf_laws api w" and "CFSocketCreateWithNative api runLoop (ac_fd ac) = (l1, True)"
    and "CFSocketCreateRunLoopSource api l1 = (l2, True)"
  obtains e ac' where "redisMacOSAttach api True ac runLoop = Inr (REDIS_OK, ac')" and "ev_data (ac_ev ac') = Some e"
    and "cf_inv api w e"
  using assms that by (auto simp: redisMacOSAttach_def cf_inv_def Let_def)

text \<open>
  A failed creation of the socket object leaves the context attached to a freed run loop: the next hook touches it,
  and another attachment is refused.
\<close>

lemma redisMacOSAttach_dangling:
  assumes "ev_data (ac_ev ac) = None" and "CFSocketCreateWithNative api runLoop (ac_fd ac) = (l1, False)"
  obtains ac' where "redisMacOSAttach api True ac runLoop = Inr (REDIS_ERR, ac')"
    and "el_call AddWrite ac' = Inl UseAfterFree" and "redisMacOSAttach api' ok ac' runLoop' = Inr (REDIS_ERR, ac')"
proof -
  let ?e = "\<lparr>freed = True, cf_context = ac_id ac, cf_state = l1, cf_socketRef = False, cf_sourceRef = False\<rparr>"
  let ?ac = "ac\<lparr>ac_ev := (hooks_of (redisMacOSAddRead api) (redisMacOSDelRead api) (redisMacOSAddWrite api)
    (redisMacOSDelWrite api) (redisMacOSCleanup api) (ev_scheduleTimer (ac_ev ac)))\<lparr>ev_data := Some ?e\<rparr>\<rparr>"
  have "redisMacOSAttach api True ac runLoop = Inr (REDIS_ERR, ?ac)"
    using assms by (simp add: redisMacOSAttach_def freeRedisRunLoop_def Let_def)
  moreover have "el_call AddWrite ?ac = Inl UseAfterFree"
    by (simp add: el_call_def hooks_of_def redisMacOSAddWrite_def)
  moreover have "redisMacOSAttach api' ok ?ac runLoop' = Inr (REDIS_ERR, ?ac)"
    by (simp add: redisMacOSAttach_def)
  ultimately show thesis by (rule that)
qed

end
