(* ===== verification/AdapterQt.thy ===== *)
theory AdapterQt
  imports AsyncHooks
begin

text \<open>
  The adapter for Qt (\<open>adapters/qt.h\<close>): an object that owns a notifier per direction. The event system of Qt is the
  field \<open>qt_system\<close>; creating and deleting a \<open>QSocketNotifier\<close> are arguments, \<open>qt_read\<close> and \<open>qt_write\<close> are
  the notifiers, by the descriptor they were made for (\<open>None\<close> is a null pointer). The friends with C linkage only cast their argument and call the member function
  of the same name, so one definition stands for both.
\<close>

record 'l RedisQtAdapter = hi_block +
  qt_ctx :: "(nat \<times> int) option"
  qt_system :: 'l
  qt_read :: "int option"
  qt_write :: "int option"

record 'l qt_api =
  new_QSocketNotifier :: "'l \<Rightarrow> int \<Rightarrow> interest \<Rightarrow> 'l"
  delete_QSocketNotifier :: "'l \<Rightarrow> int \<Rightarrow> interest \<Rightarrow> 'l"

text \<open>The constructor.\<close>

definition new_RedisQtAdapter :: "'l \<Rightarrow> 'l RedisQtAdapter" where
  "new_RedisQtAdapter qt = \<lparr>freed = False, qt_ctx = None, qt_system = qt, qt_read = None, qt_write = None\<rparr>"

text \<open>A notifier is made for the descriptor of \<open>m_ctx\<close>, which must be set.\<close>

definition RedisQtAddRead :: "'l qt_api \<Rightarrow> 'l RedisQtAdapter \<Rightarrow> 'l RedisQtAdapter result" where
  "RedisQtAddRead api a = access a
     (if qt_read a \<noteq> None then Inr a
      else case qt_ctx a of None \<Rightarrow> Inl NullPointer
        | Some (i, fd) \<Rightarrow> Inr (a\<lparr>qt_read := Some fd, qt_system := new_QSocketNotifier api (qt_system a) fd Readable\<rparr>))"

definition RedisQtDelRead :: "'l qt_api \<Rightarrow> 'l RedisQtAdapter \<Rightarrow> 'l RedisQtAdapter result" where
  "RedisQtDelRead api a = access a
     (case qt_read a of None \<Rightarrow> Inr a
      | Some fd \<Rightarrow> Inr (a\<lparr>qt_read := None, qt_system := delete_QSocketNotifier api (qt_system a) fd Readable\<rparr>))"

definition RedisQtAddWrite :: "'l qt_api \<Rightarrow> 'l RedisQtAdapter \<Rightarrow> 'l RedisQtAdapter result" where
  "RedisQtAddWrite api a = access a
     (if qt_write a \<noteq> None then Inr a
      else case qt_ctx a of None \<Rightarrow> Inl NullPointer
        | Some (i, fd) \<Rightarrow> Inr (a\<lparr>qt_write := Some fd, qt_system := new_QSocketNotifier api (qt_system a) fd Writable\<rparr>))"

definition RedisQtDelWrite :: "'l qt_api \<Rightarrow> 'l RedisQtAdapter \<Rightarrow> 'l RedisQtAdapter result" where
  "RedisQtDelWrite api a = access a
     (case qt_write a of None \<Rightarrow> Inr a
      | Some fd \<Rightarrow> Inr (a\<lparr>qt_write := None, qt_system := delete_QSocketNotifier api (qt_system a) fd Writable\<rparr>))"

definition RedisQtCleanup :: "'l qt_api \<Rightarrow> 'l RedisQtAdapter \<Rightarrow> 'l RedisQtAdapter result" where
  "RedisQtCleanup api a = bindr (RedisQtDelRead api a) (RedisQtDelWrite api)"

text \<open>The slots the notifiers activate.\<close>

definition RedisQt_read :: "'l RedisQtAdapter event_hooks \<Rightarrow> client_call \<Rightarrow>
    'l RedisQtAdapter \<times> bool \<Rightarrow> ('l RedisQtAdapter \<times> bool) result" where
  "RedisQt_read t b w = access (fst w) (redisAsyncHandle t b w)"

definition RedisQt_write :: "'l RedisQtAdapter event_hooks \<Rightarrow> client_call \<Rightarrow>
    'l RedisQtAdapter \<times> bool \<Rightarrow> ('l RedisQtAdapter \<times> bool) result" where
  "RedisQt_write t b w = access (fst w) (redisAsyncHandle t b w)"

definition RedisQt_setContext :: "'l qt_api \<Rightarrow> 'l RedisQtAdapter \<Rightarrow> 'l RedisQtAdapter redisAsyncContext \<Rightarrow>
    int \<times> 'l RedisQtAdapter redisAsyncContext" where
  "RedisQt_setContext api a ac =
     (if ev_data (ac_ev ac) \<noteq> None then (REDIS_ERR, ac)
      else (REDIS_OK, ac\<lparr>ac_ev := (hooks_of (RedisQtAddRead api) (RedisQtDelRead api) (RedisQtAddWrite api)
              (RedisQtDelWrite api) (RedisQtCleanup api) (ev_scheduleTimer (ac_ev ac)))
              \<lparr>ev_data := Some (a\<lparr>qt_ctx := Some (ac_id ac, ac_fd ac)\<rparr>)\<rparr>\<rparr>))"

text \<open>
  The destructor resets \<open>ev.data\<close> of the context it was given, whether or not that context still exists; the result
  tells whether a context was written to.
\<close>

definition delete_RedisQtAdapter :: "'l RedisQtAdapter \<times> bool \<Rightarrow> ('l RedisQtAdapter \<times> bool) result" where
  "delete_RedisQtAdapter = (\<lambda>(a, alive). access a
     (if qt_ctx a \<noteq> None
      then (if alive then Inr (a\<lparr>freed := True\<rparr>, True) else Inl UseAfterFree)
      else Inr (a\<lparr>freed := True\<rparr>, False)))"

section \<open>The contract\<close>

text \<open>\<open>i\<close> and \<open>fd\<close> are the context the adapter was given and its descriptor.\<close>

definition qt_inv :: "'l qt_api \<Rightarrow> ('l \<Rightarrow> int \<Rightarrow> interest set) \<Rightarrow> nat \<Rightarrow> int \<Rightarrow> 'l RedisQtAdapter \<Rightarrow> bool" where
  "qt_inv api w i fd a \<longleftrightarrow> loop_laws (new_QSocketNotifier api) (delete_QSocketNotifier api) w \<and> \<not> freed a \<and>
     qt_ctx a = Some (i, fd) \<and>
     qt_read a \<in> {None, Some fd} \<and> qt_write a \<in> {None, Some fd} \<and>
     w (qt_system a) fd = (if qt_read a \<noteq> None then {Readable} else {}) \<union> (if qt_write a \<noteq> None then {Writable} else {})"

text \<open>After a cleanup the notifiers are deleted; the adapter object stays, and so does its pointer to the context.\<close>

definition qt_released :: "('l \<Rightarrow> int \<Rightarrow> interest set) \<Rightarrow> nat \<Rightarrow> int \<Rightarrow> 'l RedisQtAdapter \<Rightarrow> bool" where
  "qt_released w i fd a \<longleftrightarrow> \<not> freed a \<and> qt_read a = None \<and> qt_write a = None \<and> w (qt_system a) fd = {} \<and> qt_ctx a = Some (i, fd)"

lemmas qt_ops = RedisQtAddRead_def RedisQtDelRead_def RedisQtAddWrite_def RedisQtDelWrite_def RedisQtCleanup_def

abbreviation "qt_hooks api \<equiv> hooks_of (RedisQtAddRead api) (RedisQtDelRead api) (RedisQtAddWrite api)
  (RedisQtDelWrite api) (RedisQtCleanup api) None"

interpretation qt: releasing_adapter "RedisQtAddRead api" "RedisQtDelRead api" "RedisQtAddWrite api" "RedisQtDelWrite api"
    "RedisQtCleanup api" None "qt_inv api w i fd" "\<lambda>a. w (qt_system a) fd" "qt_released w i fd"
  for api :: "'l qt_api" and w i fd
proof (unfold_locales, goal_cases)
  case (1 e)
  then show ?case by (auto simp: qt_ops qt_inv_def loop_laws_def runs_def)
next
  case (2 e)
  then show ?case by (auto simp: qt_ops qt_inv_def loop_laws_def runs_def)
next
  case (3 e)
  then show ?case by (auto simp: qt_ops qt_inv_def loop_laws_def runs_def)
next
  case (4 e)
  then show ?case by (auto simp: qt_ops qt_inv_def loop_laws_def runs_def)
next
  case (6 e)
  then show ?case by (auto simp: qt_ops qt_inv_def qt_released_def loop_laws_def runs_def)
next
  case (7 e)
  then show ?case by (simp add: qt_released_def)
qed simp

lemma RedisQt_setContext_ok:
  assumes "ev_data (ac_ev ac) = None" and "loop_laws (new_QSocketNotifier api) (delete_QSocketNotifier api) w"
    and "w qt (ac_fd ac) = {}"
  obtains a ac' where "RedisQt_setContext api (new_RedisQtAdapter qt) ac = (REDIS_OK, ac')"
    and "ev_data (ac_ev ac') = Some a" and "qt_inv api w (ac_id ac) (ac_fd ac) a"
  using assms that by (auto simp: RedisQt_setContext_def new_RedisQtAdapter_def qt_inv_def)

text \<open>
  The cleanup keeps the pointer to the context: once the client has freed the context, deleting the adapter writes
  to freed memory.
\<close>

lemma delete_RedisQtAdapter_after_free:
  assumes "qt_inv api w i fd a" and "client_call_ok b" and "cb_frees b"
  shows "bindr (RedisQt_read (qt_hooks api) b (a, True)) delete_RedisQtAdapter = Inl UseAfterFree"
proof -
  have c: "Cleanup \<in> set (cb_hooks b)" using assms(2,3) by (simp add: client_call_ok_def)
  obtain a' where call: "redisAsyncHandle (qt_hooks api) b (a, True) = Inr (a', False)" and a': "qt_released w i fd a'"
    using qt.client_call [OF assms(1,2)] assms(3) c by (auto simp: runs_def)
  then show ?thesis
    using assms(1) by (simp add: RedisQt_read_def delete_RedisQtAdapter_def qt_inv_def qt_released_def)
qed

end
