(* ===== verification/AdapterGlib.thy ===== *)
theory AdapterGlib
  imports AsyncHooks
begin

unbundle bit_operations_syntax

text \<open>
  The adapter for GLib (\<open>adapters/glib.h\<close>): the container is an event source whose \<open>poll_fd\<close> the main loop polls.
  The main context with the sources is the field \<open>gl_main\<close>. The source belongs to GLib, so the cleanup does not free
  it. The tests of the hooks for a null source have no counterpart: a hook is applied to a source.
\<close>

definition G_IO_IN :: "16 word" where "G_IO_IN = 1"
definition G_IO_OUT :: "16 word" where "G_IO_OUT = 4"

record 'l RedisSource = hi_block +
  gl_ac :: nat
  gl_main :: 'l
  gl_fd :: int
  gl_events :: "16 word"
  gl_revents :: "16 word"

record 'l glib_api =
  g_main_context_wakeup :: "'l \<Rightarrow> 'l"
  g_source_add_poll :: "'l \<Rightarrow> 'l"
  g_source_remove_poll :: "'l \<Rightarrow> 'l"

definition redis_source_add_read :: "'l glib_api \<Rightarrow> 'l RedisSource \<Rightarrow> 'l RedisSource result" where
  "redis_source_add_read api e = access e
     (Inr (e\<lparr>gl_events := gl_events e OR G_IO_IN, gl_main := g_main_context_wakeup api (gl_main e)\<rparr>))"

definition redis_source_del_read :: "'l glib_api \<Rightarrow> 'l RedisSource \<Rightarrow> 'l RedisSource result" where
  "redis_source_del_read api e = access e
     (Inr (e\<lparr>gl_events := gl_events e AND NOT G_IO_IN, gl_main := g_main_context_wakeup api (gl_main e)\<rparr>))"

definition redis_source_add_write :: "'l glib_api \<Rightarrow> 'l RedisSource \<Rightarrow> 'l RedisSource result" where
  "redis_source_add_write api e = access e
     (Inr (e\<lparr>gl_events := gl_events e OR G_IO_OUT, gl_main := g_main_context_wakeup api (gl_main e)\<rparr>))"

definition redis_source_del_write :: "'l glib_api \<Rightarrow> 'l RedisSource \<Rightarrow> 'l RedisSource result" where
  "redis_source_del_write api e = access e
     (Inr (e\<lparr>gl_events := gl_events e AND NOT G_IO_OUT, gl_main := g_main_context_wakeup api (gl_main e)\<rparr>))"

definition redis_source_cleanup :: "'l glib_api \<Rightarrow> 'l RedisSource \<Rightarrow> 'l RedisSource result" where
  "redis_source_cleanup api e =
     bindr (redis_source_del_read api e) (\<lambda>e1. bindr (redis_source_del_write api e1) (\<lambda>e2.
       if 0 \<le> gl_fd e2 then Inr (e2\<lparr>gl_main := g_source_remove_poll api (gl_main e2), gl_fd := -1\<rparr>) else Inr e2))"

text \<open>The timeout \<open>prepare\<close> asks for, and whether events are pending.\<close>

definition redis_source_prepare :: "'l RedisSource \<Rightarrow> (int \<times> bool) result" where
  "redis_source_prepare e = access e (Inr (-1, gl_events e AND gl_revents e \<noteq> 0))"

definition redis_source_check :: "'l RedisSource \<Rightarrow> bool result" where
  "redis_source_check e = access e (Inr (gl_events e AND gl_revents e \<noteq> 0))"

text \<open>The writing side is served first; \<open>user\<close> is the callback of the program, if it set one.\<close>

definition redis_source_dispatch :: "'l RedisSource event_hooks \<Rightarrow> client_call \<Rightarrow> client_call \<Rightarrow> bool option \<Rightarrow>
    'l RedisSource \<times> bool \<Rightarrow> (bool \<times> 'l RedisSource \<times> bool) result" where
  "redis_source_dispatch t onRead onWrite user w = access (fst w)
     (bindr
       (if gl_revents (fst w) AND G_IO_OUT \<noteq> 0
        then bindr (redisAsyncHandle t onWrite w) (\<lambda>(e1, alive). access e1
          (Inr (e1\<lparr>gl_revents := gl_revents e1 AND NOT G_IO_OUT\<rparr>, alive)))
        else Inr w) (\<lambda>w1. access (fst w1) (bindr
       (if gl_revents (fst w1) AND G_IO_IN \<noteq> 0
        then bindr (redisAsyncHandle t onRead w1) (\<lambda>(e2, alive). access e2
          (Inr (e2\<lparr>gl_revents := gl_revents e2 AND NOT G_IO_IN\<rparr>, alive)))
        else Inr w1) (\<lambda>w2.
     Inr (case user of None \<Rightarrow> True | Some r \<Rightarrow> r, w2)))))"

definition redis_source_finalize :: "'l glib_api \<Rightarrow> 'l RedisSource \<Rightarrow> 'l RedisSource result" where
  "redis_source_finalize api e = access e
     (if 0 \<le> gl_fd e then Inr (e\<lparr>gl_main := g_source_remove_poll api (gl_main e), gl_fd := -1\<rparr>) else Inr e)"

text \<open>
  \<open>g_source_new\<close> succeeds or not. The adapter does not look at \<open>ev.data\<close>: a second source replaces the first one.
\<close>

definition redis_source_new :: "'l glib_api \<Rightarrow> bool \<Rightarrow> 'l \<Rightarrow> 'l RedisSource redisAsyncContext \<Rightarrow>
    'l RedisSource option \<times> 'l RedisSource redisAsyncContext" where
  "redis_source_new api source_ok main ac =
     (if \<not> source_ok then (None, ac)
      else let e = \<lparr>freed = False, gl_ac = ac_id ac, gl_main = g_source_add_poll api main, gl_fd = ac_fd ac,
                    gl_events = 0, gl_revents = 0\<rparr>
           in (Some e, ac\<lparr>ac_ev := (hooks_of (redis_source_add_read api) (redis_source_del_read api)
                 (redis_source_add_write api) (redis_source_del_write api) (redis_source_cleanup api)
                 (ev_scheduleTimer (ac_ev ac)))\<lparr>ev_data := Some e\<rparr>\<rparr>))"

section \<open>The contract\<close>

definition gl_watched :: "'l RedisSource \<Rightarrow> interest set" where
  "gl_watched e = (if gl_events e AND G_IO_IN \<noteq> 0 then {Readable} else {}) \<union>
     (if gl_events e AND G_IO_OUT \<noteq> 0 then {Writable} else {})"

text \<open>The hooks leave the returned events \<open>rv\<close> alone.\<close>

definition gl_inv :: "16 word \<Rightarrow> 'l RedisSource \<Rightarrow> bool" where
  "gl_inv rv e \<longleftrightarrow> \<not> freed e \<and> gl_revents e = rv \<and> gl_events e \<in> {0, G_IO_IN, G_IO_OUT, G_IO_IN OR G_IO_OUT}"

text \<open>After the cleanup the source polls nothing, and it neither prepares nor checks as ready.\<close>

definition gl_released :: "16 word \<Rightarrow> 'l RedisSource \<Rightarrow> bool" where
  "gl_released rv e \<longleftrightarrow> \<not> freed e \<and> gl_revents e = rv \<and> gl_events e = 0 \<and> gl_fd e < 0"

lemma gl_flag_values:
  "G_IO_IN \<noteq> 0" "G_IO_OUT \<noteq> 0" "G_IO_IN OR G_IO_OUT \<noteq> 0"
  "0 AND G_IO_IN = 0" "G_IO_IN AND G_IO_IN \<noteq> 0" "G_IO_OUT AND G_IO_IN = 0" "(G_IO_IN OR G_IO_OUT) AND G_IO_IN \<noteq> 0"
  "0 AND G_IO_OUT = 0" "G_IO_IN AND G_IO_OUT = 0" "G_IO_OUT AND G_IO_OUT \<noteq> 0" "(G_IO_IN OR G_IO_OUT) AND G_IO_OUT \<noteq> 0"
  "0 AND NOT G_IO_IN = 0" "G_IO_IN AND NOT G_IO_IN = 0" "G_IO_OUT AND NOT G_IO_IN = G_IO_OUT"
  "(G_IO_IN OR G_IO_OUT) AND NOT G_IO_IN = G_IO_OUT"
  "0 AND NOT G_IO_OUT = 0" "G_IO_IN AND NOT G_IO_OUT = G_IO_IN" "G_IO_OUT AND NOT G_IO_OUT = 0"
  "(G_IO_IN OR G_IO_OUT) AND NOT G_IO_OUT = G_IO_IN"
  "0 OR G_IO_IN = G_IO_IN" "G_IO_IN OR G_IO_IN = G_IO_IN" "G_IO_OUT OR G_IO_IN = G_IO_IN OR G_IO_OUT"
  "(G_IO_IN OR G_IO_OUT) OR G_IO_IN = G_IO_IN OR G_IO_OUT" "0 OR G_IO_OUT = G_IO_OUT"
  "G_IO_OUT OR G_IO_OUT = G_IO_OUT" "(G_IO_IN OR G_IO_OUT) OR G_IO_OUT = G_IO_IN OR G_IO_OUT"
  by (simp_all add: G_IO_IN_def G_IO_OUT_def)

lemma gl_cases:
  assumes "gl_inv rv e"
  obtains "gl_events e = 0" | "gl_events e = G_IO_IN" | "gl_events e = G_IO_OUT" | "gl_events e = G_IO_IN OR G_IO_OUT"
  using assms by (auto simp: gl_inv_def)

lemmas gl_ops = redis_source_add_read_def redis_source_del_read_def redis_source_add_write_def
  redis_source_del_write_def redis_source_cleanup_def

abbreviation "gl_hooks api \<equiv> hooks_of (redis_source_add_read api) (redis_source_del_read api)
  (redis_source_add_write api) (redis_source_del_write api) (redis_source_cleanup api) None"

interpretation gl: releasing_adapter "redis_source_add_read api" "redis_source_del_read api" "redis_source_add_write api"
    "redis_source_del_write api" "redis_source_cleanup api" None "gl_inv rv" gl_watched "gl_released rv"
  for api :: "'l glib_api" and rv
proof (unfold_locales, goal_cases)
  case (1 e)
  then show ?case by (cases rule: gl_cases [OF 1]) (auto simp: gl_ops gl_inv_def gl_watched_def gl_flag_values runs_def)
next
  case (2 e)
  then show ?case by (cases rule: gl_cases [OF 2]) (auto simp: gl_ops gl_inv_def gl_watched_def gl_flag_values runs_def)
next
  case (3 e)
  then show ?case by (cases rule: gl_cases [OF 3]) (auto simp: gl_ops gl_inv_def gl_watched_def gl_flag_values runs_def)
next
  case (4 e)
  then show ?case by (cases rule: gl_cases [OF 4]) (auto simp: gl_ops gl_inv_def gl_watched_def gl_flag_values runs_def)
next
  case (6 e)
  then show ?case by (cases rule: gl_cases [OF 6]) (auto simp: gl_ops gl_inv_def gl_released_def gl_flag_values runs_def)
next
  case (7 e)
  then show ?case by (simp add: gl_released_def gl_watched_def)
qed simp

lemma gl_released_not_ready:
  "gl_released rv e \<Longrightarrow> redis_source_prepare e = Inr (-1, False) \<and> redis_source_check e = Inr False \<and>
     redis_source_finalize api e = Inr e"
  by (simp add: gl_released_def redis_source_prepare_def redis_source_check_def redis_source_finalize_def)

text \<open>
  The dispatcher serves the read side after the write side without asking whether the context is still there: a
  write that disconnects, with both directions ready, makes it use the freed context.
\<close>

lemma redis_source_uses_freed_context:
  assumes "gl_inv (G_IO_IN OR G_IO_OUT) e" and "client_call_ok bW" and "cb_frees bW"
  shows "redis_source_dispatch (gl_hooks api) bR bW user (e, True) =
    Inl UseAfterFree"
proof -
  let ?t = "gl_hooks api"
  have "Cleanup \<in> set (cb_hooks bW)" using assms(2,3) by (simp add: client_call_ok_def)
  then obtain q where q: "redisAsyncHandle ?t bW (e, True) = Inr (q, False)" "gl_released (G_IO_IN OR G_IO_OUT) q"
    using gl.client_call [OF assms(1,2), of api] assms(3) by (auto simp: runs_def)
  have late: "redisAsyncHandle ?t bR (q', False) = Inl UseAfterFree" for q'
    by (simp add: redisAsyncHandle_def)
  show ?thesis
    using assms(1) q(2) by (simp add: redis_source_dispatch_def gl_inv_def gl_released_def gl_flag_values q(1) late)
qed

end
