(* ===== verification/AdapterDemo.thy ===== *)
theory AdapterDemo
  imports Sds HiAlloc HiredisOptions AdapterAe AdapterLibev AdapterRedisModule AdapterLibuv AdapterLibevent AdapterSdevent AdapterPoll
    AdapterLibhv AdapterIvykis AdapterMacosx AdapterQt AdapterGlib
begin

text \<open>
  Concrete event loops, containers and strings at which the properties of the hiredis headers are applied: the state
  of a loop is the set of interests it watches. Containers with a handler are given outside and inside it.
\<close>

definition demo_ae_api :: "(int \<Rightarrow> interest set) ae_api" where
  "demo_ae_api = \<lparr>aeCreateFileEvent = (\<lambda>l fd i. l(fd := insert i (l fd))),
     aeDeleteFileEvent = (\<lambda>l fd i. l(fd := l fd - {i}))\<rparr>"

definition demo_ae :: "(int \<Rightarrow> interest set) redisAeEvents" where
  "demo_ae = \<lparr>freed = False, ae_context = 1, ae_loop = (\<lambda>_. {}), ae_fd = 5, ae_reading = False, ae_writing = False\<rparr>"

lemma demo_ae_inv: "ae_inv demo_ae_api (\<lambda>l. l) demo_ae"
  by (simp add: ae_inv_def loop_laws_def demo_ae_api_def demo_ae_def)

text \<open>A host for libevent's event: the mask assigned and the interests watched.\<close>

definition demo_event_api :: "(16 word \<times> interest set) event_api" where
  "demo_event_api = \<lparr>event_new = (\<lambda>l fd m. (m, {})), event_del = (\<lambda>l. (fst l, {})), event_assign = (\<lambda>l fd m. (m, {})),
     event_add = (\<lambda>l tv. (fst l, le_interests (fst l))), event_free = (\<lambda>l. (fst l, {}))\<rparr>"

definition demo_libevent :: "(16 word \<times> interest set) redisLibeventEvents" where
  "demo_libevent = \<lparr>freed = False, le_context = Some 1, le_fd = 5, le_ev = True, le_base = (EV_READ, {Readable}),
     le_tv = \<lparr>tv_sec = 0, tv_usec = 0\<rparr>, le_flags = EV_READ, le_state = 0\<rparr>"

lemma demo_libevent_inv: "le_inv False demo_event_api snd fst demo_libevent"
  "le_inv True demo_event_api snd fst (demo_libevent\<lparr>le_state := REDIS_LIBEVENT_ENTERED\<rparr>)"
  by (simp_all add: le_inv_def event_laws_def demo_event_api_def demo_libevent_def le_interests_values)

text \<open>libhv: the events of the io object and the timers.\<close>

definition demo_hv_api :: "(interest set \<times> nat set) hv_api" where
  "demo_hv_api = \<lparr>hio_add = (\<lambda>l i. (insert i (fst l), snd l)), hio_del = (\<lambda>l i. (fst l - {i}, snd l)),
     hio_close = (\<lambda>l. ({}, snd l)), hio_events = fst, htimer_add = (\<lambda>l ms. ((fst l, insert 0 (snd l)), 0)),
     htimer_reset = (\<lambda>l i ms. l), htimer_del = (\<lambda>l i. (fst l, snd l - {i}))\<rparr>"

definition demo_hv :: "(interest set \<times> nat set) redisLibhvEvents" where
  "demo_hv = \<lparr>freed = False, hv_loop = ({Readable, Writable}, {}), hv_userdata = Some 1, hv_timer = None\<rparr>"

lemma demo_hv_inv: "hv_inv demo_hv_api snd demo_hv"
  by (simp add: hv_inv_def hv_laws_def demo_hv_api_def demo_hv_def)

text \<open>libev: the interests per descriptor; a timer runs while its repeat value is positive.\<close>

definition demo_lev_api :: "(int \<Rightarrow> interest set) ev_api" where
  "demo_lev_api = \<lparr>ev_io_start = (\<lambda>l x. l(io_fd x := insert (io_events x) (l (io_fd x)))),
     ev_io_stop = (\<lambda>l x. l(io_fd x := l (io_fd x) - {io_events x})),
     ev_timer_again = (\<lambda>l t. (l, t\<lparr>timer_active := 0 < timer_repeat t\<rparr>)),
     ev_timer_stop = (\<lambda>l t. (l, t\<lparr>timer_active := False\<rparr>))\<rparr>"

definition demo_lev :: "(int \<Rightarrow> interest set) redisLibevEvents" where
  "demo_lev = \<lparr>freed = False, lev_context = 1, lev_loop = (\<lambda>_. {}), lev_reading = False, lev_writing = False,
     lev_rev = \<lparr>io_fd = 5, io_events = Readable\<rparr>, lev_wev = \<lparr>io_fd = 5, io_events = Writable\<rparr>,
     lev_timer = \<lparr>timer_active = False, timer_data = False, timer_repeat = 0\<rparr>\<rparr>"

lemma demo_lev_inv: "lev_inv demo_lev_api (\<lambda>l. l) demo_lev"
  by (simp add: lev_inv_def lev_fd_def ev_laws_def demo_lev_api_def demo_lev_def)

text \<open>A Redis server as the host of a module: the interests per descriptor, and the timers that are pending.\<close>

definition demo_mod_api :: "((int \<Rightarrow> interest set) \<times> nat set) module_api" where
  "demo_mod_api = \<lparr>RedisModule_EventLoopAdd = (\<lambda>l fd i. ((fst l)(fd := insert i (fst l fd)), snd l)),
     RedisModule_EventLoopDel = (\<lambda>l fd i. ((fst l)(fd := fst l fd - {i}), snd l)),
     RedisModule_CreateTimer = (\<lambda>l ms. ((fst l, insert 7 (snd l)), 7)),
     RedisModule_StopTimer = (\<lambda>l i. (fst l, snd l - {i}))\<rparr>"

definition demo_mod :: "((int \<Rightarrow> interest set) \<times> nat set) redisModuleEvents" where
  "demo_mod = \<lparr>freed = False, mod_context = 1, mod_server = (\<lambda>_. {}, {}), mod_fd = 5, mod_reading = False,
     mod_writing = False, mod_timer_active = False, mod_timer_id = 0\<rparr>"

lemma demo_mod_inv: "mod_inv demo_mod_api fst snd demo_mod"
  by (simp add: mod_inv_def module_laws_def loop_laws_def demo_mod_api_def demo_mod_def)

text \<open>libuv: the events the poll handle is started for.\<close>

definition demo_uv_api :: "interest set uv_api" where
  "demo_uv_api = \<lparr>uv_poll_start = (\<lambda>l m. uv_interests m), uv_poll_stop = (\<lambda>l. {}), uv_timer_init = (\<lambda>l. (l, 0)),
     uv_timer_start = (\<lambda>l ms. l), uv_close_timer = (\<lambda>l. l), uv_close_handle = (\<lambda>l. {})\<rparr>"

definition demo_uv :: "interest set redisLibuvEvents" where
  "demo_uv = \<lparr>freed = False, uv_context = Some 1, uv_loop = {}, uv_handle_data = True, uv_timer_data = False, uv_events = 0\<rparr>"

lemma demo_uv_inv: "uv_inv demo_uv_api (\<lambda>l. l) demo_uv"
  by (simp add: uv_inv_def uv_laws_def demo_uv_api_def demo_uv_def uv_interests_def)

text \<open>sd-event: the events of the source, whether the timer source exists, and the references to the loop.\<close>

definition demo_sd_api :: "(interest set \<times> bool \<times> nat) sd_api" where
  "demo_sd_api = \<lparr>sd_event_ref = (\<lambda>(w, a, r). (w, a, r + 1)), sd_event_unref = (\<lambda>(w, a, r). (w, a, r - 1)),
     sd_event_add_io = (\<lambda>(w, a, r) fd m. ((sd_interests m, a, r), True)),
     sd_event_source_set_io_events = (\<lambda>(w, a, r) m. (sd_interests m, a, r)),
     sd_disable_unref_fd = (\<lambda>(w, a, r). ({}, a, r)),
     sd_event_add_time_relative = (\<lambda>(w, a, r) us. ((w, True, r), True)),
     sd_event_source_set_time_relative = (\<lambda>l us. l),
     sd_disable_unref_timer = (\<lambda>(w, a, r). (w, False, r))\<rparr>"

definition demo_sd :: "(interest set \<times> bool \<times> nat) redisLibsdeventEvents" where
  "demo_sd = \<lparr>freed = False, sd_context = Some 1, sd_loop = ({}, False, 1), sd_fdSource = False, sd_timerSource = False,
     sd_fd = 5, sd_flags = 0, sd_state = 0\<rparr>"

lemma demo_sd_inv: "sd_inv False demo_sd_api fst (\<lambda>l. fst (snd l)) (\<lambda>l. snd (snd l)) 0 demo_sd"
  "sd_inv True demo_sd_api fst (\<lambda>l. fst (snd l)) (\<lambda>l. snd (snd l)) 0 (demo_sd\<lparr>sd_state := REDIS_LIBSDEVENT_ENTERED\<rparr>)"
  by (simp_all add: sd_inv_def sd_holds_def sd_laws_def demo_sd_api_def demo_sd_def sd_interests_values case_prod_beta)

text \<open>A poll container, with a \<open>poll\<close> that finds nothing.\<close>

definition demo_poll_env :: poll_env where
  "demo_poll_env = \<lparr>POLLIN = 1, POLLOUT = 4, POLLERR = 8,
     pl_poll = (\<lambda>fd m t. \<lparr>pr_ns = 0, pr_revents = 0, pr_eintr = False\<rparr>), pl_now = GetTimeOfDay \<lparr>tv_sec = 9, tv_usec = 0\<rparr>\<rparr>"

definition demo_pe :: redisPollEvents where
  "demo_pe = \<lparr>freed = False, pe_context = 1, pe_fd = 5, pe_reading = False, pe_writing = False, pe_in_tick = False,
     pe_deleted = False, pe_deadline = 0\<rparr>"

lemma demo_pe_inv: "pe_inv False demo_pe" "pe_inv True (demo_pe\<lparr>pe_in_tick := True\<rparr>)"
  by (simp_all add: pe_inv_def demo_pe_def)

text \<open>ivykis: the handlers that are set, per descriptor.\<close>

definition demo_iv_api :: "(int \<Rightarrow> interest set) iv_api" where
  "demo_iv_api = \<lparr>
     iv_fd_set_handler_in = (\<lambda>l fd b. l(fd := if b then insert Readable (l fd) else l fd - {Readable})),
     iv_fd_set_handler_out = (\<lambda>l fd b. l(fd := if b then insert Writable (l fd) else l fd - {Writable})),
     iv_fd_register = (\<lambda>l fd a b. l(fd := (if a then {Readable} else {}) \<union> (if b then {Writable} else {}))),
     iv_fd_unregister = (\<lambda>l fd. l(fd := {}))\<rparr>"

definition demo_iv :: "(int \<Rightarrow> interest set) redisIvykisEvents" where
  "demo_iv = \<lparr>freed = False, iv_context = 1, iv_loop = (\<lambda>_. {Readable, Writable}), iv_fd = 5\<rparr>"

lemma demo_iv_inv: "iv_inv demo_iv_api (\<lambda>l. l) demo_iv"
  by (simp add: iv_inv_def iv_laws_def demo_iv_api_def demo_iv_def)

text \<open>Core Foundation: the callbacks the socket object is enabled for.\<close>

definition demo_cf_api :: "interest set cf_api" where
  "demo_cf_api = \<lparr>CFSocketCreateWithNative = (\<lambda>l fd. ({Readable, Writable}, True)), CFSocketCreateRunLoopSource = (\<lambda>l. (l, True)),
     CFRunLoopAddSource = (\<lambda>l. l), CFSocketEnableCallBacks = (\<lambda>l i. insert i l),
     CFSocketDisableCallBacks = (\<lambda>l i. l - {i}), CFRunLoopSourceInvalidate = (\<lambda>l. l), CFSocketInvalidate = (\<lambda>l. {})\<rparr>"

definition demo_cf :: "interest set RedisRunLoop" where
  "demo_cf = \<lparr>freed = False, cf_context = 1, cf_state = {Readable, Writable}, cf_socketRef = True, cf_sourceRef = True\<rparr>"

lemma demo_cf_inv: "cf_inv demo_cf_api (\<lambda>l. l) demo_cf"
  by (simp add: cf_inv_def cf_laws_def demo_cf_api_def demo_cf_def)

text \<open>Qt: the notifiers that exist, per descriptor.\<close>

definition demo_qt_api :: "(int \<Rightarrow> interest set) qt_api" where
  "demo_qt_api = \<lparr>new_QSocketNotifier = (\<lambda>l fd i. l(fd := insert i (l fd))),
     delete_QSocketNotifier = (\<lambda>l fd i. l(fd := l fd - {i}))\<rparr>"

definition demo_qt :: "(int \<Rightarrow> interest set) RedisQtAdapter" where
  "demo_qt = \<lparr>freed = False, qt_ctx = Some (1, 5), qt_system = (\<lambda>_. {}), qt_read = None, qt_write = None\<rparr>"

lemma demo_qt_inv: "qt_inv demo_qt_api (\<lambda>l. l) 1 5 demo_qt"
  by (simp add: qt_inv_def loop_laws_def demo_qt_api_def demo_qt_def)

text \<open>GLib: the number of times the main context was woken up, and of the descriptors it polls for sources.\<close>

definition demo_gl_api :: "(nat \<times> nat) glib_api" where
  "demo_gl_api = \<lparr>g_main_context_wakeup = (\<lambda>(k, n). (k + 1, n)), g_source_add_poll = (\<lambda>(k, n). (k, n + 1)),
     g_source_remove_poll = (\<lambda>(k, n). (k, n - 1))\<rparr>"

definition demo_gl :: "(nat \<times> nat) RedisSource" where
  "demo_gl = \<lparr>freed = False, gl_ac = 1, gl_main = (0, 1), gl_fd = 5, gl_events = 0, gl_revents = 0\<rparr>"

lemma demo_gl_inv: "gl_inv 0 demo_gl"
  by (simp add: gl_inv_def demo_gl_def)

text \<open>
  A life: the client asks for both directions, takes the read side back, and cleans up. Whatever was watched before,
  the write side is watched before the cleanup.
\<close>

definition hooks_life :: "'e event_hooks \<Rightarrow> ('e \<Rightarrow> bool) \<Rightarrow> ('e \<Rightarrow> interest set) \<Rightarrow> ('e \<Rightarrow> bool) \<Rightarrow> 'e \<Rightarrow> bool" where
  "hooks_life t good watched released e \<longleftrightarrow>
     runs (run_hooks t [AddRead, AddWrite, DelRead] e) (\<lambda>e'. good e' \<and> watched e' = {Writable}) \<and>
     runs (run_hooks t [AddRead, AddWrite, DelRead, Cleanup] e) (\<lambda>e'. released e' \<and> watched e' = {})"

lemma hooks_life_ok:
  assumes "implements_hooks t good watched released" and "good e"
  shows "hooks_life t good watched released e"
proof -
  have "insert Writable (insert Readable W) - {Readable} = {Writable}" for W
    by (auto intro: interest.exhaust)
  then have "foldl requested (watched e) [AddRead, AddWrite, DelRead] = {Writable}" by simp
  then show ?thesis
    using implements_hooksD [OF assms, of "[AddRead, AddWrite, DelRead]"] by (simp add: hooks_life_def)
qed

text \<open>A client that disconnects: the cleanup hook, and the context freed.\<close>

definition demo_disconnect :: client_call where
  "demo_disconnect = \<lparr>cb_hooks = [DelRead, Cleanup], cb_frees = True\<rparr>"

definition demo_reply :: client_call where
  "demo_reply = \<lparr>cb_hooks = [AddRead, AddWrite, DelRead], cb_frees = False\<rparr>"

lemma demo_calls_ok: "client_call_ok demo_disconnect" "client_call_ok demo_reply"
  by (simp_all add: client_call_ok_def demo_disconnect_def demo_reply_def)

text \<open>A string of type 8 with three characters and room for ten, and one of type 16 with the padding of MSVC.\<close>

definition demo_sds8 :: "byte list" where
  "demo_sds8 = [3, 10, 1, 97, 98, 99, 0, 0, 0, 0, 0, 0, 0, 0]"

definition demo_sds16 :: "byte list" where
  "demo_sds16 = [3, 0, 44, 1, 0, 2, 97, 98, 99, 0]"

lemma demo_sds_valid:
  "sds_valid True demo_sds8 3" "sds_type demo_sds8 3 = SDS_TYPE_8"
  "sds_valid False demo_sds16 6" "sds_type demo_sds16 6 = SDS_TYPE_16"
  by (simp_all add: sds_valid_def sds_type_def sds_consts hdr_in_def sizeof_sdshdr_def demo_sds8_def demo_sds16_def Let_def)

end
