(* ===== verification/Spec2Isabelle.thy ===== *)
theory Spec2Isabelle
  imports DemoWait DemoDelivery LoginFlow NetworkSteps CloseRace Shutdown AdapterDemo
begin

text \<open>
  A verification development for the IOCP chat server (\<open>src/IOCPChatServer\<close>): a Windows server in C++ that
  accepts TCP clients through an I/O completion port, assembles their packets, checks logins against
  Redis, keeps chat rooms, and logs activities in MySQL.

  \<^bold>\<open>How the program is built.\<close> Three groups of threads share the state. The workers of the completion port
  (\<open>IOCP.h\<close>, \<open>ClientSession.h\<close>) accept connections, receive and send; through the virtual methods of
  \<open>ChatServer.h\<close> a received segment goes into the ring buffer of the slot's user object (\<open>User.h\<close>,
  \<open>RingBuffer.h\<close>), and a task \<open>(slot, generation)\<close> goes into \<open>mWriteBuffer\<close> of the packet manager;
  connections and disconnections go into \<open>mSystemWriteBuffer\<close>. The logic thread
  (\<open>PacketManager::ProcessPacket\<close>) swaps both buffers, takes the packets of each task out of the ring buffer,
  and dispatches them to handlers, which change users (\<open>UserManager.h\<close>), rooms (\<open>Room.h\<close>, \<open>RoomManager.h\<close>),
  send packets back through \<open>SendPacketFunc\<close>, and queue work for the two database threads
  (\<open>RedisManager.h\<close>, \<open>MysqlManager.h\<close>). The answers of Redis come back over a response queue that the
  logic thread drains.

  \<^bold>\<open>Where it is modelled.\<close> A pointer to a pooled object is the object's index; an operation that changes
  objects returns them; a C++ fault (an access out of bounds, a null dereference, \<open>front()\<close> on an empty
  queue, the invalid-parameter handler of \<open>strcpy_s\<close>) is an \<open>Inl\<close> value of the type \<open>result\<close>; machine integers
  are words of their width, and \<open>int\<close> for the signed counters the code only increments and decrements.
  \<^item> \<open>Prelude\<close>: faults, checked memory, little-endian integers, C strings, reachability (\<open>reach\<close>) and the
    locale \<open>invariant_system\<close> for invariants of step relations.
  \<^item> \<open>Packet\<close>: \<open>Packet.h\<close>, \<open>ErrorCode.h\<close>: identifiers, packed structures as bytes, the packets the server sends.
  \<^item> \<open>ByteFifo\<close> (locale \<open>byte_fifo\<close>), \<open>RingBuffer\<close> (\<open>RingBuffer.h\<close>): the ring buffer refines a bounded queue of
    bytes; the locale's facts are used through the interpretation on the ring buffer.
  \<^item> \<open>User\<close> (\<open>User.h\<close>): a connection slot, \<open>SetPacketData\<close> and the framing in \<open>GetPacket\<close>; \<open>split_stream\<close> is the
    specification of framing.
  \<^item> \<open>LoginRegistry\<close> (locale), \<open>UserManager\<close> (\<open>UserManager.h\<close>): the slots and the dictionary of names.
  \<^item> \<open>Room\<close>, \<open>RoomManager\<close> (\<open>Room.h\<close>, \<open>RoomManager.h\<close>): membership, the counter, the broadcast.
  \<^item> \<open>TaskQueue\<close> (locale), \<open>RedisManager\<close> (\<open>RedisManager.h\<close>, \<open>RedisTaskDefine.h\<close>), \<open>MySQLManager\<close> (\<open>MysqlManager.h\<close>,
    \<open>MySQLTaskDefine.h\<close>): the queues, the worker threads' turns, the connection, the shutdown. \<open>End\<close> joins the threads that
    \<open>Run\<close> has started: without one nothing more is taken from a queue; the program starts one per manager, and that
    one is modelled.
  \<^item> \<open>PacketManager\<close> (\<open>PacketManager.h/.cpp\<close>): every handler and the dispatch table; \<open>PacketManagerInv\<close>: the
    invariant \<open>pm_inv\<close> and that each handler keeps it; \<open>Handlers\<close>: what each handler does, by branch;
    \<open>LoginNames\<close>: names of logged-in users are unique as long as only genuine logins are admitted.
  \<^item> \<open>LogicThread\<close>: the loop of the logic thread as a function; \<open>ServerSteps\<close>: the same thread as a step relation
    interleaved with the network and database threads at the granularity of the code's mutexes, with its
    invariant; \<open>Framing\<close>: the packets handled are those of the received stream.
  \<^item> \<open>CondVar\<close> (locale \<open>locked_reason\<close>): a wait on a condition variable as testing, sleeping and being notified; \<open>WakeUp\<close>: the
    waits of the logic thread, the Redis worker and the MySQL worker, over the same steps as \<open>ServerSteps\<close>.
  \<^item> \<open>Disconnect\<close>, \<open>LoginFlow\<close>: what a disconnection leaves behind; a login from request to verdict.
  \<^item> \<open>ObjectPool\<close> (\<open>ObjectPool.h\<close>, \<open>ObjectMemoryPool.h\<close>), \<open>ClientSession\<close> (\<open>ClientSession.h\<close>, \<open>Define.h\<close>),
    \<open>IOCompletionPort\<close> (\<open>IOCP.h\<close>): send blocks, sessions, completions, the timeout thread; \<open>SlotAccounting\<close>: where
    each slot is, whatever calls fail; \<open>NetworkSteps\<close>: the network layer as a step relation, with a flag \<open>good\<close> for runs in which
    the calls that hand a slot over and those that re-arm a receive succeed (without the flag they may fail at any time); \<open>AcceptSupply\<close>: how many accepts are posted;
    \<open>CloseRace\<close>: any number of workers in \<open>CloseSocket\<close>, with the sets of those that have passed its test and closed; \<open>Shutdown\<close>: how the workers end.
  \<^item> \<open>ChatServer\<close> (\<open>ChatServer.h\<close>, \<open>main.cpp\<close>): how the two halves are joined; \<open>WholeServer\<close>: both halves and the
    database workers as one step relation, with the invariants of both; \<open>LogicRun\<close>, \<open>Delivery\<close>: a chat message from the
    received segment to the send queues of the sessions.
  \<^item> The headers of hiredis that hold code (\<open>include/hiredis\<close>): \<open>Sds\<close> (\<open>sds.h\<close>, the string header as bytes, in the packed
    layout and in the padded one of MSVC), \<open>HiAlloc\<close> (\<open>alloc.h\<close>), \<open>HiredisOptions\<close> (the option macros of \<open>hiredis.h\<close>).
  \<^item> \<open>AsyncHooks\<close> (\<open>async.h\<close>; locale \<open>redis_adapter\<close>): the hooks by which the asynchronous client drives an event loop,
    containers that can be freed, the contract of an adapter, and its extension \<open>releasing_adapter\<close> by which a cleanup leaves nothing watched (sd-event inside its handler
    is the one exception, see \<open>sd_inside\<close>); \<open>AdapterAe\<close>, \<open>AdapterLibev\<close>, \<open>AdapterRedisModule\<close>,
    \<open>AdapterLibuv\<close>, \<open>AdapterLibevent\<close>, \<open>AdapterSdevent\<close>, \<open>AdapterPoll\<close>, \<open>AdapterLibhv\<close>, \<open>AdapterIvykis\<close>, \<open>AdapterMacosx\<close>,
    \<open>AdapterQt\<close>, \<open>AdapterGlib\<close> (\<open>adapters/*.h\<close>): one adapter each, with the interpretation of the contract and what its
    event handlers do when a callback disconnects; \<open>AdapterDemo\<close>: a concrete loop and container for every adapter, strings.
  \<^item> \<open>Demo\<close>, \<open>DemoRun\<close>, \<open>DemoWait\<close>, \<open>DemoDelivery\<close>: concrete states and a complete run (login, answer of Redis, entering a room) at which the
    properties below are applied.

  \<^bold>\<open>Environment.\<close> What the program calls and does not contain is an argument of the definitions: the lookup
  in Redis (\<open>redis_get\<close>), uninitialised memory (\<open>pad\<close>, \<open>user_memory\<close>), the answers of Winsock (the record
  \<open>winsock\<close>), of the MySQL client library (the record \<open>mysql_env\<close>), of \<open>GetQueuedCompletionStatusEx\<close> (the type
  \<open>gqcs\<close>). Nothing is assumed about them, except that \<open>CreateIoCompletionPort\<close> does not return \<open>INVALID_HANDLE_VALUE\<close> in
  the steps of \<open>NetworkSteps\<close>, and where a property says so (\<open>good\<close> above). \<open>redis_get\<close> is one function for a run: the accounts
  do not change during it, and a lookup that fails is an absent key, as in the code.
  An event loop is a record of its functions; what the adapters rely on is a predicate of that record (\<open>loop_laws\<close>,
  \<open>uv_laws\<close>, \<open>event_laws\<close>, ...), part of the adapter's invariant. A call of the asynchronous client from a handler is the
  list of hooks it calls (\<open>client_call\<close>), any list that cleans up at most once and last (\<open>client_call_ok\<close>).
  Calls into the system are logged in order (\<open>calls\<close>), packets sent by handlers in \<open>sent\<close>, rows written in a list.

  \<^bold>\<open>Bounds and termination.\<close> The sizes are those of the code: a ring buffer of 8096 bytes, 250 rooms of 8
  members, 100 posted accepts, four send blocks per slot. The loop over the packets of a task (\<open>drain\<close>) is a
  partial function in the option monad, since it need not end: \<open>packet_loop_terminates\<close> says when it does,
  \<open>zero_length_never_returns\<close> when it does not. The workers' shutdown loops end because every turn takes a
  task; there is no fuel. The generation of a user is a 32-bit word that wraps around.

  \<^bold>\<open>What is shown.\<close> Below, in order of importance: invariants of all reachable states of the server (who is in
  which room, whom packets are sent to, that the two halves never make each other fault, names), a chat message
  from the segment to the send queues, the assembly of packets from a stream, faults and their absence, the function of every handler, the life of a slot across connections, the byte queue and the
  waits of the threads, the database workers up to their shutdown, the network layer (order of sends,
  conservation of send blocks and slots, the supply of accepts, timeouts, the end of the workers), and the headers of hiredis. Several properties state defects of the code exactly;
  their texts say so.

  \<^bold>\<open>Not modelled.\<close> \<open>CrashDump.h\<close> (writes a minidump), console output, the set-up of the Redis connection, and
  what the C++ memory model says of the unsynchronised accesses between worker threads: each operation of the
  network layer is one step here, except \<open>CloseSocket\<close> in \<open>CloseRace\<close>, whose test and action are two. The vendored libraries \<open>thirdparty/hiredis\<close>,
  \<open>thirdparty/RedisCpp-hiredis\<close>, \<open>thirdparty/plog\<close> are third-party code that the server only calls; of the installed
  headers of hiredis the declarations (most of \<open>hiredis.h\<close>, \<open>read.h\<close>, \<open>async.h\<close>, \<open>sockcompat.h\<close>) have no code. In the adapters,
  \<open>double\<close>s are exact reals, and casts and macros that only silence the compiler are left out.
\<close>

section \<open>Properties\<close>

text \<open>
  C1. In every state the server reaches, whatever the clients send and however the network threads and the
  database workers interleave with the logic thread: a user in state ROOM is on the list of the room its
  \<open>roomIndex\<close> names; and every room lists existing slots only, and its counter \<open>mCurrentUserCount\<close> is at most its
  maximum. The counter may be less than the length of the list, see \<open>leave_without_login\<close>.
\<close>

theorem reachable_membership:
  assumes "reach (server_init mem n) (server_step redis_get pad) (pm, c)"
  shows "(\<forall>i < n. mCurDomainState (pm_users pm ! i) = DS_ROOM \<longrightarrow>
      (\<exists>k. RoomManager_GetRoomByNumber (mRoomManager pm) (roomIndex (pm_users pm ! i)) = Some k \<and>
        k < length (mRoomList (mRoomManager pm)) \<and> i \<in> set (mUserList (mRoomList (mRoomManager pm) ! k)))) \<and>
    (\<forall>r \<in> set (mRoomList (mRoomManager pm)). set (mUserList r) \<subseteq> {0..<n} \<and> mCurrentUserCount r \<le> mMaxUserCount r)"
proof -
  have c: "core (mUserManager pm) (mRoomManager pm)" and l: "length (mUserObjPool (mUserManager pm)) = n"
    using srv.inv_reach [OF assms] pm_inv_core by (auto simp: server_inv_def queues_ok_def pm_users_def)
  have "\<exists>k. RoomManager_GetRoomByNumber (mRoomManager pm) (roomIndex (pm_users pm ! i)) = Some k \<and>
      k < length (mRoomList (mRoomManager pm)) \<and> i \<in> set (mUserList (mRoomList (mRoomManager pm) ! k))"
    if "i < n" "mCurDomainState (pm_users pm ! i) = DS_ROOM" for i
    using that c l by (auto simp: core_def pm_users_def member_of_room_def)
  moreover have "rm_inv n (mRoomManager pm)" using core_rm [OF c] l by simp
  ultimately show ?thesis by (fastforce simp: rm_inv_def room_members_ok_def in_set_conv_nth)
qed

theorem reachable_membership_witness:
  "\<exists>pm. reach (server_init demo_mem 2) (server_step demo_get (\<lambda>_. 0)) (pm, Waiting) \<and>
    mCurDomainState (pm_users pm ! 0) = DS_ROOM \<and>
    (\<exists>k. RoomManager_GetRoomByNumber (mRoomManager pm) 0 = Some k \<and>
      0 \<in> set (mUserList (mRoomList (mRoomManager pm) ! k)))"
proof -
  obtain pm where p: "reach (server_init demo_mem 2) (server_step demo_get (\<lambda>_. 0)) (pm, Waiting)"
    "mCurDomainState (pm_users pm ! 0) = DS_ROOM" "roomIndex (pm_users pm ! 0) = 0"
    using demo_reached by blast
  then show ?thesis using reachable_membership [OF p(1)] by (metis zero_less_numeral)
qed

text \<open>
  C2. In every reachable state each packet that was handed to \<open>SendPacketFunc\<close> goes to an existing slot, its
  strings are terminated inside their fields, its size is the size of its structure and fits the 1024
  bytes of a send block.
\<close>

theorem reachable_sends:
  assumes "reach (server_init mem n) (server_step redis_get pad) s" and "(i, sz, p) \<in> set (sent (fst s))"
  shows "i < n \<and> packet_ok p \<and> sz = packet_sizeof p \<and> sz \<le> MAX_SOCKBUF"
proof -
  have "pm_inv (fst s)" "length (pm_users (fst s)) = n"
    using srv.inv_reach [OF assms(1)] by (auto simp: server_inv_def queues_ok_def)
  then have "send_ok n (i, sz, p)" using assms(2) by (auto simp: pm_inv_def list_all_iff)
  then show ?thesis by (simp add: send_ok_def)
qed

theorem reachable_sends_witness:
  "\<exists>s. reach (server_init demo_mem 2) (server_step demo_get (\<lambda>_. 0)) s \<and>
    (0, 7, ROOM_ENTER_RESPONSE_PACKET 0) \<in> set (sent (fst s)) \<and>
    7 = packet_sizeof (ROOM_ENTER_RESPONSE_PACKET 0) \<and> 7 \<le> MAX_SOCKBUF"
proof -
  obtain pm where p: "reach (server_init demo_mem 2) (server_step demo_get (\<lambda>_. 0)) (pm, Waiting)"
    "(0, 7, ROOM_ENTER_RESPONSE_PACKET 0) \<in> set (sent (fst (pm, Waiting)))"
    using demo_reached by auto
  then show ?thesis using reachable_sends [OF p] by blast
qed

text \<open>
  C3. The network layer and the packet manager together, in any interleaving with each other, the timeout thread and
  the database workers, whatever Winsock calls fail: no slot is used twice, the counter of clients is between the number of connected sessions
  and the number of slots that do not wait, and the packet manager's invariant holds. With \<open>good\<close>, that is while the
  calls that hand slots over and those that re-arm a receive succeed, the counter is exact and no slot is lost. Whatever the logic
  thread sends next is taken by the network layer without a fault (each copy fits its block, each slot exists), and
  whatever the network layer reports next is taken by the packet manager without a fault.
\<close>

theorem whole_server_halves_fit:
  assumes "reach (whole_init good mem n) (whole_step good redis_get pad) (io, pm, c)"
  shows "distinct (mFreeSessionList io @ posted io) \<and> set (mFreeSessionList io @ posted io) \<inter> connected_slots io = {} \<and>
    int (card (connected_slots io)) \<le> mClientCnt io \<and>
    mClientCnt io \<le> int n - int (length (mFreeSessionList io) + length (posted io)) \<and>
    (good \<longrightarrow> mClientCnt io = int (card (connected_slots io)) \<and>
      set (mFreeSessionList io) \<union> set (posted io) \<union> connected_slots io = {0..<n}) \<and>
    pm_inv pm \<and> length (pm_users pm) = n \<and> length (mClientInfos io) = n \<and>
    (\<forall>pm' c' ws ty. logic_step (pm, c) (pm', c') \<longrightarrow>
      (\<exists>io'. ChatServer_deliver ws ty 0 io (new_sends pm pm') = Inr io')) \<and>
    (\<forall>io'. net_step good (io\<lparr>app_events := []\<rparr>) io' \<longrightarrow>
      (\<exists>pm'. ChatServer_events pm (app_events io') = Inr pm'))"
proof -
  have inv: "whole_inv good n (io, pm, c)" using whole.inv_reach [OF assms] .
  then have "net_inv good n io" "server_inv n (pm, c)" by (simp_all add: whole_inv_def)
  then have "distinct (mFreeSessionList io @ posted io) \<and> set (mFreeSessionList io @ posted io) \<inter> connected_slots io = {} \<and>
      int (card (connected_slots io)) \<le> mClientCnt io \<and>
      mClientCnt io \<le> int n - int (length (mFreeSessionList io) + length (posted io)) \<and>
      (good \<longrightarrow> mClientCnt io = int (card (connected_slots io)) \<and>
        set (mFreeSessionList io) \<union> set (posted io) \<union> connected_slots io = {0..<n}) \<and>
      pm_inv pm \<and> length (pm_users pm) = n \<and> length (mClientInfos io) = n"
    using net_inv_slots [of good n io] by (simp add: net_inv_def server_inv_def queues_ok_def)
  moreover have "\<exists>io'. ChatServer_deliver ws ty 0 io (new_sends pm pm') = Inr io'"
    if "logic_step (pm, c) (pm', c')" for pm' c' ws ty
    using whole_sends_delivered [OF inv that] by blast
  moreover have "\<exists>pm'. ChatServer_events pm (app_events io') = Inr pm'"
    if "net_step good (io\<lparr>app_events := []\<rparr>) io'" for io'
    using whole_events_handled [OF inv that] by blast
  ultimately show ?thesis by blast
qed

theorem whole_server_halves_fit_witness:
  "\<exists>io pm. reach (whole_init True demo_mem 1) (whole_step True demo_get (\<lambda>_. 0)) (io, pm, Waiting) \<and>
    mClientCnt io = 1 \<and> distinct (mFreeSessionList io @ posted io) \<and> length (pm_users pm) = 1"
proof -
  let ?pm = "snd (PacketManager_Run (PacketManager_Init demo_mem 1))"
  obtain io io' where n: "net_init True 1 io" "sized (mNet io)" "app_events io = []" "net_step True io io'" "mClientCnt io' = 1"
    using demo_net_start by blast
  have e: "io\<lparr>app_events := []\<rparr> = io" using n(3) by simp
  have r: "reach (whole_init True demo_mem 1) (whole_step True demo_get (\<lambda>_. 0)) (io, ?pm, Waiting)"
    using n(1,2) by (intro reach_init) (simp add: whole_init_def server_init_def)
  obtain pm' where "ChatServer_events ?pm (app_events io') = Inr pm'"
    using whole_server_halves_fit [OF r] n(4) unfolding e by blast
  then have "reach (whole_init True demo_mem 1) (whole_step True demo_get (\<lambda>_. 0)) (io', pm', Waiting)"
    using n(4) by (intro reach_step [OF r] whole_net) (simp_all add: e)
  then show ?thesis using whole_server_halves_fit n(5) by blast
qed

text \<open>
  C4. A chat message through the whole server. A worker receives the segment of a member of a room while the logic thread
  waits; then there is a run of the server that ends with the logic thread waiting again, in which the queue of the
  sender's session has got the success response, the queue of every member's session (the sender's included) the message under the
  sender's name, once for each place in the room's list and after the response, every other queue is as it was, and
  the message is queued for the database. The server needs a free send block for each packet.
\<close>

theorem chat_reaches_sessions:
  assumes "whole_inv good n (io, pm, Waiting)" and "idle pm" and "R_mResponseTask (mRedisManager pm) = []"
    and "chat_ready pm i msg" and "slot_bytes pm i = []" and "262 \<le> BufferSize (mPacketDataBuffer (pm_users pm ! i))"
    and "ws_recv ws"
    and "IOCP_recv ws (io\<lparr>app_events := []\<rparr>) i (OvlRecv i) 262 (ROOM_CHAT_REQUEST_PACKET t msg) = Inr io1"
    and "app_events io1 = [Ev_Receive i (ROOM_CHAT_REQUEST_PACKET t msg)]"
    and "sends_ready io" and "length (room_mates pm i) < length (mFreeList (send_pool (mNet io)))"
  shows "\<exists>io' pm'. (whole_step good redis_get pad)\<^sup>*\<^sup>* (io, pm, Waiting) (io', pm', Waiting) \<and>
    (\<forall>j < n. waiting io' j = waiting io j @
      (if j = i then [packet_bytes ty (ROOM_CHAT_RESPONSE_PACKET (error_val EC_NONE))] else []) @
      replicate (count_list (room_mates pm i) j) (packet_bytes ty (ROOM_CHAT_NOTIFY_PACKET (mUserID (pm_users pm ! i)) msg))) \<and>
    mMySQLManager pm' = MySQLManager_PushTask (mMySQLManager pm) (task_of i
      (ChatActivity (mUserID (pm_users pm ! i)) (roomIndex (pm_users pm ! i)) msg (clock pm)))"
  using chat_run [OF assms(1-6) refl assms(7-11)] .

theorem chat_reaches_sessions_witness:
  "\<exists>io' pm'. (whole_step True demo_get (\<lambda>_. 0))\<^sup>*\<^sup>* (demo_two, demo_talk, Waiting) (io', pm', Waiting) \<and>
    waiting io' 0 = [packet_bytes 0 (ROOM_CHAT_RESPONSE_PACKET 0), packet_bytes 0 (ROOM_CHAT_NOTIFY_PACKET alice [104, 105])] \<and>
    waiting io' 1 = []"
proof -
  obtain io1 where r: "IOCP_recv demo_ws (demo_two\<lparr>app_events := []\<rparr>) 0 (OvlRecv 0) 262 (ROOM_CHAT_REQUEST_PACKET 0 [104, 105]) = Inr io1"
    "app_events io1 = [Ev_Receive 0 (ROOM_CHAT_REQUEST_PACKET 0 [104, 105])]"
    using demo_chat_received by blast
  have h: "262 \<le> BufferSize (mPacketDataBuffer (pm_users demo_talk ! 0))" "ws_recv demo_ws"
    "length (room_mates demo_talk 0) < length (mFreeList (send_pool (mNet demo_two)))"
    by (simp, simp add: demo_ws_def, simp add: demo_net_def ObjectPool_Init_eq)
  obtain io' pm' where w: "(whole_step True demo_get (\<lambda>_. 0))\<^sup>*\<^sup>* (demo_two, demo_talk, Waiting) (io', pm', Waiting)"
    "\<forall>j < 2. waiting io' j = waiting demo_two j @
      (if j = 0 then [packet_bytes 0 (ROOM_CHAT_RESPONSE_PACKET (error_val EC_NONE))] else []) @
      replicate (count_list (room_mates demo_talk 0) j)
        (packet_bytes 0 (ROOM_CHAT_NOTIFY_PACKET (mUserID (pm_users demo_talk ! 0)) [104, 105]))"
    using chat_reaches_sessions [where redis_get = demo_get and pad = "\<lambda>_. 0" and ty = 0, OF demo_whole demo_talk_fields(3,4)
        demo_chat_ready demo_talk_fields(5) h(1,2) r demo_two_net(3) h(3)] by blast
  have e: "waiting demo_two 0 = []" "waiting demo_two 1 = []" by (simp_all add: waiting_def)
  have "waiting io' 0 = [packet_bytes 0 (ROOM_CHAT_RESPONSE_PACKET 0), packet_bytes 0 (ROOM_CHAT_NOTIFY_PACKET alice [104, 105])]"
    using w(2) [rule_format, of 0] e(1) by simp
  moreover have "waiting io' 1 = []" using w(2) [rule_format, of 1] e(2) by simp
  ultimately show ?thesis using w(1) by blast
qed

text \<open>
  C5. As long as no packet of the load-test branch is handled, the duplicate login the server promises to
  prevent does not happen: a logged-in slot's name is registered in the dictionary with that slot's
  index, so no two slots carry the same name.
\<close>

theorem genuine_names_unique:
  assumes "reach (server_init mem n) (genuine_step redis_get pad) (pm, c)" and "i < n"
    and "mUserID (pm_users pm ! i) \<noteq> []"
  shows "mUserIDDictionary (mUserManager pm) (mUserID (pm_users pm ! i)) = Some (int i) \<and>
    (\<forall>j < n. j \<noteq> i \<longrightarrow> mUserID (pm_users pm ! j) \<noteq> mUserID (pm_users pm ! i))"
proof -
  have inv: "names_inv (mUserManager pm)" and n: "length (pm_users pm) = n"
    using nms.inv_reach [OF assms(1)] by (auto simp: names_server_inv_def server_inv_def queues_ok_def)
  have "j = i" if "j < n" "mUserID (pm_users pm ! j) = mUserID (pm_users pm ! i)" for j
    by (rule names_inv_unique [OF inv, symmetric]) (use that assms(2,3) n in \<open>simp_all add: pm_users_def\<close>)
  moreover have "mUserIDDictionary (mUserManager pm) (mUserID (pm_users pm ! i)) = Some (int i)"
    using inv n assms(2,3) by (simp add: names_inv_def pm_users_def)
  ultimately show ?thesis by blast
qed

theorem genuine_names_unique_witness:
  "\<exists>pm. reach (server_init demo_mem 2) (genuine_step demo_get (\<lambda>_. 0)) (pm, Waiting) \<and>
    mUserID (pm_users pm ! 0) = alice \<and> mUserIDDictionary (mUserManager pm) alice = Some 0 \<and>
    mUserID (pm_users pm ! 1) \<noteq> alice"
proof -
  obtain pm where p: "demo_R (pm, Waiting)" "mUserID (pm_users pm ! 0) = alice"
    using demo_reached by blast
  moreover have "mUserID (pm_users pm ! 0) \<noteq> []" using p(2) by (simp add: alice_def)
  ultimately show ?thesis using genuine_names_unique [OF p(1), of 0] by auto
qed

text \<open>
  C6. However the network cuts a stream of packets \<open>ps\<close> of a well-behaved client into segments \<open>segs\<close>,
  receiving segment after segment and processing the packets after each one hands exactly \<open>ps\<close> to the
  handlers, in order; nothing faults, the loop always ends, and the ring buffer is empty afterwards.
  The bound: a segment and the longest packet together fit the ring buffer.
\<close>

theorem stream_reassembly:
  assumes "pm_inv pm" and "names_ok (mUserManager pm)" and "i < length (pm_users pm)"
    and "slot_bytes pm i = []" and "concat segs = concat ps" and "list_all client_packet ps"
    and "list_all (\<lambda>seg. length seg \<le> m) segs"
    and "list_all (\<lambda>p. length p + m \<le> BufferSize (mPacketDataBuffer (pm_users pm ! i))) ps"
    and "m \<le> BufferSize (mPacketDataBuffer (pm_users pm ! i))"
  shows "\<exists>pm'. feed pm i segs [] = Some (Inr (ps, pm')) \<and> pm_inv pm' \<and> slot_bytes pm' i = []"
  using feed_packets [OF assms(1-3), of segs ps m "[]"] assms(4-9)
  by (auto simp: list_all_iff incomplete_def packet_consts)

theorem stream_reassembly_witness:
  "\<exists>pm'. feed (demo 1) 0 [[5, 0, 22], [0, 0, 5, 0], [22, 0, 0]] [] = Some (Inr ([pong, pong], pm')) \<and>
    pm_inv pm' \<and> slot_bytes pm' 0 = []"
  by (rule stream_reassembly [where m = 1024])
    (simp_all add: slot_bytes_def pong_client, simp_all add: pong_def)

text \<open>
  C7. The loop over the packets of one task returns: with whole packets of a well-behaved client followed by
  an incomplete one in the ring buffer, a task of the current connection is processed without fault, the
  incomplete rest stays in the buffer, and no other user's stream is touched.
\<close>

theorem packet_loop_terminates:
  assumes "pm_inv pm" and "names_ok (mUserManager pm)" and "clientIndex t < length (pm_users pm)"
    and "mGeneration (pm_users pm ! clientIndex t) = generation t"
    and "slot_bytes pm (clientIndex t) = concat ps @ rest" and "list_all client_packet ps" and "incomplete rest"
  shows "\<exists>pm'. process_task pm t = Some (Inr pm') \<and> slot_bytes pm' (clientIndex t) = rest \<and> pm_inv pm' \<and>
    task_frame (clientIndex t) pm pm'"
proof -
  obtain pm' where d: "drain_trace pm (clientIndex t) [] = Some (Inr ([] @ ps, pm'))" "pm_inv pm'"
    "task_frame (clientIndex t) pm pm'" "slot_bytes pm' (clientIndex t) = rest"
    using drain_packets [OF assms(1-3,5-7), of "[]"] by blast
  then show ?thesis
    using drain_trace_drain [OF d(1)] process_task_current [OF assms(3,4)] by simp
qed

theorem packet_loop_terminates_witness:
  "\<exists>pm'. process_task (demo_bytes 1 0 (pong @ [5, 0])) \<lparr>clientIndex = 0, generation = 0\<rparr> = Some (Inr pm') \<and>
    slot_bytes pm' 0 = [5, 0] \<and> pm_inv pm' \<and> task_frame 0 (demo_bytes 1 0 (pong @ [5, 0])) pm'"
  using packet_loop_terminates [of "demo_bytes 1 0 (pong @ [5, 0])" "\<lparr>clientIndex = 0, generation = 0\<rparr>" "[pong]" "[5, 0]"]
    demo_bytes_ok [of 0 1 "pong @ [5, 0]"] pong_client
  by (simp add: pong_def incomplete_def packet_consts)

text \<open>
  C8. A client can stop the logic thread: a header that announces length 0, with an identifier that is unknown
  (or PONG, or a login), leaves the ring buffer as it is, so the loop over the packets of the task never
  returns.
\<close>

theorem zero_length_never_returns:
  assumes "pm_inv pm" and "clientIndex t < length (pm_users pm)"
    and "mGeneration (pm_users pm ! clientIndex t) = generation t"
    and "PACKET_HEADER_LENGTH \<le> length (slot_bytes pm (clientIndex t))"
    and "frame_length (slot_bytes pm (clientIndex t)) = 0" and "frame_id (slot_bytes pm (clientIndex t)) \<noteq> 0"
    and "idle_id (frame_id (slot_bytes pm (clientIndex t)))"
  shows "process_task pm t = None"
  using drain_zero_length [OF assms(1,2,4-7)] process_task_current [OF assms(2,3)] by simp

theorem zero_length_never_returns_witness:
  "process_task (demo_bytes 1 0 [0, 0, 22, 0, 0]) \<lparr>clientIndex = 0, generation = 0\<rparr> = None"
  using zero_length_never_returns [of "demo_bytes 1 0 [0, 0, 22, 0, 0]" "\<lparr>clientIndex = 0, generation = 0\<rparr>"]
    demo_bytes_ok [of 0 1 "[0, 0, 22, 0, 0]"]
  by (simp add: frame_length_def frame_id_def packet_consts idle_id_def mPacketHandlers_def)

text \<open>
  C9. Dispatching a packet returns: no null pointer, no access out of range, no invalid-parameter stop of
  \<open>strcpy_s\<close>, whatever state the user, the rooms and the registry are in; the invariants are kept. The identifier
  is arbitrary, known or not. What is asked of the packet (\<open>request_ok\<close>): a login request is complete and its name is
  terminated; where the name starts with \<open>test_user\<close>, so that it is stored at once, it has at most 32 bytes. An answer
  of the database, or a packet with that identifier from a client, has its result code, and where the code is
  \<open>NONE\<close> a terminated name of at most 32 bytes. An enter request is complete; a chat message is terminated within 257
  bytes. The next property shows what a longer \<open>test_user\<close> name does.
\<close>

theorem wellformed_requests_never_fault:
  assumes "pm_inv pm" and "names_ok (mUserManager pm)" and "i < length (pm_users pm)"
    and "request_ok pm packetId p"
  shows "\<exists>pm'. ProcessRecvPacket pm i packetId sz p = Inr pm' \<and> pm_inv pm' \<and> names_ok (mUserManager pm')"
  using assms by (rule ProcessRecvPacket_total)

theorem wellformed_requests_never_fault_witness:
  "\<exists>pm'. ProcessRecvPacket (demo 2) 0 201 71 (HeapBuf (login_request_bytes 0 alice [112])) = Inr pm' \<and>
    pm_inv pm' \<and> names_ok (mUserManager pm')"
proof -
  have "c_str (drop off_UserID (login_request_bytes 0 alice [112])) = Inr alice"
    by (simp add: login_request_bytes_def packet_consts c_str_char_field)
  moreover have "\<not> is_test_user (drop off_UserID (login_request_bytes 0 alice [112]))"
    by (simp add: login_request_bytes_def packet_consts is_test_user_def char_field_def alice_def bytes_of_string_def)
  ultimately have "request_ok (demo 2) 201 (HeapBuf (login_request_bytes 0 alice [112]))"
    by (simp add: request_ok_def deref_def login_request_bytes_def)
  then show ?thesis by (intro wellformed_requests_never_fault) simp_all
qed

text \<open>
  C10. A client that needs no password can stop the server. The load-test branch of the login stores a name that starts
  with \<open>test_user\<close> as it is, also when it has more than 32 bytes because it runs on into the field of the password.
  The login is granted; when the client then asks to enter a room that exists and has space, the copy of the name into
  a field of 33 bytes calls the invalid-parameter handler of \<open>strcpy_s\<close>.
\<close>

theorem long_test_name_stops_server:
  assumes "pm_inv pm" and "i < length (pm_users pm)" and "deref pm p = Inr mem"
    and "c_str (drop off_UserID mem) = Inr uid" and "is_test_user (drop off_UserID mem)" and "MAX_USER_ID_LENGTH < length uid"
  shows "\<exists>pm1. ProcessLogin pm i 71 p = Inr pm1 \<and> mUserID (pm_users pm1 ! i) = uid \<and>
    sent pm1 = sent pm @ [(i, 7, LOGIN_RESPONSE_PACKET (error_val EC_NONE))] \<and>
    (\<forall>q mem' number k sz. deref pm1 q = Inr mem' \<and> ROOM_ENTER_REQUEST_RoomNumber mem' = Inr number \<and>
       RoomManager_GetRoomByNumber (mRoomManager pm) number = Some k \<and>
       mCurrentUserCount (mRoomList (mRoomManager pm) ! k) < mMaxUserCount (mRoomList (mRoomManager pm) ! k) \<longrightarrow>
       ProcessEnterRoom pm1 i sz q = Inl InvalidParameter)"
  using assms by (rule long_test_name_faults)

theorem long_test_name_stops_server_witness:
  "\<exists>pm1. ProcessLogin (demo 2) 0 71 (HeapBuf demo_long_login) = Inr pm1 \<and>
    ProcessEnterRoom pm1 0 9 (HeapBuf (replicate 9 0)) = Inl InvalidParameter"
proof -
  obtain pm1 where l: "ProcessLogin (demo 2) 0 71 (HeapBuf demo_long_login) = Inr pm1"
    and e: "\<And>q mem' number k sz. deref pm1 q = Inr mem' \<and> ROOM_ENTER_REQUEST_RoomNumber mem' = Inr number \<and>
       RoomManager_GetRoomByNumber (mRoomManager (demo 2)) number = Some k \<and>
       mCurrentUserCount (mRoomList (mRoomManager (demo 2)) ! k) < mMaxUserCount (mRoomList (mRoomManager (demo 2)) ! k) \<longrightarrow>
       ProcessEnterRoom pm1 0 sz q = Inl InvalidParameter"
    using long_test_name_stops_server [of "demo 2" 0 "HeapBuf demo_long_login" demo_long_login] demo_long_request
    by (auto simp: deref_def)
  have z: "of_le (replicate 4 0) = 0" by (simp add: numeral_eq_Suc)
  have "ProcessEnterRoom pm1 0 9 (HeapBuf (replicate 9 0)) = Inl InvalidParameter"
    by (rule e [rule_format, of _ "replicate 9 0" 0 0])
      (simp add: deref_def ROOM_ENTER_REQUEST_RoomNumber_def get_INT32_def get_UINT32_def z packet_consts Room_Init_def Room_new_def)
  then show ?thesis using l by blast
qed

text \<open>
  C11. A login end to end. The request of a name that is not registered goes to the Redis worker; when the
  worker has taken its turn and the logic thread takes the response, the client has been sent exactly one
  packet, the verdict. If the password stored under the name is the one sent, the slot is logged in under
  the name, registered, and counted; otherwise no user changes.
\<close>

theorem login_verdict:
  assumes "pm_inv pm" and "i < length (pm_users pm)" and "deref pm p = Inr (login_request_bytes ty uid pw @ rest)"
    and "name_ok uid" and "0 \<notin> set pw" and "length pw \<le> MAX_USER_PW_LENGTH"
    and "\<not> is_test_user (char_field 33 uid @ char_field 33 pw @ rest)"
    and "mUserIDDictionary (mUserManager pm) uid = None"
    and "mCurrentUserCnt (mUserManager pm) < mMaxUserCnt (mUserManager pm)"
    and "R_mRequestTask (mRedisManager pm) = []" and "R_mResponseTask (mRedisManager pm) = []"
  shows "\<exists>pm1 red t pm2 pm3. ProcessLogin pm i 71 p = Inr pm1 \<and>
    Redis_turn redis_get pad (mRedisManager pm1) = Inr (Continue red) \<and>
    take_response (pm1\<lparr>mRedisManager := red\<rparr>) = (t, pm2) \<and> handle_response pm2 t = Inr pm3 \<and>
    sent pm3 = sent pm @ [(i, 7, LOGIN_RESPONSE_PACKET (error_val (redis_verdict redis_get uid pw)))] \<and>
    mUserManager pm3 = (if redis_get uid = Some pw
      then UserManager_IncreaseUserCnt (put_user
        (mUserManager pm\<lparr>mUserIDDictionary := (mUserIDDictionary (mUserManager pm))(uid \<mapsto> int i)\<rparr>) i
        ((pm_users pm ! i)\<lparr>mCurDomainState := DS_LOGIN, mUserID := uid\<rparr>))
      else mUserManager pm)"
  using assms by (rule login_round_trip)

theorem login_verdict_witness:
  "\<exists>pm1 red t pm2 pm3. ProcessLogin (demo 2) 0 71 (HeapBuf (login_request_bytes 0 alice [112])) = Inr pm1 \<and>
    Redis_turn demo_get (\<lambda>_. 0) (mRedisManager pm1) = Inr (Continue red) \<and>
    take_response (pm1\<lparr>mRedisManager := red\<rparr>) = (t, pm2) \<and> handle_response pm2 t = Inr pm3 \<and>
    sent pm3 = [(0, 7, LOGIN_RESPONSE_PACKET 0)]"
proof -
  have "\<not> is_test_user (char_field 33 alice @ char_field 33 [112])"
    by (simp add: is_test_user_def char_field_def alice_def bytes_of_string_def)
  then show ?thesis
    using login_verdict [of "demo 2" 0 "HeapBuf (login_request_bytes 0 alice [112])" 0 alice "[112]" "[]" demo_get "\<lambda>_. 0"]
    by (auto simp: deref_def packet_consts redis_verdict_def demo_get_def RedisManager_new_def)
qed

text \<open>
  C12. The request to enter a room, on every branch. A user who is not in state LOGIN, a number outside the range of
  rooms, and a room whose counter has reached its maximum are each answered with their own code, and the response is the
  only change of the state. Otherwise the user becomes the last member of the room: room list, counter, state and
  \<open>roomIndex\<close> change together, the activity is queued for the database, all members (the newcomer included) get
  the notification in the order of the list, and then the newcomer the response.
\<close>

theorem enter_room:
  assumes "pm_inv pm" and "i < length (pm_users pm)"
    and "deref pm p = Inr mem" and "ROOM_ENTER_REQUEST_RoomNumber mem = Inr number"
    and "reason = (if mCurDomainState (pm_users pm ! i) \<noteq> DS_LOGIN then Some ENTER_ROOM_INVALID_USER_STATUS
      else case RoomManager_GetRoomByNumber (mRoomManager pm) number of
          None \<Rightarrow> Some ROOM_INVALID_INDEX
        | Some k \<Rightarrow> if mMaxUserCount (mRoomList (mRoomManager pm) ! k) \<le> mCurrentUserCount (mRoomList (mRoomManager pm) ! k)
            then Some ENTER_ROOM_FULL_USER else None)"
  shows "(\<forall>e. reason = Some e \<longrightarrow>
      ProcessEnterRoom pm i sz p = Inr (pm_send pm i (ROOM_ENTER_RESPONSE_PACKET (error_val e)))) \<and>
    (reason = None \<and> name_ok (mUserID (pm_users pm ! i)) \<longrightarrow>
      (\<exists>k. RoomManager_GetRoomByNumber (mRoomManager pm) number = Some k \<and>
        ProcessEnterRoom pm i sz p = Inr (pm_send (send_all (push_activity
          (pm\<lparr>mRoomManager := put_room (mRoomManager pm) k (entered (mRoomList (mRoomManager pm) ! k) i),
              mUserManager := put_user (mUserManager pm) i (User_EnterRoom (pm_users pm ! i) number)\<rparr>) i
          (RoomActivity (mUserID (pm_users pm ! i)) number ENTER (clock pm)))
          (notify_all (mUserList (mRoomList (mRoomManager pm) ! k) @ [i]) (mUserID (pm_users pm ! i)) entered_msg))
          i (ROOM_ENTER_RESPONSE_PACKET (error_val EC_NONE)))))"
proof (cases "mCurDomainState (pm_users pm ! i) = DS_LOGIN")
  case True
  show ?thesis
  proof (cases "RoomManager_GetRoomByNumber (mRoomManager pm) number")
    case None
    then show ?thesis using EnterRoom_no_room [OF assms(2) True assms(3,4)] assms(5) True by simp
  next
    case (Some k)
    have "k < length (mRoomList (mRoomManager pm))"
      using GetRoomByNumber_Some [OF core_rm [OF pm_inv_core [OF assms(1)]] Some] by simp
    then show ?thesis
      using EnterRoom_full [OF assms(2) True assms(3,4) Some] EnterRoom_success [OF assms(1,2) True _ assms(3,4) Some]
        assms(5) True Some by (simp split: if_splits)
  qed
qed (use EnterRoom_wrong_state [OF assms(2)] assms(5) in simp)

theorem enter_room_witness:
  "(\<exists>pm'. ProcessEnterRoom (demo_login 2 0 alice) 0 9 (HeapBuf (room_enter_request_bytes 0 7)) = Inr pm' \<and>
    sent pm' = [(0, 295, ROOM_CHAT_NOTIFY_PACKET alice entered_msg), (0, 7, ROOM_ENTER_RESPONSE_PACKET 0)] \<and>
    mUserList (mRoomList (mRoomManager pm') ! 7) = [0]) \<and>
    ProcessEnterRoom (demo_login 2 0 alice) 0 9 (HeapBuf (room_enter_request_bytes 0 250)) =
      Inr (pm_send (demo_login 2 0 alice) 0 (ROOM_ENTER_RESPONSE_PACKET (error_val ROOM_INVALID_INDEX)))"
proof -
  have "ROOM_ENTER_REQUEST_RoomNumber (room_enter_request_bytes 0 7) = Inr 7"
    "ROOM_ENTER_REQUEST_RoomNumber (room_enter_request_bytes 0 250) = Inr 250"
    using room_enter_request_RoomNumber [of 7 0 "[]"] room_enter_request_RoomNumber [of 250 0 "[]"] by simp_all
  then show ?thesis
    using enter_room [OF demo_login_inv, of 0 2 0 alice "HeapBuf (room_enter_request_bytes 0 7)" _ 7 None 9]
      enter_room [OF demo_login_inv, of 0 2 0 alice "HeapBuf (room_enter_request_bytes 0 250)" _ 250 "Some ROOM_INVALID_INDEX" 9]
    by (simp add: deref_def Room_Init_def Room_new_def notify_all_def entered_def packet_consts)
qed

text \<open>
  C13. Leaving: the user is taken off the list of the room its \<open>roomIndex\<close> names, its state becomes LOGIN, the
  activity is queued, the members that remain are notified, and the user gets the success response. There
  is no premise about the user's state: the handler does not look at it.
\<close>

theorem leave_room:
  assumes "pm_inv pm" and "i < length (pm_users pm)" and "name_ok (mUserID (pm_users pm ! i))"
    and "RoomManager_GetRoomByNumber (mRoomManager pm) (roomIndex (pm_users pm ! i)) = Some k"
  shows "ProcessLeaveRoom pm i sz p = Inr (pm_send (send_all (push_activity
      (pm\<lparr>mRoomManager := put_room (mRoomManager pm) k (Room_LeaveUser (mRoomList (mRoomManager pm) ! k) i),
          mUserManager := put_user (mUserManager pm) i ((pm_users pm ! i)\<lparr>mCurDomainState := DS_LOGIN\<rparr>)\<rparr>) i
      (RoomActivity (mUserID (pm_users pm ! i)) (roomIndex (pm_users pm ! i)) LEAVE (clock pm)))
      (notify_all (removeAll i (mUserList (mRoomList (mRoomManager pm) ! k)))
        (mUserID (pm_users pm ! i)) left_msg))
      i (ROOM_LEAVE_RESPONSE_PACKET (error_val EC_NONE)))"
  using assms by (rule LeaveRoom_success)

theorem leave_room_witness:
  "\<exists>pm'. ProcessLeaveRoom (demo_room_state 2 0 alice) 0 9 NullPtr = Inr pm' \<and>
    mUserList (mRoomList (mRoomManager pm') ! 0) = [] \<and> mCurDomainState (pm_users pm' ! 0) = DS_LOGIN"
  using leave_room [OF demo_room_inv, where k = 0 and sz = 9 and p = NullPtr, of 0 2 0 alice]
  by (simp add: Room_LeaveUser_def entered_def Room_Init_def Room_new_def pm_users_fold)

text \<open>
  C14. A hole in the login: when a member of a room disconnects, its slot keeps the \<open>roomIndex\<close>. The next client
  of the slot, not logged in, sends a leave request: it is accepted, the slot is in state LOGIN without a
  name, and the counter of the room goes down once more, so it is below the number of its members.
\<close>

theorem leave_without_login:
  assumes "pm_inv pm" and "i < length (pm_users pm)" and "mCurDomainState (pm_users pm ! i) = DS_ROOM"
    and "RoomManager_GetRoomByNumber (mRoomManager pm) (roomIndex (pm_users pm ! i)) = Some k"
  shows "\<exists>pm1 pm2. PacketManager_ClearConnectionInfo pm i = Inr pm1 \<and>
    mCurDomainState (pm_users pm1 ! i) = DS_NONE \<and> mUserID (pm_users pm1 ! i) = [] \<and>
    ProcessLeaveRoom pm1 i sz p = Inr pm2 \<and>
    mCurDomainState (pm_users pm2 ! i) = DS_LOGIN \<and> mUserID (pm_users pm2 ! i) = [] \<and>
    mCurrentUserCount (mRoomList (mRoomManager pm2) ! k) = mCurrentUserCount (mRoomList (mRoomManager pm) ! k) - 2"
  using assms by (rule cleared_then_leave)

theorem leave_without_login_witness:
  "\<exists>pm1 pm2. PacketManager_ClearConnectionInfo (demo_room_state 2 0 alice) 0 = Inr pm1 \<and>
    mCurDomainState (pm_users pm1 ! 0) = DS_NONE \<and> ProcessLeaveRoom pm1 0 5 NullPtr = Inr pm2 \<and>
    mCurDomainState (pm_users pm2 ! 0) = DS_LOGIN \<and> mUserID (pm_users pm2 ! 0) = [] \<and>
    mCurrentUserCount (mRoomList (mRoomManager pm2) ! 0) = -1"
  using leave_without_login [OF demo_room_inv, where k = 0 and sz = 5 and p = NullPtr, of 0 2 0 alice]
  by (auto simp: entered_def Room_Init_def Room_new_def)

text \<open>
  C15. A chat request whose message is not terminated inside its field makes \<open>strcpy_s\<close> call the
  invalid-parameter handler: one client in a room can end the server.
\<close>

theorem chat_overlong_faults:
  assumes "pm_inv pm" and "i < length (pm_users pm)" and "mCurDomainState (pm_users pm ! i) = DS_ROOM"
    and "name_ok (mUserID (pm_users pm ! i))"
    and "deref pm p = Inr mem" and "c_str (drop off_Message mem) = Inr msg" and "MAX_CHAT_MSG < length msg"
  shows "ProcessRoomChatMessage pm i sz p = Inl InvalidParameter"
  using Chat_overlong [OF assms(2,1,3-7)] .

theorem chat_overlong_faults_witness:
  "ProcessRoomChatMessage (demo_room_state 2 0 alice) 0 262 (HeapBuf (replicate 5 0 @ replicate 257 65 @ [0])) =
    Inl InvalidParameter"
proof (rule chat_overlong_faults [OF demo_room_inv])
  show "c_str (drop off_Message (replicate 5 0 @ replicate 257 65 @ [0])) = Inr (replicate 257 65)"
    using c_str_append_nul [of "replicate 257 65" "[]"] by (simp add: packet_consts)
qed (simp_all add: deref_def packet_consts)

text \<open>
  C16. The load-test branch of the login ignores the answer of \<open>Adduser\<close>: a second client is logged in under a
  name another slot holds. When the second one disconnects, the dictionary entry of the first is erased:
  the name counts as free although the first client is still logged in.
\<close>

theorem load_test_duplicate_login:
  assumes "pm_inv pm" and "i < length (pm_users pm)" and "j < length (pm_users pm)" and "i \<noteq> j"
    and "deref pm p = Inr mem" and "c_str (drop off_UserID mem) = Inr uid" and "is_test_user (drop off_UserID mem)"
    and "mUserID (pm_users pm ! j) = uid" and "mCurDomainState (pm_users pm ! j) = DS_LOGIN"
    and "mUserIDDictionary (mUserManager pm) uid = Some (int j)"
  shows "\<exists>pm1 pm2. ProcessLogin pm i 71 p = Inr pm1 \<and>
    mUserID (pm_users pm1 ! i) = uid \<and> mCurDomainState (pm_users pm1 ! i) = DS_LOGIN \<and>
    mUserIDDictionary (mUserManager pm1) uid = Some (int j) \<and>
    sent pm1 = sent pm @ [(i, 7, LOGIN_RESPONSE_PACKET (error_val EC_NONE))] \<and>
    PacketManager_ClearConnectionInfo pm1 i = Inr pm2 \<and>
    mUserID (pm_users pm2 ! j) = uid \<and> mCurDomainState (pm_users pm2 ! j) = DS_LOGIN \<and>
    mUserIDDictionary (mUserManager pm2) uid = None"
  using test_user_duplicate [OF assms] .

theorem load_test_duplicate_login_witness:
  "\<exists>pm1 pm2. ProcessLogin (demo_registered 2 1 demo_tester) 0 71 (HeapBuf (login_request_bytes 0 demo_tester [112])) = Inr pm1 \<and>
    mUserID (pm_users pm1 ! 0) = demo_tester \<and> PacketManager_ClearConnectionInfo pm1 0 = Inr pm2 \<and>
    mUserID (pm_users pm2 ! 1) = demo_tester \<and> mUserIDDictionary (mUserManager pm2) demo_tester = None"
  using load_test_duplicate_login [OF demo_registered_inv, of 1 2 0 demo_tester 1 "HeapBuf (login_request_bytes 0 demo_tester [112])" _ demo_tester]
  by (auto simp: deref_def demo_tester_request)

text \<open>
  C17. Disconnecting a logged-in client frees its slot: the state is NONE, the name is gone and no longer
  registered, the ring buffer is empty, the generation is one higher, the slot is off the list of its room,
  no queued task of the slot is left, and no other user changes.
\<close>

theorem disconnect_clears_login:
  assumes "pm_inv pm" and "i < length (pm_users pm)" and "mCurDomainState (pm_users pm ! i) \<noteq> DS_NONE"
  shows "\<exists>pm'. PacketManager_ClearConnectionInfo pm i = Inr pm' \<and>
    mCurDomainState (pm_users pm' ! i) = DS_NONE \<and> mUserID (pm_users pm' ! i) = [] \<and>
    mUserIDDictionary (mUserManager pm') (mUserID (pm_users pm ! i)) = None \<and>
    slot_bytes pm' i = [] \<and> mGeneration (pm_users pm' ! i) = mGeneration (pm_users pm ! i) + 1 \<and>
    (mCurDomainState (pm_users pm ! i) = DS_ROOM \<longrightarrow> (\<forall>k.
      RoomManager_GetRoomByNumber (mRoomManager pm) (roomIndex (pm_users pm ! i)) = Some k \<longrightarrow>
        i \<notin> set (mUserList (mRoomList (mRoomManager pm') ! k)))) \<and>
    (\<forall>t \<in> set (mWriteBuffer pm'). clientIndex t \<noteq> i) \<and>
    (\<forall>j < length (pm_users pm). j \<noteq> i \<longrightarrow> pm_users pm' ! j = pm_users pm ! j) \<and>
    length (pm_users pm') = length (pm_users pm)"
  using assms by (rule disconnect_effects)

theorem disconnect_clears_login_witness:
  "\<exists>pm'. PacketManager_ClearConnectionInfo (demo_room_state 2 0 alice) 0 = Inr pm' \<and>
    mCurDomainState (pm_users pm' ! 0) = DS_NONE \<and> 0 \<notin> set (mUserList (mRoomList (mRoomManager pm') ! 0)) \<and>
    mGeneration (pm_users pm' ! 0) = 1"
  using disconnect_clears_login [OF demo_room_inv, of 0 2 0 alice] by auto

text \<open>
  C18. A logged-in client disconnects, the next client of the slot sends a packet, and only then a task that was
  queued for the old connection is processed: it does nothing, and the packet is still in the ring buffer. The task that was
  queued with the packet has the new generation and takes it.
\<close>

theorem stale_tasks_skipped:
  assumes "pm_inv pm" and "names_ok (mUserManager pm)" and "i < length (pm_users pm)"
    and "mCurDomainState (pm_users pm ! i) \<noteq> DS_NONE"
    and "PacketManager_ClearConnectionInfo pm i = Inr pm1" and "client_packet p"
    and "length p \<le> BufferSize (mPacketDataBuffer (pm_users pm1 ! i))"
    and "PacketManager_ReceivePacketData pm1 i (length p) (Some p) = Inr pm2"
  shows "slot_bytes pm2 i = p \<and>
    process_task pm2 \<lparr>clientIndex = i, generation = mGeneration (pm_users pm ! i)\<rparr> = Some (Inr pm2) \<and>
    last (mWriteBuffer pm2) = \<lparr>clientIndex = i, generation = mGeneration (pm_users pm ! i) + 1\<rparr> \<and>
    (\<exists>pm3. process_task pm2 (last (mWriteBuffer pm2)) = Some (Inr pm3) \<and> slot_bytes pm3 i = [])"
  using next_client_tasks [OF assms] by blast

theorem stale_tasks_skipped_witness:
  "\<exists>pm1 pm2 pm3. PacketManager_ClearConnectionInfo (demo_room_state 2 0 alice) 0 = Inr pm1 \<and>
    PacketManager_ReceivePacketData pm1 0 5 (Some pong) = Inr pm2 \<and> slot_bytes pm2 0 = pong \<and>
    process_task pm2 \<lparr>clientIndex = 0, generation = 0\<rparr> = Some (Inr pm2) \<and>
    process_task pm2 \<lparr>clientIndex = 0, generation = 1\<rparr> = Some (Inr pm3) \<and> slot_bytes pm3 0 = []"
proof -
  obtain pm1 pm2 where c: "PacketManager_ClearConnectionInfo (demo_room_state 2 0 alice) 0 = Inr pm1"
    and b: "5 \<le> BufferSize (mPacketDataBuffer (pm_users pm1 ! 0))"
    and r: "PacketManager_ReceivePacketData pm1 0 5 (Some pong) = Inr pm2"
    using demo_next_client by blast
  have "length pong = 5" by (simp add: pong_def)
  then show ?thesis
    using stale_tasks_skipped [OF demo_room_inv demo_room_names _ _ c, of pong pm2] b c r pong_client by auto
qed

text \<open>
  C19. A client that disconnects before its login is finished leaves the slot as it is: the bytes it has sent
  stay in the ring buffer and the generation is not increased, so the next client of the slot continues
  the old client's stream: what it sends is appended to the leftover bytes.
\<close>

theorem unfinished_login_keeps_stream:
  assumes "pm_inv pm" and "i < length (pm_users pm)" and "mCurDomainState (pm_users pm ! i) = DS_NONE"
    and "length (slot_bytes pm i) + length seg \<le> BufferSize (mPacketDataBuffer (pm_users pm ! i))"
  shows "\<exists>pm1 pm2. PacketManager_ClearConnectionInfo pm i = Inr pm1 \<and>
    mGeneration (pm_users pm1 ! i) = mGeneration (pm_users pm ! i) \<and>
    PacketManager_ReceivePacketData pm1 i (length seg) (Some seg) = Inr pm2 \<and>
    slot_bytes pm2 i = slot_bytes pm i @ seg"
proof -
  have c: "PacketManager_ClearConnectionInfo pm i = Inr (without_tasks pm i)"
    using ClearConnectionInfo_eq [OF assms(1,2)] assms(3) by simp
  have w: "pm_users (without_tasks pm i) = pm_users pm" by (simp add: without_tasks_def)
  have "pm_inv (without_tasks pm i)" using assms(1) by (simp add: without_tasks_def pm_inv_def)
  then show ?thesis
    using ReceivePacketData_bytes [of "without_tasks pm i" i seg] assms(2,4) c w by (auto simp: slot_bytes_def)
qed

theorem unfinished_login_keeps_stream_witness:
  "\<exists>pm1 pm2. PacketManager_ClearConnectionInfo (demo_bytes 1 0 [71, 0]) 0 = Inr pm1 \<and>
    PacketManager_ReceivePacketData pm1 0 5 (Some pong) = Inr pm2 \<and> slot_bytes pm2 0 = [71, 0] @ pong"
proof -
  have "length pong = 5" by (simp add: pong_def)
  then show ?thesis
    using unfinished_login_keeps_stream [of "demo_bytes 1 0 [71, 0]" 0 pong] demo_bytes_ok [of 0 1 "[71, 0]"]
    by auto
qed

text \<open>
  C20. The ring buffer refines a bounded queue of bytes. Through \<open>RingBuffer_list\<close>: writing appends the prefix
  that fits and returns its length; reading copies the first bytes out and removes them; peeking reads a
  position or fails; clearing empties; the flags and the size agree with the list, wrapped or not.
\<close>

theorem ring_buffer_refines_queue:
  assumes "ring_inv r" and "min n (length (RingBuffer_list r)) \<le> length out"
  shows "(\<exists>r'. RingBuffer_Write r (Some ds) (length ds) =
        Inr (min (length ds) (BufferSize r - length (RingBuffer_list r)), r') \<and> ring_inv r' \<and>
        RingBuffer_list r' = RingBuffer_list r @ take (BufferSize r - length (RingBuffer_list r)) ds) \<and>
    (\<exists>r'. RingBuffer_Read r (Some out) n = Inr (min n (length (RingBuffer_list r)),
        take n (RingBuffer_list r) @ drop (min n (length (RingBuffer_list r))) out, r') \<and> ring_inv r' \<and>
        RingBuffer_list r' = drop n (RingBuffer_list r)) \<and>
    RingBuffer_Peek r k = (if k < length (RingBuffer_list r) then Some (RingBuffer_list r ! k) else None) \<and>
    RingBuffer_list (RingBuffer_Clear r) = [] \<and> RingBuffer_Size r = length (RingBuffer_list r) \<and>
    (RingBuffer_IsEmpty r = (RingBuffer_list r = [])) \<and> (RingBuffer_IsFull r = (length (RingBuffer_list r) = BufferSize r))"
  using rb.write_law [OF assms(1) refl, of ds] rb.read_law [OF assms] rb.peek_law [OF assms(1)]
    rb.clear_law [OF assms(1)] IsEmpty_iff_Size [OF assms(1)] full_iff_Size [OF assms(1)]
  by (auto simp: RingBuffer_IsFull_def simp flip: length_0_conv)

theorem ring_buffer_refines_queue_witness:
  "RingBuffer_list \<lparr>buffer = [1, 2, 3, 4], head = 1, tail = 3, full = False\<rparr> = [4, 1] \<and>
   (\<exists>r'. RingBuffer_Write \<lparr>buffer = [1, 2, 3, 4], head = 1, tail = 3, full = False\<rparr> (Some [7, 8, 9]) 3 = Inr (2, r') \<and>
     RingBuffer_list r' = [4, 1, 7, 8])"
proof -
  let ?r = "\<lparr>buffer = [1, 2, 3, 4], head = 1, tail = 3, full = False\<rparr> :: ring"
  have l: "RingBuffer_list ?r = [4, 1]"
    by (simp add: RingBuffer_list_def RingBuffer_Size_def BufferSize_def upt_rec)
  have sz: "RingBuffer_Size ?r = 2" by (simp add: RingBuffer_Size_def BufferSize_def)
  have "ring_inv ?r" by (simp add: ring_inv_def BufferSize_def)
  then show ?thesis
    using ring_buffer_refines_queue [of ?r 0 "[]" "[7, 8, 9]" 0] l sz by (auto simp: BufferSize_def numeral_eq_Suc)
qed

text \<open>
  C21. A received segment that does not fit the ring buffer is cut at the free space. The result of the write is
  not used: the rest of the segment is dropped without an error, and the stream of the connection has a hole.
\<close>

theorem receive_truncates:
  assumes "user_inv u" and "user_free u < length ds"
  shows "\<exists>u'. User_SetPacketData u (length ds) (Some ds) = Inr u' \<and> user_inv u' \<and> user_free u' = 0 \<and>
    user_bytes u' = user_bytes u @ take (user_free u) ds"
proof -
  obtain rb where r: "User_SetPacketData u (length ds) (Some ds) = Inr (u\<lparr>mPacketDataBuffer := rb\<rparr>)"
    "user_inv (u\<lparr>mPacketDataBuffer := rb\<rparr>)" "BufferSize rb = BufferSize (mPacketDataBuffer u)"
    "RingBuffer_list rb = user_bytes u @ take (user_free u) ds"
    using SetPacketData_refines [OF assms(1) refl] by blast
  have "RingBuffer_Size rb = RingBuffer_Size (mPacketDataBuffer u) + user_free u"
    using arg_cong [OF r(4), of length] assms(2) by (simp add: length_user_bytes)
  then have "user_free (u\<lparr>mPacketDataBuffer := rb\<rparr>) = 0" using r(3) by (simp add: user_free_def)
  then show ?thesis using r by (auto simp: user_bytes_def)
qed

theorem receive_truncates_witness:
  "\<exists>u'. User_SetPacketData (demo_user 0) 9000 (Some (replicate 9000 7)) = Inr u' \<and>
    user_bytes u' = replicate 8096 7"
proof -
  have "user_free (demo_user 0) = 8096"
    using length_user_bytes [of "demo_user 0"] by (simp add: user_free_def)
  then show ?thesis using receive_truncates [of "demo_user 0" "replicate 9000 7"] by auto
qed

text \<open>
  C22. The answer of the Redis worker names the slot only. When the client that asked disconnects before its
  login is finished, the answer still waits, and the logic thread logs in whoever has the slot then, under
  the name of the client that has gone.
\<close>

theorem response_reaches_next_client:
  assumes "pm_inv pm" and "i < length (pm_users pm)" and "mCurDomainState (pm_users pm ! i) = DS_NONE"
    and "name_ok uid" and "mUserIDDictionary (mUserManager pm) uid = None"
    and "R_mResponseTask (mRedisManager pm) = [t]"
    and "t = \<lparr>R_UserIndex = i, R_TaskID = RESPONSE_LOGIN, R_DataSize = RedisLoginRes_size,
      R_pData = Some (RedisLoginRes_bytes pad (error_val EC_NONE) uid)\<rparr>"
  shows "\<exists>pm1 pm2 pm3. PacketManager_ClearConnectionInfo pm i = Inr pm1 \<and>
    take_response pm1 = (t, pm2) \<and> handle_response pm2 t = Inr pm3 \<and>
    mUserID (pm_users pm3 ! i) = uid \<and> mCurDomainState (pm_users pm3 ! i) = DS_LOGIN \<and>
    sent pm3 = sent pm @ [(i, 7, LOGIN_RESPONSE_PACKET (error_val EC_NONE))]"
  using assms by (rule response_after_disconnect)

theorem response_reaches_next_client_witness:
  "\<exists>pm1 pm2 t pm3. PacketManager_ClearConnectionInfo (demo_answered 1 0 alice) 0 = Inr pm1 \<and>
    take_response pm1 = (t, pm2) \<and> handle_response pm2 t = Inr pm3 \<and> mUserID (pm_users pm3 ! 0) = alice"
  using response_reaches_next_client [of "demo_answered 1 0 alice" 0 alice _ "\<lambda>_. 0"] demo_answered_inv [of 1 0 alice]
    demo_users(1) [of 1]
  by (auto simp: demo_answered_def)

text \<open>
  C23. A packet of the logic thread names a slot, not a connection. Let the handler of a chat message be about to run, and
  the network layer close the connection of a member and accept another client on its slot before that (the connection
  counter of the session has changed). The packet manager still has the old name and the old generation for the slot,
  and the message goes to the queue of the new connection: a client that has not logged in reads the room.
\<close>

theorem chat_reaches_next_client:
  assumes "whole_inv good n (io, pm, Handling i pk ts)" and "(net_move good)\<^sup>*\<^sup>* (io, pm) (io', pm')"
    and "chat_ready pm i msg" and "PacketId pk = ucast (packet_id_val ROOM_CHAT_REQUEST)"
    and "pDataPtr pk = TempBuf i" and "deref pm (TempBuf i) = Inr mem" and "c_str (drop off_Message mem) = Inr msg"
    and "sends_ready io'" and "length (room_mates pm i) < length (mFreeList (send_pool (mNet io')))"
    and "j \<in> set (room_mates pm i)" and "j < n" and "mIsConnected (mClientInfos io' ! j)"
    and "S_mGeneration (mClientInfos io' ! j) \<noteq> S_mGeneration (mClientInfos io ! j)"
  shows "mUserID (pm_users pm' ! j) = mUserID (pm_users pm ! j) \<and> mGeneration (pm_users pm' ! j) = mGeneration (pm_users pm ! j) \<and>
    (\<exists>io'' pm''. whole_step good redis_get pad (io', pm', Handling i pk ts) (io'', pm'', InTask i ts) \<and>
      (\<exists>ps. waiting io'' j = waiting io' j @ ps \<and>
        packet_bytes ty (ROOM_CHAT_NOTIFY_PACKET (mUserID (pm_users pm ! i)) msg) \<in> set ps))"
proof -
  have "j < length (pm_users pm)" using assms(1,11) by (simp add: whole_inv_def server_inv_def queues_ok_def)
  then have "mUserID (pm_users pm' ! j) = mUserID (pm_users pm ! j) \<and> mGeneration (pm_users pm' ! j) = mGeneration (pm_users pm ! j)"
    using net_moves_people [OF assms(2)] by (fastforce simp: same_people_def)
  moreover have "count_list (room_mates pm i) j \<noteq> 0" using assms(10) by (simp add: count_list_0_iff)
  then have "x \<in> set (xs @ replicate (count_list (room_mates pm i) j) x)" for x :: "byte list" and xs by simp
  ultimately show ?thesis
    using chat_after_moves [OF assms(1-9), of redis_get pad ty] assms(11) by blast
qed

theorem chat_reaches_next_client_witness:
  "\<exists>io pm io' pm' io'' pm'' pk. (net_move True)\<^sup>*\<^sup>* (io, pm) (io', pm') \<and>
    S_mGeneration (mClientInfos io' ! 0) \<noteq> S_mGeneration (mClientInfos io ! 0) \<and>
    whole_step True demo_get (\<lambda>_. 0) (io', pm', Handling 0 pk []) (io'', pm'', InTask 0 []) \<and>
    packet_bytes 0 (ROOM_CHAT_NOTIFY_PACKET alice [104, 105]) \<in> set (waiting io'' 0)"
proof -
  obtain pm pk mem where h: "whole_inv True 2 (demo_two, pm, Handling 0 pk [])" "chat_ready pm 0 [104, 105]"
    "room_mates pm 0 = [0]" "mUserID (pm_users pm ! 0) = alice" "PacketId pk = ucast (packet_id_val ROOM_CHAT_REQUEST)"
    "pDataPtr pk = TempBuf 0" "deref pm (TempBuf 0) = Inr mem" "c_str (drop off_Message mem) = Inr [104, 105]"
    using demo_handling by blast
  obtain io' pm' where m: "(net_move True)\<^sup>*\<^sup>* (demo_two, pm) (io', pm')" "sends_ready io'" "mIsConnected (mClientInfos io' ! 0)"
    "S_mGeneration (mClientInfos io' ! 0) \<noteq> S_mGeneration (mClientInfos demo_two ! 0)"
    "length (mFreeList (send_pool (mNet io'))) = 8" "waiting io' 0 = []"
    using demo_moves [OF h(1)] by blast
  have "length (room_mates pm 0) < length (mFreeList (send_pool (mNet io')))" "0 \<in> set (room_mates pm 0)" "(0 :: nat) < 2"
    using h(3) m(5) by simp_all
  then obtain io'' pm'' ps where
    "whole_step True demo_get (\<lambda>_. 0) (io', pm', Handling 0 pk []) (io'', pm'', InTask 0 [])" "waiting io'' 0 = waiting io' 0 @ ps"
    "packet_bytes 0 (ROOM_CHAT_NOTIFY_PACKET alice [104, 105]) \<in> set ps"
    using chat_reaches_next_client [OF h(1) m(1) h(2,5-8) m(2) _ _ _ m(3,4), of demo_get "\<lambda>_. 0" 0] h(4) by metis
  then show ?thesis
    using m(1,4)
    by (intro exI [of _ demo_two] exI [of _ pm] exI [of _ io'] exI [of _ pm'] exI [of _ io''] exI [of _ pm''] exI [of _ pk]) simp
qed

text \<open>
  C24. The predicate of the logic thread's wait is tested under \<open>mLock\<close>, but the Redis worker pushes its answer and notifies
  without that lock. Whenever the logic thread waits with nothing to do and the worker has an answer to give, the state is reachable
  in which the answer is queued, the predicate of the wait is true, the thread sleeps, and no notification is on its way;
  and as long as nothing else notifies, the thread sleeps on and the answer stays where it is: the client's login
  hangs until there is other traffic.
\<close>

theorem redis_answer_missed:
  assumes "reach (server_init mem n) (server_step redis_get pad) (pm, Waiting)" and "\<not> wake_up pm"
    and "redis_step redis_get pad True pm pm'"
  shows "reach (cv_start (server_init mem n)) (cv_step (logic_monitor redis_get pad) spurious) ((pm', Waiting), Asleep, 0) \<and>
    wake_up pm' \<and> R_mResponseTask (mRedisManager pm') \<noteq> [] \<and>
    (\<forall>pm2 c w k. (quiet_step (logic_monitor redis_get pad))\<^sup>*\<^sup>* ((pm', Waiting), Asleep, 0) ((pm2, c), w, k) \<longrightarrow>
      w = Asleep \<and> R_mResponseTask (mRedisManager pm2) = R_mResponseTask (mRedisManager pm'))"
proof (intro conjI allI impI)
  show "R_mResponseTask (mRedisManager pm') \<noteq> []"
    using assms(2,3) by (auto simp: redis_step_def wake_up_def RedisManager_HasResponseTask_def)
qed (use answer_missed [OF assms] in blast)+

theorem redis_answer_missed_witness:
  "\<exists>pm. reach (cv_start (server_init demo_mem 2)) (cv_step (logic_monitor demo_get (\<lambda>_. 0)) False)
      ((pm, Waiting), Asleep, 0) \<and> R_mResponseTask (mRedisManager pm) = [demo_answer]"
proof -
  obtain pm pm' where d: "reach (server_init demo_mem 2) (server_step demo_get (\<lambda>_. 0)) (pm, Waiting)" "\<not> wake_up pm"
    "redis_step demo_get (\<lambda>_. 0) True pm pm'" "R_mResponseTask (mRedisManager pm') = [demo_answer]"
    using demo_before_answer by blast
  show ?thesis using redis_answer_missed [OF d(1-3)] d(4) by blast
qed

text \<open>
  C25. The waits on the three condition variables. With the wait of the logic thread split into testing, sleeping and being
  notified, exactly the states of the server's step relation are reached. What is pushed or set under the lock of a
  wait (packets, connections, disconnections and \<open>End\<close> for the logic thread; requests and \<open>End\<close> for the workers) is never
  missed: as long as the thread sleeps, a notification is on its way, and it wakes the thread.
\<close>

theorem locked_pushes_wake_up:
  "((\<exists>w k. reach (cv_start (server_init mem n)) (cv_step (logic_monitor redis_get pad) spurious) ((pm, c), w, k)) \<longleftrightarrow>
      reach (server_init mem n) (server_step redis_get pad) (pm, c)) \<and>
    (reach (cv_start (server_init mem n)) (cv_step (logic_monitor redis_get pad) spurious) ((pm, c), Asleep, k) \<and>
      locked_wake_up (pm, c) \<longrightarrow>
      (\<exists>j. k = Suc j \<and> cv_step (logic_monitor redis_get pad) spurious ((pm, c), Asleep, k) ((pm, c), Working, j))) \<and>
    (reach (cv_start red_init) (cv_step (redis_monitor redis_get pad) spurious) (red, Asleep, k) \<and> redis_ready red \<longrightarrow>
      (\<exists>j. k = Suc j \<and> cv_step (redis_monitor redis_get pad) spurious (red, Asleep, k) (red, Working, j))) \<and>
    (reach (cv_start my_init) (cv_step mysql_monitor spurious) (my, Asleep, k) \<and> mysql_ready my \<longrightarrow>
      (\<exists>j. k = Suc j \<and> cv_step mysql_monitor spurious (my, Asleep, k) (my, Working, j)))"
proof (intro conjI impI iffI)
  assume "\<exists>w k. reach (cv_start (server_init mem n)) (cv_step (logic_monitor redis_get pad) spurious) ((pm, c), w, k)"
  then show "reach (server_init mem n) (server_step redis_get pad) (pm, c)"
    by (metis cv_reach_sound fst_conv logic_monitor_steps)
next
  assume "reach (server_init mem n) (server_step redis_get pad) (pm, c)"
  then show "\<exists>w k. reach (cv_start (server_init mem n)) (cv_step (logic_monitor redis_get pad) spurious) ((pm, c), w, k)"
    by (metis cv_reach_complete logic_monitor_steps)
qed (blast intro: logic.wakes_up redis_wait.wakes_up mysql_wait.wakes_up)+

theorem locked_pushes_wake_up_witness:
  "\<exists>pm. locked_wake_up (pm, Waiting) \<and>
    cv_step (logic_monitor demo_get (\<lambda>_. 0)) False ((pm, Waiting), Asleep, 1) ((pm, Waiting), Working, 0)"
proof -
  obtain pm where d: "reach (cv_start (server_init demo_mem 2)) (cv_step (logic_monitor demo_get (\<lambda>_. 0)) False)
      ((pm, Waiting), Asleep, 1) \<and> locked_wake_up (pm, Waiting)"
    using demo_announced by blast
  have "\<exists>j. 1 = Suc j \<and> cv_step (logic_monitor demo_get (\<lambda>_. 0)) False ((pm, Waiting), Asleep, 1) ((pm, Waiting), Working, j)"
    by (rule locked_pushes_wake_up [THEN conjunct2, THEN conjunct1, THEN mp, OF d])
  then show ?thesis using d by auto
qed

text \<open>
  C26. Shutting the Redis manager down returns, however many requests are queued: the worker (the program starts one) answers each of
  them, in order, with the verdict of the database, and then leaves its loop; nothing is lost.
\<close>

theorem redis_worker_drains_on_shutdown:
  assumes "R_mTaskThreads m = 1" and "R_mRequestTask m = map (\<lambda>(i, uid, pw). login_request_task i (char_field 33 uid @ char_field 33 pw)) qs"
    and "list_all login_request_ok qs"
  shows "RedisManager_End redis_get pad m = Inr (m\<lparr>R_mIsTaskRun := False, R_mRequestTask := [],
    R_mResponseTask := R_mResponseTask m @ map (login_answer redis_get pad) qs, R_mTaskThreads := 0\<rparr>)"
  using assms by (rule RedisManager_End_logins)

theorem redis_worker_drains_on_shutdown_witness:
  "\<exists>m'. RedisManager_End demo_get (\<lambda>_. 0) (RedisManager_PushTask (snd (RedisManager_Run RedisManager_new 1))
      (login_request_task 3 (char_field 33 alice @ char_field 33 [112]))) = Inr m' \<and>
    R_mRequestTask m' = [] \<and> map R_UserIndex (R_mResponseTask m') = [3]"
  using redis_worker_drains_on_shutdown [of "RedisManager_PushTask (snd (RedisManager_Run RedisManager_new 1))
      (login_request_task 3 (char_field 33 alice @ char_field 33 [112]))" "[(3, alice, [112])]" demo_get "\<lambda>_. 0"]
  by (simp add: login_request_ok_def login_answer_def RedisManager_new_def RedisManager_Run_def RedisManager_PushTask_def
      packet_consts)

text \<open>
  C27. With the one worker that the program starts and a healthy connection, shutting the MySQL manager down writes every queued
  activity before it returns, and the worker has released its connection:
  the rows are, in order, the activities the packed tasks were built from, with names, room numbers, event
  kinds, messages and times unchanged.
\<close>

theorem activities_recorded_on_shutdown:
  assumes "M_mTaskThreads m = 1" and "M_mRequestTask m = map (\<lambda>(i, a). task_of i a) ias"
    and "list_all (\<lambda>(i, a). activity_ok a) ias" and "stmts_open conn" and "\<And>j. healthy (env j)"
  shows "\<exists>m' conn'. MySQLManager_End env k (m, conn, rows) =
    Inr (m', conn', rows @ map (\<lambda>(i, a). row_of a) ias) \<and> M_mRequestTask m' = [] \<and> \<not> connection conn'"
  using healthy_loop [of "m\<lparr>M_mIsTaskRun := False\<rparr>" ias conn env k rows] assms
  by (auto simp: MySQLManager_End_def MySQL_worker_def Let_def MySQL_CloseConnection_def MySQL_CleanupStatements_def)

theorem activities_recorded_on_shutdown_witness:
  "\<exists>m' conn'. MySQLManager_End (\<lambda>_. demo_env) 1 ((snd (MySQLManager_Run MySQLManager_new 1))\<lparr>M_mRequestTask :=
      [task_of 0 (RoomActivity alice 7 ENTER 99), task_of 0 (ChatActivity alice 7 [104, 105] 100)]\<rparr>, demo_conn, []) =
    Inr (m', conn', [RoomRow alice 7 1 99, ChatRow alice 7 [104, 105] 100])"
  using activities_recorded_on_shutdown [of "(snd (MySQLManager_Run MySQLManager_new 1))\<lparr>M_mRequestTask :=
      [task_of 0 (RoomActivity alice 7 ENTER 99), task_of 0 (ChatActivity alice 7 [104, 105] 100)]\<rparr>"
      "[(0, RoomActivity alice 7 ENTER 99), (0, ChatActivity alice 7 [104, 105] 100)]" demo_conn "\<lambda>_. demo_env" 1 "[]"]
  by (auto simp: MySQLManager_new_def MySQLManager_Run_def demo_env_def demo_conn_def healthy_def stmts_open_def packet_consts)

text \<open>
  C28. When the worker connects but cannot prepare its statements (a missing table, say), it goes on, and since
  the connection answers the ping the statements are never prepared again: the first login event is written
  through a null statement.
\<close>

theorem failed_prepare_crashes_worker:
  assumes "env_init (env 0)" and "\<And>c. env_connect (env 0) c" and "\<not> fst (env_create (env 0))"
    and "env_ping (env 1)" and "name_ok uid"
    and "M_mRequestTask m = task_of i (LoginActivity uid ts) # rest"
  shows "MySQL_TaskProcessThread env m = Inl NullPointer"
  using assms by (rule failed_prepare_ends_worker)

theorem failed_prepare_crashes_worker_witness:
  "MySQL_TaskProcessThread (\<lambda>_. demo_env\<lparr>env_create := (False, True, True)\<rparr>)
    (MySQLManager_new\<lparr>M_mRequestTask := [task_of 0 (LoginActivity alice 99)]\<rparr>) = Inl NullPointer"
  by (rule failed_prepare_crashes_worker [where i = 0 and uid = alice and ts = 99 and rest = "[]"])
    (simp_all add: demo_env_def)

text \<open>
  C29. After any run of sends and completions of a connection (whose \<open>WSASend\<close> calls are accepted), the messages
  given to the kernel are the completed ones and at most one more, unchanged and in the order of the calls
  of \<open>SendMsg\<close>; the send queue holds the messages that are not completed yet, its head being in flight.
\<close>

theorem sends_in_order_one_in_flight:
  assumes "session_run ws net s msgs c"
  shows "wsasends net = take (c + (if mSendDataqueue s = [] then 0 else 1)) msgs \<and>
    map (payload net) (mSendDataqueue s) = drop c msgs \<and> c \<le> length msgs"
  using session_run_inv [OF assms] by simp

theorem sends_in_order_one_in_flight_witness:
  "\<exists>net s. session_run (\<lambda>_. demo_ws) net s [pong, alice] 0 \<and> wsasends net = [pong] \<and>
    map (payload net) (mSendDataqueue s) = [pong, alice]"
proof -
  have ok: "net_ok (demo_net 4)" "queue_ok (demo_net 4) (demo_session 0)" by simp_all
  have run0: "session_run (\<lambda>_. demo_ws) (demo_net 4) (demo_session 0) [] 0"
    by (rule run_init) (simp_all add: wsasends_def, simp add: demo_net_def)
  obtain a1 n1 s1 where m1: "ClientSession_SendMsg demo_ws (demo_net 4) (demo_session 0) (length pong) pong = Inr (True, n1, s1)"
    "net_ok n1" "queue_ok n1 s1" "op.in_use (send_pool n1) = insert a1 (op.in_use (send_pool (demo_net 4)))"
    "mAllBlocks (send_pool n1) = mAllBlocks (send_pool (demo_net 4))" "mSendDataqueue s1 \<noteq> []"
    using SendMsg_queued [OF ok, of pong "length pong" demo_ws] demo_pool_free by (fastforce simp: pong_def SESSION_SOCKBUF_def)
  have run1: "session_run (\<lambda>_. demo_ws) n1 s1 ([] @ [pong]) 0"
    by (rule run_send [OF run0, where n = "length pong"])
      (use m1(1) in \<open>simp_all add: demo_ws_def, simp_all add: pong_def SESSION_SOCKBUF_def\<close>)
  have "mFreeList (send_pool n1) \<noteq> []"
    using m1(4,5) demo_pool_left [of "send_pool n1"] by blast
  then obtain n2 s2 where m2: "ClientSession_SendMsg demo_ws n1 s1 (length alice) alice = Inr (True, n2, s2)"
    "mSendDataqueue s2 \<noteq> []"
    using SendMsg_queued [OF m1(2,3), of alice "length alice" demo_ws] by (fastforce simp: alice_def SESSION_SOCKBUF_def)
  have run2: "session_run (\<lambda>_. demo_ws) n2 s2 ([pong] @ [alice]) 0"
    by (rule run_send [where n = "length alice"], use run1 in simp)
      (use m2(1) in \<open>simp_all add: demo_ws_def, simp_all add: alice_def SESSION_SOCKBUF_def\<close>)
  then have run: "session_run (\<lambda>_. demo_ws) n2 s2 [pong, alice] 0" by simp
  show ?thesis using sends_in_order_one_in_flight [OF run] run m2(2) by (intro exI [of _ n2] exI [of _ s2]) simp
qed

text \<open>
  C30. Neither \<open>Closed\<close> nor \<open>OnConnect\<close> empties the send queue. When a connection ends while a send is pending,
  the next client on the slot inherits the queue: whatever the server sends to it is queued behind the old
  message, and not a single message is handed to the kernel.
\<close>

theorem pending_send_starves_next_client:
  assumes "net_ok net" and "queue_ok net s" and "mSendDataqueue s \<noteq> []"
    and "ClientSession_Closed ws0 net s f = (net1, s1)"
    and "ClientSession_PostImmediateAccept ws1 net1 s1 = (True, net2, s2)"
    and "ClientSession_AcceptCompletion ws2 net2 s2 = (True, net3, s3)"
    and "list_all (\<lambda>m. length m \<le> SESSION_SOCKBUF) ms"
  shows "\<exists>net4 s4. sends ws' net3 s3 ms = Inr (net4, s4) \<and> wsasends net4 = wsasends net"
  using assms by (rule stale_queue_blocks)

theorem pending_send_starves_next_client_witness:
  "\<exists>net s net1 s1 net2 s2 net3 s3 net4 s4.
    ClientSession_SendMsg demo_ws (demo_net 4) (demo_session 0) (length pong) pong = Inr (True, net, s) \<and>
    ClientSession_Closed demo_ws net s True = (net1, s1) \<and>
    ClientSession_PostImmediateAccept demo_ws net1 s1 = (True, net2, s2) \<and>
    ClientSession_AcceptCompletion demo_ws net2 s2 = (True, net3, s3) \<and>
    sends (\<lambda>_. demo_ws) net3 s3 [alice, pong] = Inr (net4, s4) \<and> wsasends net4 = [pong]"
proof -
  obtain net s where m: "ClientSession_SendMsg demo_ws (demo_net 4) (demo_session 0) (length pong) pong = Inr (True, net, s)"
    "net_ok net" "queue_ok net s" "mSendDataqueue s \<noteq> []" "wsasends net = [pong]"
    using demo_first_send by blast
  obtain net1 s1 net2 s2 net3 s3 where r: "ClientSession_Closed demo_ws net s True = (net1, s1)"
    "ClientSession_PostImmediateAccept demo_ws net1 s1 = (True, net2, s2)"
    "ClientSession_AcceptCompletion demo_ws net2 s2 = (True, net3, s3)"
    using demo_reconnect by blast
  have "list_all (\<lambda>m. length m \<le> SESSION_SOCKBUF) [alice, pong]"
    by (simp add: pong_def alice_def SESSION_SOCKBUF_def)
  from pending_send_starves_next_client [OF m(2-4) r this, of "\<lambda>_. demo_ws"] m(5)
  obtain net4 s4 where "sends (\<lambda>_. demo_ws) net3 s3 [alice, pong] = Inr (net4, s4)" "wsasends net4 = [pong]" by auto
  then show ?thesis using m(1) r by blast
qed

text \<open>
  C31. The pool of send blocks: a block that is handed out was not in use before and is the only one that
  changes hands; the number of free blocks and of blocks in use is the size of the pool before and after;
  giving the block back restores the set of blocks in use.
\<close>

theorem send_blocks_conserved:
  assumes "pool_ok p" and "distinct (mAllBlocks p)" and "ObjectPool_Alloc p = (Some a, p')"
  shows "a \<in> set (mAllBlocks p) \<and> a \<notin> op.in_use p \<and> op.in_use p' = insert a (op.in_use p) \<and> pool_ok p' \<and>
    ObjectPool_GetAvailableCount p' + card (op.in_use p') = ObjectPool_GetAvailableCount p + card (op.in_use p) \<and>
    op.in_use (ObjectPool_Free p' (Some a)) = op.in_use p \<and> pool_ok (ObjectPool_Free p' (Some a))"
proof -
  note f = op.alloc_fresh [OF assms(1,3)]
  have b: "mAllBlocks p' = mAllBlocks p" using assms(3) by (auto simp: ObjectPool_Alloc_def split: if_splits)
  have "a \<in> op.in_use p'" using f(4) by simp
  then show ?thesis
    using f op.release_in_use [OF f(1), of a] pool_conservation [OF assms(1,2)] pool_conservation [OF f(1)] assms(2) b
    by auto
qed

theorem send_blocks_conserved_witness:
  "\<exists>p'. ObjectPool_Alloc (ObjectPool_Init ObjectPool_new 3) = (Some 2, p') \<and>
    ObjectPool_GetAvailableCount p' + card (op.in_use p') = 3"
proof -
  obtain p' where "ObjectPool_Alloc (ObjectPool_Init ObjectPool_new 3) = (Some 2, p')"
    by (simp add: ObjectPool_Alloc_def ObjectPool_Init_eq upt_rec)
  moreover have "op.in_use (ObjectPool_Init ObjectPool_new 3) = {}"
    by (simp add: op.in_use_def ObjectPool_Init_eq)
  moreover have "distinct (mAllBlocks (ObjectPool_Init ObjectPool_new 3))" "mFreeList (ObjectPool_Init ObjectPool_new 3) = [0..<3]"
    by (simp_all add: ObjectPool_Init_eq)
  ultimately show ?thesis
    using send_blocks_conserved [OF pool_ok_Init, of 3 2 p']
    by (intro exI [of _ p']) (auto simp: ObjectPool_GetAvailableCount_def)
qed

text \<open>
  C32. Under any order of completions, sends, closes and rounds of the timeout thread, whatever calls fail: no session index is in the
  free list or posted for an accept twice, none that waits there is connected, and the counter of clients is at least
  the number of connected sessions and at most the number of slots that do not wait. While the calls that hand slots over and re-arm
  receives succeed (\<open>good\<close>), the counter is exact and no slot is lost. The last part says what a failing \<open>WSARecv\<close> does: the
  session is neither connected nor free nor posted, and the counter goes on counting it.
\<close>

theorem slots_never_lost:
  assumes "reach (net_init good n) (net_step good) io"
  shows "distinct (mFreeSessionList io @ posted io) \<and>
    set (mFreeSessionList io @ posted io) \<inter> connected_slots io = {} \<and>
    int (card (connected_slots io)) \<le> mClientCnt io \<and>
    mClientCnt io \<le> int n - int (length (mFreeSessionList io) + length (posted io)) \<and>
    (good \<longrightarrow> mClientCnt io = int (card (connected_slots io)) \<and>
      set (mFreeSessionList io) \<union> set (posted io) \<union> connected_slots io = {0..<n}) \<and>
    (\<forall>i ws k data io'. i \<in> connected_slots io \<and> \<not> ws_recv ws \<and>
       ovl_generation (m_stRecvOverlappedEx (mClientInfos io ! i)) = S_mGeneration (mClientInfos io ! i) \<and>
       IOCP_recv ws io i (OvlRecv i) k data = Inr io' \<longrightarrow>
         i \<notin> set (mFreeSessionList io' @ posted io') \<union> connected_slots io' \<and>
         mClientCnt io' - int (card (connected_slots io')) = mClientCnt io - int (card (connected_slots io)) + 1)"
proof -
  have inv: "net_inv good n io" by (rule nets.inv_reach [OF assms])
  then have ok: "slots_ok io" by (simp add: net_inv_def)
  have "i \<notin> set (mFreeSessionList io' @ posted io') \<union> connected_slots io' \<and>
      mClientCnt io' - int (card (connected_slots io')) = mClientCnt io - int (card (connected_slots io)) + 1"
    if "i \<in> connected_slots io \<and> \<not> ws_recv ws \<and>
       ovl_generation (m_stRecvOverlappedEx (mClientInfos io ! i)) = S_mGeneration (mClientInfos io ! i) \<and>
       IOCP_recv ws io i (OvlRecv i) k data = Inr io'" for i ws k data io'
    using that failed_receive_loses_slot(1-3) [OF ok, of i ws k data io'] by (simp add: connected_slots_def)
  then show ?thesis using net_inv_slots [OF inv] by blast
qed

theorem slots_never_lost_witness:
  "\<exists>io. reach (net_init True 1) (net_step True) io \<and>
    set (mFreeSessionList io) \<union> set (posted io) \<union> connected_slots io = {0..<1} \<and> mClientCnt io = 1"
  using demo_net_reach slots_never_lost [of True 1] by blast

text \<open>
  C33. The supply of accepts. At most \<open>MAX_PENDING_ACCEPT\<close> accepts are posted, and whatever happens their number never
  grows: the completion of one posts at most one other, and closing a connection posts none. When every slot is connected
  at the same time, no accept is posted, and from then on nobody is ever connected who was not, in any order of
  completions, sends, closes and timeouts. All clients may leave: then every slot is in the free list, the counter is
  0, and still no accept is posted. The server has to be restarted.
\<close>

theorem full_server_never_accepts_again:
  assumes "reach (net_init good n) (net_step good) io"
  shows "length (posted io) \<le> MAX_PENDING_ACCEPT \<and>
    (\<forall>io'. (net_step good)\<^sup>*\<^sup>* io io' \<longrightarrow> length (posted io') \<le> length (posted io)) \<and>
    (connected_slots io = {0..<n} \<longrightarrow>
      (\<forall>io'. (net_step good)\<^sup>*\<^sup>* io io' \<longrightarrow> posted io' = [] \<and> connected_slots io' \<subseteq> connected_slots io) \<and>
      (\<exists>io'. (net_step good)\<^sup>*\<^sup>* io io' \<and> connected_slots io' = {} \<and> mClientCnt io' = 0 \<and>
        set (mFreeSessionList io') = {0..<n} \<and>
        (\<forall>io''. (net_step good)\<^sup>*\<^sup>* io' io'' \<longrightarrow> posted io'' = [] \<and> connected_slots io'' = {})))"
proof (intro conjI allI impI)
  show "length (posted io) \<le> MAX_PENDING_ACCEPT" using assms by (rule posted_bound)
  show "length (posted io') \<le> length (posted io)" if "(net_step good)\<^sup>*\<^sup>* io io'" for io'
    using that by (rule net_steps_posted)
  have inv: "net_inv good n io" "slots_ok io" "length (mClientInfos io) = n"
    using nets.inv_reach [OF assms] by (simp_all add: net_inv_def)
  assume f: "connected_slots io = {0..<n}"
  then have e: "posted io = []" "mFreeSessionList io = []" using full_nothing_posted [OF inv(2)] inv(3) by simp_all
  show "posted io' = []" "connected_slots io' \<subseteq> connected_slots io" if "(net_step good)\<^sup>*\<^sup>* io io'" for io'
    using net_steps_connected [OF that inv(1) e(1)] by simp_all
  obtain io' where io': "(net_step good)\<^sup>*\<^sup>* io io'" "connected_slots io' = {}" "slots_ok io'" "posted io' = posted io"
    "set (mFreeSessionList io') = set (mFreeSessionList io) \<union> connected_slots io"
    using all_clients_leave [OF inv(2)] by blast
  have "net_inv good n io'" "posted io' = []" using net_steps_connected [OF io'(1) inv(1) e(1)] by simp_all
  then have "\<forall>io''. (net_step good)\<^sup>*\<^sup>* io' io'' \<longrightarrow> posted io'' = [] \<and> connected_slots io'' = {}"
    using net_steps_connected io'(2) by blast
  moreover have "mClientCnt io' = 0"
  proof -
    have "set (mFreeSessionList io') = {0..<n}" "distinct (mFreeSessionList io')" "length (mClientInfos io') = n"
      using io'(3,5) e(2) f \<open>net_inv good n io'\<close> by (auto simp: slots_ok_def net_inv_def)
    then have "length (mFreeSessionList io') = n" using distinct_card by fastforce
    then show ?thesis using io'(2,3) \<open>length (mClientInfos io') = n\<close> by (simp add: slots_ok_def)
  qed
  ultimately show "\<exists>io'. (net_step good)\<^sup>*\<^sup>* io io' \<and> connected_slots io' = {} \<and> mClientCnt io' = 0 \<and>
      set (mFreeSessionList io') = {0..<n} \<and>
      (\<forall>io''. (net_step good)\<^sup>*\<^sup>* io' io'' \<longrightarrow> posted io'' = [] \<and> connected_slots io'' = {})"
    using io'(1,2,5) e(2) f by auto
qed

theorem full_server_never_accepts_again_witness:
  "\<exists>io io'. reach (net_init True 1) (net_step True) io \<and> mClientCnt io = 1 \<and> (net_step True)\<^sup>*\<^sup>* io io' \<and>
    mClientCnt io' = 0 \<and> set (mFreeSessionList io') = {0..<1} \<and> posted io' = []"
proof -
  obtain io where r: "reach (net_init True 1) (net_step True) io" "mClientCnt io = 1" using demo_net_reach by blast
  have "net_inv True 1 io" using nets.inv_reach [OF r(1)] .
  then have s: "mClientCnt io = int (card (connected_slots io))" "length (mClientInfos io) = 1"
    using net_inv_slots [of True 1 io] by (simp_all add: net_inv_def)
  then have "connected_slots io \<noteq> {}" using r(2) by auto
  moreover have "connected_slots io \<subseteq> {0}" using s(2) by (auto simp: connected_slots_def)
  ultimately have "connected_slots io = {0..<1}" by auto
  then show ?thesis using full_server_never_accepts_again [OF r(1)] r by blast
qed

text \<open>
  C34. The shutdown of the workers: \<open>DestroyThread\<close> clears the flag, posts one null entry for each worker, and joins them before
  it closes the port. A worker in \<open>GetQueuedCompletionStatusEx\<close> waits without a timeout and may be handed several
  entries at once, up to \<open>MAX_COMPLETION_ENTRIES\<close>. So with two to 64 workers, all waiting, a state can be reached in which some worker
  has not left and nothing can happen any more (the joins never return), although other schedules end well.
  If each call took one entry, there would be no such state, and every step would bring the end nearer.
\<close>

theorem shutdown_can_hang:
  assumes "2 \<le> mIOWorkerThreads io" and "mIOWorkerThreads io \<le> MAX_COMPLETION_ENTRIES"
  shows "(\<exists>s. reach (workers_start io) (worker_step MAX_COMPLETION_ENTRIES) s \<and> \<not> all_gone s \<and>
           (\<forall>t. \<not> worker_step MAX_COMPLETION_ENTRIES s t)) \<and>
    (\<exists>s. reach (workers_start io) (worker_step MAX_COMPLETION_ENTRIES) s \<and> all_gone s) \<and>
    (\<forall>s. reach (workers_start io) (worker_step 1) s \<longrightarrow>
       (all_gone s \<or> (\<exists>t. worker_step 1 s t)) \<and> (\<forall>t. worker_step 1 s t \<longrightarrow> todo t < todo s))"
  using one_takes_all [OF assms] shutdown_may_end [of MAX_COMPLETION_ENTRIES io] assms
    one_entry_no_deadlock workers_progress [OF workers.inv_reach] by auto

theorem shutdown_can_hang_witness:
  "\<exists>s. reach (workers_start (demo_one\<lparr>mIOWorkerThreads := MAX_WORKERTHREAD\<rparr>)) (worker_step MAX_COMPLETION_ENTRIES) s \<and>
     \<not> all_gone s \<and> (\<forall>t. \<not> worker_step MAX_COMPLETION_ENTRIES s t)"
  by (rule shutdown_can_hang [THEN conjunct1]) (simp_all add: MAX_WORKERTHREAD_def MAX_COMPLETION_ENTRIES_def)

text \<open>
  C35. \<open>CloseSocket\<close> tests \<open>mIsConnected\<close> without a lock. However the workers that close one connection interleave: when
  \<open>closed_by pc\<close> are the workers that have passed the test and closed, the index has been pushed on the free list once for each
  of them, the counter has gone down as often, and so many close events have been reported. The session counts as connected until one has closed,
  and a worker is turned away by the test only after that. If only one worker has passed, the accounting is exact.
  But two can pass: the index is then free twice, the next two connections share the slot, and the packet manager sees two disconnections.
\<close>

theorem racing_closes_free_a_slot_twice:
  assumes "slots_ok io0" and "i < length (mClientInfos io0)" and "mIsConnected (mClientInfos io0 ! i)"
    and "reach (close_start io0) (close_step ws i) (io, pc)"
  shows "mFreeSessionList io = mFreeSessionList io0 @ replicate (card (closed_by pc)) i \<and>
    mClientCnt io = mClientCnt io0 - int (card (closed_by pc)) \<and>
    app_events io = app_events io0 @ replicate (card (closed_by pc)) (Ev_Close i) \<and>
    finite (passed_by pc) \<and> closed_by pc \<subseteq> passed_by pc \<and>
    (mIsConnected (mClientInfos io ! i) \<longleftrightarrow> closed_by pc = {}) \<and>
    (\<forall>w. pc w = TurnedAway \<longrightarrow> closed_by pc \<noteq> {}) \<and>
    (\<forall>w. passed_by pc = {w} \<and> pc w = HasClosed \<longrightarrow>
       mFreeSessionList io = mFreeSessionList io0 @ [i] \<and> mClientCnt io = mClientCnt io0 - 1 \<and>
       app_events io = app_events io0 @ [Ev_Close i]) \<and>
    (\<exists>io2 pc2. reach (close_start io0) (close_step ws i) (io2, pc2) \<and> closed_by pc2 = {0, 1} \<and>
      mFreeSessionList io2 = mFreeSessionList io0 @ [i, i] \<and> mClientCnt io2 = mClientCnt io0 - 2 \<and>
      app_events io2 = app_events io0 @ [Ev_Close i, Ev_Close i])"
  using close_inv_facts [OF assms(2) close_inv_reach [OF assms]] double_close_run [OF assms(1-3), of ws] by blast

theorem racing_closes_free_a_slot_twice_witness:
  "\<exists>io pc. reach (close_start demo_one) (close_step (\<lambda>_. demo_ws) 0) (io, pc) \<and> closed_by pc = {0, 1} \<and>
    mFreeSessionList io = [0, 0] \<and> mClientCnt io = - 1"
proof -
  have "reach (close_start demo_one) (close_step (\<lambda>_. demo_ws) 0) (demo_one, \<lambda>_. Before)"
    by (rule reach_init) (simp add: close_start_def)
  from racing_closes_free_a_slot_twice [OF demo_one_ok _ _ this] demo_one_fields show ?thesis by auto
qed

text \<open>
  C36. The rule of the timeout thread for a connected session, by the unsigned 64-bit difference \<open>e\<close> between the clock
  read at the start of the round and the time of its last activity: below 30
  seconds nothing happens; from 30 to 60 seconds it is sent a ping unless the last one is less than 30
  seconds old; from 60 seconds on its socket is shut down. When the activity was not after the clock was read, \<open>e\<close> is the
  time of silence. When it was, \<open>e\<close> wraps around, and the active session is disconnected.
\<close>

theorem timeout_rule:
  assumes "i < length (mClientInfos io)" and "s = mClientInfos io ! i" and "mIsConnected s"
    and "e = (uint now - uint (mLastActivityTime s)) mod 2 ^ 64"
  shows "IOCP_TimeoutCheck_session ws now io i =
    (if e < 30000 then Inr io
     else if 60000 \<le> e then Inr (io\<lparr>mNet := ClientSession_DisconnectAsync (mNet io) s\<rparr>)
     else if (uint now - uint (mLastPingTime s)) mod 2 ^ 64 < 30000 then Inr io
     else bindr (ClientSession_SendMsg ws (mNet io) (s\<lparr>mLastPingTime := now\<rparr>) 5 (packet_bytes 0 PING_PACKET))
       (\<lambda>(_, net', s'). Inr (put_session io i net' s'))) \<and>
    (mLastActivityTime s \<le> now \<longrightarrow> e = uint now - uint (mLastActivityTime s)) \<and>
    (now < mLastActivityTime s \<and> uint (mLastActivityTime s) - uint now \<le> 2 ^ 64 - 60000 \<longrightarrow>
       IOCP_TimeoutCheck_session ws now io i = Inr (io\<lparr>mNet := ClientSession_DisconnectAsync (mNet io) s\<rparr>))"
proof -
  have e: "uint (now - mLastActivityTime s) = e" by (simp add: assms(4) uint_word_ariths)
  have "e = uint now - uint (mLastActivityTime s)" if "mLastActivityTime s \<le> now"
    using word_elapsed [OF that] e by simp
  then show ?thesis
    using TimeoutCheck_session_rule [OF assms(1), of ws now] TimeoutCheck_session_wraps [OF assms(1), of now ws] e assms(2,3)
    by (simp add: uint_word_ariths)
qed

theorem timeout_rule_witness:
  "IOCP_TimeoutCheck_session demo_ws 70000 (demo_connected 5000 0) 0 =
    Inr ((demo_connected 5000 0)\<lparr>mNet := ClientSession_DisconnectAsync (mNet (demo_connected 5000 0))
      (mClientInfos (demo_connected 5000 0) ! 0)\<rparr>)"
  using timeout_rule [of 0 "demo_connected 5000 0" "mClientInfos (demo_connected 5000 0) ! 0" 65000 70000 demo_ws]
  by (simp add: demo_connected_def)

text \<open>
  C37. The type invariant of a connection slot: the positions and the size of its ring buffer agree and its buffers
  have their full length. A fresh slot satisfies it, and all operations that change a slot keep it: clearing, the domain state,
  entering a room, the generation, receiving any bytes, taking a packet. None of them faults on a slot that satisfies it, with one
  exception: \<open>SetLogin\<close> reads a name up to its terminator, and returns exactly when there is one.
\<close>

theorem connection_buffer_type:
  assumes "user_inv u"
  shows "user_inv (User_Init (User_new ringmem tempmem) i) \<and> user_inv (User_Init u i) \<and> user_inv (User_Clear u) \<and>
    user_inv (User_EnterRoom u r) \<and> user_inv (User_SetDomainState u d) \<and> user_inv (User_IncrementGeneration u) \<and>
    (\<forall>name. (0 \<in> set name \<longrightarrow> (\<exists>u'. User_SetLogin u name = Inr u' \<and> user_inv u')) \<and>
       (0 \<notin> set name \<longrightarrow> (\<exists>e. User_SetLogin u name = Inl e))) \<and>
    (\<forall>ds. \<exists>u'. User_SetPacketData u (length ds) (Some ds) = Inr u' \<and> user_inv u' \<and>
       length (user_bytes u') \<le> BufferSize (mPacketDataBuffer u)) \<and>
    (\<exists>u' pk. User_GetPacket u = Inr (u', pk) \<and> user_inv u')"
proof -
  have "\<exists>u'. User_SetPacketData u (length ds) (Some ds) = Inr u' \<and> user_inv u' \<and>
       length (user_bytes u') \<le> BufferSize (mPacketDataBuffer u)" for ds
    using SetPacketData_total [OF assms, of ds] .
  then show ?thesis
    using GetPacket_effects [OF assms] user_inv_new [of ringmem tempmem i] user_inv_Clear [OF assms]
      user_inv_setters [OF assms] SetLogin_total [OF assms] by auto
qed

theorem connection_buffer_type_witness:
  "\<exists>u'. User_SetPacketData (demo_user 3) 9000 (Some (replicate 9000 7)) = Inr u' \<and>
    user_inv u' \<and> length (user_bytes u') \<le> 8096"
proof -
  have "\<forall>ds. \<exists>u'. User_SetPacketData (demo_user 3) (length ds) (Some ds) = Inr u' \<and> user_inv u' \<and>
      length (user_bytes u') \<le> 8096"
    using connection_buffer_type [of "demo_user 3"] by simp
  from this [rule_format, of "replicate 9000 7"] show ?thesis by (simp only: length_replicate)
qed

text \<open>
  C38. Each event-loop adapter of hiredis refines the client's requests: on a consistent container (its invariant
  includes the documented laws of the loop it drives) any sequence of hooks runs without a fault, and the loop then
  watches the connection for exactly the directions the requests add up to; a cleanup after it leaves the
  container released and nothing watched (for the poll adapter: no coming tick asks for anything). For libevent and poll this holds outside and inside their handlers
  (\<open>mode\<close>). For sd-event it holds outside; inside the handler a cleanup marks the container, and what the
  handler then does to a marked container, \<open>redisLibsdeventDestroy\<close>, frees it with its sources disabled.
\<close>

theorem adapters_watch_requests:
  "implements_hooks (ae_hooks ae_api) (ae_inv ae_api w1) (ae_watched w1) (ae_released w1) \<and>
   implements_hooks (lev_hooks lev_api) (lev_inv lev_api w2) (lev_watched w2) (lev_released w2) \<and>
   implements_hooks (mod_hooks mod_api) (mod_inv mod_api w3 timers3) (mod_watched w3) (mod_released w3 timers3) \<and>
   implements_hooks (uv_hooks uv_api) (uv_inv uv_api w4) (\<lambda>e. w4 (uv_loop e)) (uv_closing w4) \<and>
   implements_hooks (le_hooks le_api) (le_inv mode le_api w5 assigned) (\<lambda>e. w5 (le_base e)) (le_released mode w5) \<and>
   implements_hooks (sd_hooks sd_api) (sd_inv False sd_api w6 armed refs r) (\<lambda>e. w6 (sd_loop e))
     (sd_released False sd_api w6 armed refs r) \<and>
   (\<forall>e hs. sd_inv True sd_api w6 armed refs r e \<and> Cleanup \<notin> set hs \<longrightarrow>
     runs (run_hooks (sd_hooks sd_api) hs e)
       (\<lambda>e'. sd_inv True sd_api w6 armed refs r e' \<and> w6 (sd_loop e') = foldl requested (w6 (sd_loop e)) hs) \<and>
     runs (run_hooks (sd_hooks sd_api) (hs @ [Cleanup]) e) (\<lambda>e'. \<not> freed e' \<and>
       runs (redisLibsdeventDestroy sd_api e')
         (\<lambda>e2. freed e2 \<and> w6 (sd_loop e2) = {} \<and> \<not> armed (sd_loop e2) \<and> refs (sd_loop e2) = r))) \<and>
   implements_hooks (pe_hooks env) (pe_inv mode) pe_watched (pe_released mode) \<and>
   implements_hooks (hv_hooks hv_api) (hv_inv hv_api timers8) (\<lambda>e. hio_events hv_api (hv_loop e)) (hv_released hv_api timers8) \<and>
   implements_hooks (iv_hooks iv_api) (iv_inv iv_api w9) (\<lambda>e. w9 (iv_loop e) (iv_fd e)) (iv_released w9) \<and>
   implements_hooks (cf_hooks cf_api) (cf_inv cf_api w10) (\<lambda>e. w10 (cf_state e)) (cf_released w10) \<and>
   implements_hooks (qt_hooks qt_api) (qt_inv qt_api w11 i fd) (\<lambda>a. w11 (qt_system a) fd) (qt_released w11 i fd) \<and>
   implements_hooks (gl_hooks gl_api) (gl_inv rv) gl_watched (gl_released rv)"
  by (intro conjI ae.implements lev.implements md.implements uv.implements le.implements sd_outside.implements sd_inside
      pe.implements hv.implements iv.implements cf.implements qt.implements gl.implements)

theorem adapters_watch_requests_witness:
  "hooks_life (ae_hooks demo_ae_api) (ae_inv demo_ae_api (\<lambda>l. l)) (ae_watched (\<lambda>l. l)) (ae_released (\<lambda>l. l)) demo_ae \<and>
   hooks_life (lev_hooks demo_lev_api) (lev_inv demo_lev_api (\<lambda>l. l)) (lev_watched (\<lambda>l. l)) (lev_released (\<lambda>l. l)) demo_lev \<and>
   hooks_life (mod_hooks demo_mod_api) (mod_inv demo_mod_api fst snd) (mod_watched fst) (mod_released fst snd) demo_mod \<and>
   hooks_life (uv_hooks demo_uv_api) (uv_inv demo_uv_api (\<lambda>l. l)) (\<lambda>e. uv_loop e) (uv_closing (\<lambda>l. l)) demo_uv \<and>
   hooks_life (le_hooks demo_event_api) (le_inv False demo_event_api snd fst) (\<lambda>e. snd (le_base e)) (le_released False snd) demo_libevent \<and>
   hooks_life (sd_hooks demo_sd_api) (sd_inv False demo_sd_api fst (\<lambda>l. fst (snd l)) (\<lambda>l. snd (snd l)) 0) (\<lambda>e. fst (sd_loop e))
     (sd_released False demo_sd_api fst (\<lambda>l. fst (snd l)) (\<lambda>l. snd (snd l)) 0) demo_sd \<and>
   hooks_life (pe_hooks demo_poll_env) (pe_inv False) pe_watched (pe_released False) demo_pe \<and>
   hooks_life (hv_hooks demo_hv_api) (hv_inv demo_hv_api snd) (\<lambda>e. hio_events demo_hv_api (hv_loop e)) (hv_released demo_hv_api snd) demo_hv \<and>
   hooks_life (iv_hooks demo_iv_api) (iv_inv demo_iv_api (\<lambda>l. l)) (\<lambda>e. iv_loop e (iv_fd e)) (iv_released (\<lambda>l. l)) demo_iv \<and>
   hooks_life (cf_hooks demo_cf_api) (cf_inv demo_cf_api (\<lambda>l. l)) cf_state (cf_released (\<lambda>l. l)) demo_cf \<and>
   hooks_life (qt_hooks demo_qt_api) (qt_inv demo_qt_api (\<lambda>l. l) 1 5) (\<lambda>a. qt_system a 5) (qt_released (\<lambda>l. l) 1 5) demo_qt \<and>
   hooks_life (gl_hooks demo_gl_api) (gl_inv 0) gl_watched (gl_released 0) demo_gl \<and>
   hooks_life (le_hooks demo_event_api) (le_inv True demo_event_api snd fst) (\<lambda>e. snd (le_base e)) (le_released True snd)
     (demo_libevent\<lparr>le_state := REDIS_LIBEVENT_ENTERED\<rparr>) \<and>
   hooks_life (pe_hooks demo_poll_env) (pe_inv True) pe_watched (pe_released True) (demo_pe\<lparr>pe_in_tick := True\<rparr>) \<and>
   runs (run_hooks (sd_hooks demo_sd_api) [AddRead, AddWrite, Cleanup] (demo_sd\<lparr>sd_state := REDIS_LIBSDEVENT_ENTERED\<rparr>))
     (\<lambda>e. \<not> freed e \<and> runs (redisLibsdeventDestroy demo_sd_api e) (\<lambda>e2. freed e2 \<and> sd_loop e2 = ({}, False, 0)))"
proof -
  note all = adapters_watch_requests [of demo_ae_api "\<lambda>l. l" demo_lev_api "\<lambda>l. l" demo_mod_api fst snd demo_uv_api "\<lambda>l. l" demo_event_api
    False snd fst demo_sd_api fst "\<lambda>l. fst (snd l)" "\<lambda>l. snd (snd l)" 0 demo_poll_env demo_hv_api snd demo_iv_api "\<lambda>l. l"
    demo_cf_api "\<lambda>l. l" demo_qt_api "\<lambda>l. l" 1 5 demo_gl_api 0]
  note ins = adapters_watch_requests [of demo_ae_api "\<lambda>l. l" demo_lev_api "\<lambda>l. l" demo_mod_api fst snd demo_uv_api "\<lambda>l. l" demo_event_api
    True snd fst demo_sd_api fst "\<lambda>l. fst (snd l)" "\<lambda>l. snd (snd l)" 0 demo_poll_env demo_hv_api snd demo_iv_api "\<lambda>l. l"
    demo_cf_api "\<lambda>l. l" demo_qt_api "\<lambda>l. l" 1 5 demo_gl_api 0]
  let ?sd = "demo_sd\<lparr>sd_state := REDIS_LIBSDEVENT_ENTERED\<rparr>"
  have c: "sd_inv True demo_sd_api fst (\<lambda>l. fst (snd l)) (\<lambda>l. snd (snd l)) 0 ?sd \<and> Cleanup \<notin> set [AddRead, AddWrite]"
    using demo_sd_inv(2) by simp
  note inside = all [THEN conjunct2, THEN conjunct2, THEN conjunct2, THEN conjunct2, THEN conjunct2, THEN conjunct2, THEN conjunct1,
    THEN spec, THEN spec, THEN mp, OF c, THEN conjunct2]
  have sd: "runs (run_hooks (sd_hooks demo_sd_api) [AddRead, AddWrite, Cleanup] ?sd)
      (\<lambda>e. \<not> freed e \<and> runs (redisLibsdeventDestroy demo_sd_api e) (\<lambda>e2. freed e2 \<and> sd_loop e2 = ({}, False, 0)))"
    using inside by (simp add: prod_eq_iff)
  show ?thesis
    by (intro conjI sd hooks_life_ok demo_ae_inv demo_lev_inv demo_mod_inv demo_uv_inv demo_libevent_inv demo_sd_inv demo_pe_inv
        demo_hv_inv demo_iv_inv demo_cf_inv demo_qt_inv demo_gl_inv) (use all ins in blast)+
qed

text \<open>
  C39. The header of a hiredis string, for the packed layout and for the padded one that MSVC produces: the length read
  after \<open>sdssetlen\<close> is the one stored, cut to the bits its type has (five, next to the type, in a string of type 5);
  the type, the capacity of the types that store one, and all characters are unchanged. Likewise for \<open>sdssetalloc\<close>.
\<close>

theorem sds_length_roundtrip:
  assumes "sds_valid packed m s"
  shows "\<exists>m'. sdssetlen packed m s n = Inr m' \<and>
    sdslen packed m' s = Inr (take_bit (sds_bits (sds_type m s)) n) \<and>
    (sds_type m s \<noteq> SDS_TYPE_5 \<longrightarrow> sdsalloc packed m' s = sdsalloc packed m s \<and>
       (\<exists>m2. sdssetalloc packed m' s k = Inr m2 \<and>
          sdsalloc packed m2 s = Inr (take_bit (sds_bits (sds_type m s)) k) \<and>
          sdslen packed m2 s = sdslen packed m' s \<and> drop s m2 = drop s m)) \<and>
    sds_valid packed m' s \<and> sds_type m' s = sds_type m s \<and> length m' = length m \<and> drop s m' = drop s m"
proof -
  obtain m' where m': "sdssetlen packed m s n = Inr m'" "sdslen packed m' s = Inr (take_bit (sds_bits (sds_type m s)) n)"
    "sds_type m s \<noteq> SDS_TYPE_5 \<longrightarrow> sdsalloc packed m' s = sdsalloc packed m s"
    "sds_valid packed m' s" "sds_type m' s = sds_type m s" "length m' = length m" "drop s m' = drop s m"
    using sdssetlen_sdslen [OF assms, of n] by blast
  have "\<exists>m2. sdssetalloc packed m' s k = Inr m2 \<and> sdsalloc packed m2 s = Inr (take_bit (sds_bits (sds_type m s)) k) \<and>
      sdslen packed m2 s = sdslen packed m' s \<and> drop s m2 = drop s m" if "sds_type m s \<noteq> SDS_TYPE_5"
    using sdssetalloc_sdsalloc [OF m'(4), of k] that m'(5,7) by auto
  then show ?thesis using m' by blast
qed

theorem sds_length_roundtrip_witness:
  "(\<exists>m'. sdssetlen True demo_sds8 3 300 = Inr m' \<and> sdslen True m' 3 = Inr 44) \<and>
   (\<exists>m'. sdssetlen False demo_sds16 6 300 = Inr m' \<and> sdslen False m' 6 = Inr 300)"
proof -
  have "\<exists>m'. sdssetlen True demo_sds8 3 300 = Inr m' \<and> sdslen True m' 3 = Inr (take_bit (sds_bits SDS_TYPE_8) 300)"
    using sds_length_roundtrip [OF demo_sds_valid(1), of 300] demo_sds_valid(2) by auto
  moreover have "\<exists>m'. sdssetlen False demo_sds16 6 300 = Inr m' \<and> sdslen False m' 6 = Inr (take_bit (sds_bits SDS_TYPE_16) 300)"
    using sds_length_roundtrip [OF demo_sds_valid(3), of 300] demo_sds_valid(4) by auto
  ultimately show ?thesis by (simp add: sds_bits_def sds_consts)
qed

text \<open>
  C40. The comment in \<open>sds.h\<close> says \<open>sdsalloc() = sdsavail() + sdslen()\<close>. In 64-bit arithmetic this holds for every header,
  whatever it contains, with one exception: for a header of type 32 whose length exceeds its capacity the sum is
  too large by 2 to the 32. Adding to the length is the same as setting it to the sum, at every width.
\<close>

theorem sds_header_equations:
  assumes "sds_valid packed m s"
  shows "\<exists>len avail alloc. sdslen packed m s = Inr len \<and> sdsavail packed m s = Inr avail \<and>
    sdsalloc packed m s = Inr alloc \<and>
    avail + len = (if sds_type m s = SDS_TYPE_32 \<and> alloc < len then alloc + 2 ^ 32 else alloc) \<and>
    sdsinclen packed m s inc = sdssetlen packed m s (len + inc)"
  using sdsalloc_is_avail_plus_len [OF assms] sdsinclen_is_setlen [OF assms, of _ inc] by blast

theorem sds_header_equations_witness:
  "\<exists>len avail. sdslen True demo_sds8 3 = Inr len \<and> sdsavail True demo_sds8 3 = Inr avail \<and>
    sdsalloc True demo_sds8 3 = Inr (avail + len) \<and> sdsinclen True demo_sds8 3 5 = sdssetlen True demo_sds8 3 (len + 5)"
  using sds_header_equations [OF demo_sds_valid(1), of 5] demo_sds_valid(2) by auto

end
